(* ===== verification/Prelude.thy ===== *)
theory Prelude
  imports Main "HOL-Library.Word" "HOL-Library.Multiset" "HOL-Library.AList"
begin

text \<open>
  What every component of the development shares: the collections of facts the proofs
  call on, Go's 64-bit signed integers with their wrap-around and their signed order, and
  a few generic facts on lists, association lists and searches.
\<close>

section \<open>Collections\<close>

named_theorems go_int \<open>how Go's 64-bit integers read as integers\<close>
named_theorems go_eval \<open>unfolding rules used when a closed term is evaluated\<close>

section \<open>Go's int64\<close>

text \<open>
  An int64 is a 64-bit word read in two's complement.  It is a type of its own and not the
  plain word type because Go compares int64 values as signed numbers, while \<open>\<le>\<close> on words is
  the unsigned order.
\<close>

datatype int64 = Int64 (bits64: "64 word")

definition int_of :: "int64 \<Rightarrow> int" where
  "int_of a = sint (bits64 a)"

definition i64 :: "int \<Rightarrow> int64" where
  "i64 i = Int64 (word_of_int i)"

lemma int_of_inject [simp]: "int_of a = int_of b \<longleftrightarrow> a = b"
  by (cases a; cases b) (auto simp: int_of_def intro: signed_word_eqI)

instantiation int64 :: linorder
begin
definition less_eq_int64 :: "int64 \<Rightarrow> int64 \<Rightarrow> bool" where
  "less_eq_int64 a b \<longleftrightarrow> int_of a \<le> int_of b"
definition less_int64 :: "int64 \<Rightarrow> int64 \<Rightarrow> bool" where
  "less_int64 a b \<longleftrightarrow> int_of a < int_of b"
instance
  by standard (auto simp: less_eq_int64_def less_int64_def dest: order_antisym)
end

instantiation int64 :: "{zero, plus, minus, times}"
begin
definition zero_int64 :: int64 where
  "zero_int64 = i64 0"
definition plus_int64 :: "int64 \<Rightarrow> int64 \<Rightarrow> int64" where
  "plus_int64 a b = Int64 (bits64 a + bits64 b)"
definition minus_int64 :: "int64 \<Rightarrow> int64 \<Rightarrow> int64" where
  "minus_int64 a b = Int64 (bits64 a - bits64 b)"
definition times_int64 :: "int64 \<Rightarrow> int64 \<Rightarrow> int64" where
  "times_int64 a b = Int64 (bits64 a * bits64 b)"
instance ..
end

definition in_int64 :: "int \<Rightarrow> bool" where
  "in_int64 i \<longleftrightarrow> - (2 ^ 63) \<le> i \<and> i < 2 ^ 63"

lemma int_of_range: "in_int64 (int_of a)"
  using sint_ge [of "bits64 a"] sint_lt [of "bits64 a"]
  by (simp add: in_int64_def int_of_def)

lemma int_of_i64 [go_int, simp]: "in_int64 i \<Longrightarrow> int_of (i64 i) = i"
  by (simp add: in_int64_def int_of_def i64_def signed_of_int signed_take_bit_int_eq_self)

lemma i64_int_of [simp]: "i64 (int_of a) = a"
  by (cases a) (simp add: i64_def int_of_def)

lemma plus_int64_i64: "a + b = i64 (int_of a + int_of b)"
  by (simp add: plus_int64_def i64_def int_of_def)

lemma minus_int64_i64: "a - b = i64 (int_of a - int_of b)"
  by (simp add: minus_int64_def i64_def int_of_def)

lemma times_int64_i64: "a * b = i64 (int_of a * int_of b)"
  by (simp add: times_int64_def i64_def int_of_def)

lemma int_of_plus [go_int]: "in_int64 (int_of a + int_of b) \<Longrightarrow> int_of (a + b) = int_of a + int_of b"
  by (simp add: plus_int64_i64)

lemma int_of_minus [go_int]: "in_int64 (int_of a - int_of b) \<Longrightarrow> int_of (a - b) = int_of a - int_of b"
  by (simp add: minus_int64_i64)

lemma int_of_times [go_int]: "in_int64 (int_of a * int_of b) \<Longrightarrow> int_of (a * b) = int_of a * int_of b"
  by (simp add: times_int64_i64)

lemma int_of_zero [go_int, simp]: "int_of 0 = 0"
  by (simp add: zero_int64_def in_int64_def)

section \<open>Lists and searches\<close>

lemma find_append: "find P (xs @ ys) = (case find P xs of None \<Rightarrow> find P ys | Some x \<Rightarrow> Some x)"
  by (induction xs) auto

lemma sum_list_update_nat:
  "i < length xs \<Longrightarrow> sum_list (map f (xs[i := y])) + f (xs ! i) = sum_list (map f xs) + (f y :: nat)"
proof (induction xs arbitrary: i)
  case (Cons x xs)
  then show ?case using Cons.IH [of "i - 1"] by (cases i) auto
qed simp

lemma sum_list_replicate_zero: "f x = (0 :: nat) \<Longrightarrow> sum_list (map f (replicate n x)) = 0"
  by (induction n) auto

lemma sum_list_eq_0_nat: "sum_list (map f xs) = (0 :: nat) \<longleftrightarrow> (\<forall>x \<in> set xs. f x = 0)"
  by (induction xs) auto

end
