(* ===== verification/Timeout_Heap.thy ===== *)
theory Timeout_Heap
  imports Prelude
begin

text \<open>
  \<^verbatim>\<open>extensions/timeout_heap.go\<close>: the heap of pending requests ordered by expiry, the
  container/heap algorithms it is driven by, and the locked operations of its API.  A slice
  of pointers to nodes is a list of node records; the field that Go writes through the
  pointer (\<open>index\<close>) is written in the record.  The clock is an argument: the value that
  \<open>getNowInUnixMilliseconds\<close> returns during the call.
\<close>

section \<open>State\<close>

record timeoutNode =
  UnixTimeStamp :: int64
  DeviceToken :: string
  index :: int

type_synonym TimeoutHeap = "timeoutNode list"

section \<open>The heap.Interface methods\<close>

definition newTimeoutNode :: "int64 \<Rightarrow> int64 \<Rightarrow> string \<Rightarrow> timeoutNode" where
  "newTimeoutNode timeoutCte now deviceToken =
     \<lparr>UnixTimeStamp = now + timeoutCte, DeviceToken = deviceToken, index = 0\<rparr>"

definition heap_Len :: "TimeoutHeap \<Rightarrow> nat" where
  "heap_Len th = length th"

definition heap_Less :: "TimeoutHeap \<Rightarrow> nat \<Rightarrow> nat \<Rightarrow> bool" where
  "heap_Less th i j \<longleftrightarrow> UnixTimeStamp (th ! i) < UnixTimeStamp (th ! j)"

definition heap_Swap :: "TimeoutHeap \<Rightarrow> nat \<Rightarrow> nat \<Rightarrow> TimeoutHeap" where
  "heap_Swap th i j =
     (let th1 = th[i := th ! j, j := th ! i];
          th2 = th1[i := (th1 ! i)\<lparr>index := int i\<rparr>]
      in th2[j := (th2 ! j)\<lparr>index := int j\<rparr>])"

definition heap_Push :: "TimeoutHeap \<Rightarrow> timeoutNode \<Rightarrow> TimeoutHeap" where
  "heap_Push th node = th @ [node\<lparr>index := int (length th)\<rparr>]"

definition heap_Pop :: "TimeoutHeap \<Rightarrow> timeoutNode \<times> TimeoutHeap" where
  "heap_Pop th = ((last th)\<lparr>index := -1\<rparr>, butlast th)"

section \<open>container/heap over these methods\<close>

text \<open>The sift loops of Go's container/heap, as it runs them on this heap.\<close>

function up :: "TimeoutHeap \<Rightarrow> nat \<Rightarrow> TimeoutHeap" where
  "up th j =
     (let i = (j - 1) div 2 in
      if i = j \<or> \<not> heap_Less th j i then th else up (heap_Swap th i j) i)"
  by pat_completeness auto
termination
  by (relation "measure snd") auto

function down :: "TimeoutHeap \<Rightarrow> nat \<Rightarrow> nat \<Rightarrow> TimeoutHeap" where
  "down th i n =
     (let j1 = 2 * i + 1 in
      if n \<le> j1 then th
      else let j = (if j1 + 1 < n \<and> heap_Less th (j1 + 1) j1 then j1 + 1 else j1) in
        if \<not> heap_Less th j i then th else down (heap_Swap th i j) j n)"
  by pat_completeness auto
termination
  by (relation "measure (\<lambda>(th, i, n). n - i)") (auto simp: Let_def)

declare up.simps [simp del] down.simps [simp del]

definition container_Push :: "TimeoutHeap \<Rightarrow> timeoutNode \<Rightarrow> TimeoutHeap" where
  "container_Push th node = (let th' = heap_Push th node in up th' (length th' - 1))"

definition container_Pop :: "TimeoutHeap \<Rightarrow> timeoutNode \<times> TimeoutHeap" where
  "container_Pop th = (let n = length th - 1 in heap_Pop (down (heap_Swap th 0 n) 0 n))"

fun container_Init_from :: "nat \<Rightarrow> TimeoutHeap \<Rightarrow> TimeoutHeap" where
  "container_Init_from 0 th = th"
| "container_Init_from (Suc i) th = container_Init_from i (down th i (length th))"

definition container_Init :: "TimeoutHeap \<Rightarrow> TimeoutHeap" where
  "container_Init th = container_Init_from (length th div 2) th"

section \<open>The locked API\<close>

definition NewTimeoutHeap :: TimeoutHeap where
  "NewTimeoutHeap = container_Init []"

definition heap_Empty :: "TimeoutHeap \<Rightarrow> bool" where
  "heap_Empty th \<longleftrightarrow> heap_Len th = 0"

definition AddRequest :: "int64 \<Rightarrow> int64 \<Rightarrow> string \<Rightarrow> TimeoutHeap \<Rightarrow> TimeoutHeap" where
  "AddRequest timeoutCte now deviceToken th =
     container_Push th (newTimeoutNode timeoutCte now deviceToken)"

definition completeHasExpiredRequest ::
    "int64 \<Rightarrow> TimeoutHeap \<Rightarrow> (string \<times> int64 \<times> bool) \<times> TimeoutHeap" where
  "completeHasExpiredRequest now th =
     (if length th = 0 then (('''', 0, False), th)
      else let node = th ! 0 in
        if now < UnixTimeStamp node then (('''', 0, False), th)
        else ((DeviceToken node, UnixTimeStamp node, True), snd (container_Pop th)))"

definition HasExpiredRequest :: "int64 \<Rightarrow> TimeoutHeap \<Rightarrow> (string \<times> bool) \<times> TimeoutHeap" where
  "HasExpiredRequest now th =
     (case completeHasExpiredRequest now th of
        ((deviceToken, _, has), th') \<Rightarrow> ((deviceToken, has), th'))"

section \<open>The heap order\<close>

text \<open>
  The observable contents of a heap are its requests, a multiset of (expiry, token) pairs;
  \<open>index\<close> is bookkeeping.  \<open>ordered_upto th n\<close> is the heap order on the first \<open>n\<close> nodes;
  the two weakened forms allow one index to be out of place, from below or from above.
\<close>

definition request :: "timeoutNode \<Rightarrow> int64 \<times> string" where
  "request node = (UnixTimeStamp node, DeviceToken node)"

definition requests :: "TimeoutHeap \<Rightarrow> (int64 \<times> string) multiset" where
  "requests th = mset (map request th)"

definition key :: "TimeoutHeap \<Rightarrow> nat \<Rightarrow> int64" where
  "key th i = UnixTimeStamp (th ! i)"

definition parent :: "nat \<Rightarrow> nat" where
  "parent i = (i - 1) div 2"

definition ordered_upto :: "TimeoutHeap \<Rightarrow> nat \<Rightarrow> bool" where
  "ordered_upto th n \<longleftrightarrow> (\<forall>i. 0 < i \<and> i < n \<longrightarrow> key th (parent i) \<le> key th i)"

definition ordered_but_up :: "TimeoutHeap \<Rightarrow> nat \<Rightarrow> bool" where
  "ordered_but_up th j \<longleftrightarrow> (\<forall>i. 0 < i \<and> i < length th \<longrightarrow>
     (i \<noteq> j \<longrightarrow> key th (parent i) \<le> key th i) \<and>
     (parent i = j \<and> 0 < j \<longrightarrow> key th (parent j) \<le> key th i))"

definition ordered_but_down :: "TimeoutHeap \<Rightarrow> nat \<Rightarrow> nat \<Rightarrow> bool" where
  "ordered_but_down th j n \<longleftrightarrow> (\<forall>i. 0 < i \<and> i < n \<longrightarrow>
     (parent i \<noteq> j \<longrightarrow> key th (parent i) \<le> key th i) \<and>
     (parent i = j \<and> 0 < j \<longrightarrow> key th (parent j) \<le> key th i))"

definition indexed :: "TimeoutHeap \<Rightarrow> bool" where
  "indexed th \<longleftrightarrow> (\<forall>i < length th. index (th ! i) = int i)"

definition heap_inv :: "TimeoutHeap \<Rightarrow> bool" where
  "heap_inv th \<longleftrightarrow> ordered_upto th (length th) \<and> indexed th"

lemma request_index [simp]: "request (node\<lparr>index := k\<rparr>) = request node"
  by (simp add: request_def)

lemma length_heap_Swap [simp]: "length (heap_Swap th i j) = length th"
  by (simp add: heap_Swap_def Let_def)

lemma key_heap_Swap:
  assumes "i < length th" "j < length th" "k < length th"
  shows "key (heap_Swap th i j) k = (if k = i then key th j else if k = j then key th i else key th k)"
  using assms by (auto simp: heap_Swap_def Let_def key_def nth_list_update)

lemma nth_heap_Swap_other: "k \<noteq> i \<Longrightarrow> k \<noteq> j \<Longrightarrow> heap_Swap th i j ! k = th ! k"
  by (simp add: heap_Swap_def Let_def)

lemma request_heap_Swap_snd:
  "i < length th \<Longrightarrow> j < length th \<Longrightarrow> request (heap_Swap th i j ! j) = request (th ! i)"
  by (auto simp: heap_Swap_def Let_def nth_list_update)

lemma requests_heap_Swap [simp]:
  assumes "i < length th" "j < length th"
  shows "requests (heap_Swap th i j) = requests th"
proof -
  have "map request (heap_Swap th i j) = (map request th)[j := map request th ! i, i := map request th ! j]"
    using assms by (auto simp: heap_Swap_def Let_def nth_list_update intro!: nth_equalityI)
  then show ?thesis
    using assms mset_swap [of i "map request th" j] by (simp add: requests_def)
qed

lemma indexed_heap_Swap:
  "indexed th \<Longrightarrow> i < length th \<Longrightarrow> j < length th \<Longrightarrow> indexed (heap_Swap th i j)"
  by (auto simp: indexed_def heap_Swap_def Let_def nth_list_update)

lemma heap_Less_key: "heap_Less th i j \<longleftrightarrow> key th i < key th j"
  by (simp add: heap_Less_def key_def)

lemma parent_less: "0 < i \<Longrightarrow> parent i < i"
  by (auto simp: parent_def)

lemma parent_fixed: "parent i = i \<longleftrightarrow> i = 0"
  by (auto simp: parent_def)

lemma children: "0 < k \<Longrightarrow> parent k = i \<longleftrightarrow> k = 2 * i + 1 \<or> k = 2 * i + 2"
  by (auto simp: parent_def)

lemma root_minimal:
  "ordered_upto th n \<Longrightarrow> i < n \<Longrightarrow> key th 0 \<le> key th i"
proof (induction i rule: less_induct)
  case (less i)
  show ?case
  proof (cases "i = 0")
    case False
    then have "key th 0 \<le> key th (parent i)"
      using less parent_less [of i] by simp
    also have "key th (parent i) \<le> key th i"
      using less.prems False by (simp add: ordered_upto_def)
    finally show ?thesis .
  qed simp
qed

section \<open>Sifting\<close>

lemma ordered_but_up_Swap:
  assumes inv: "ordered_but_up th j" and j: "0 < j" "j < length th" and lt: "key th j < key th (parent j)"
  shows "ordered_but_up (heap_Swap th (parent j) j) (parent j)"
proof -
  define p where "p = parent j"
  let ?th = "heap_Swap th p j"
  have p: "p < j" "p < length th" using j parent_less [of j] by (auto simp: p_def)
  have k: "key ?th k = (if k = p then key th j else if k = j then key th p else key th k)"
    if "k < length th" for k
    using key_heap_Swap [OF p(2) j(2) that] .
  have le: "key th (parent k) \<le> key th k" if "0 < k" "k < length th" "k \<noteq> j" for k
    using inv that by (simp add: ordered_but_up_def)
  have gp: "key th p \<le> key th k" if "0 < k" "k < length th" "parent k = j" for k
    using inv that j by (simp add: ordered_but_up_def p_def)
  have lt: "key th j < key th p" using lt by (simp add: p_def)
  have "key ?th (parent i) \<le> key ?th i" if i: "0 < i" "i < length th" "i \<noteq> p" for i
  proof -
    have pi: "parent i < i" "parent i < length th" using i parent_less [of i] by auto
    consider "i = j" | "i \<noteq> j" "parent i = p" | "i \<noteq> j" "parent i = j" | "i \<noteq> j" "parent i \<noteq> p" "parent i \<noteq> j"
      by blast
    then show ?thesis
    proof cases
      case 1 then show ?thesis using k [of i] k [of p] p lt j by (simp add: p_def [symmetric])
    next
      case 2 then show ?thesis using k [of i] k [of p] le [of i] i lt p by auto
    next
      case 3 then show ?thesis using k [of i] k [of j] gp [of i] i j p by auto
    next
      case 4 then show ?thesis using k [of i] k [of "parent i"] le [of i] i pi by auto
    qed
  qed
  moreover have "key ?th (parent p) \<le> key ?th i" if i: "0 < i" "i < length th" "parent i = p" "0 < p" for i
  proof -
    have pp: "parent p < p" using i parent_less by simp
    have "key th (parent p) \<le> key th p" using le [of p] i p by simp
    moreover have "key ?th (parent p) = key th (parent p)" using k [of "parent p"] pp p by simp
    moreover have "key th p \<le> key ?th i" if "i \<noteq> j" "i \<noteq> p" using le [of i] k [of i] i that by simp
    moreover have "key ?th j = key th p" using k [of j] p j by simp
    moreover have "i \<noteq> p" using i parent_less [of i] by auto
    ultimately show ?thesis by (cases "i = j") auto
  qed
  ultimately show ?thesis
    by (simp add: ordered_but_up_def p_def)
qed

lemma ordered_but_up_done:
  assumes "ordered_but_up th j" "parent j = j \<or> \<not> key th j < key th (parent j)"
  shows "ordered_upto th (length th)"
  using assms by (auto simp: ordered_but_up_def ordered_upto_def parent_fixed)

lemma up_unfold:
  "up th j = (if parent j = j \<or> \<not> key th j < key th (parent j) then th
     else up (heap_Swap th (parent j) j) (parent j))"
  by (subst up.simps) (simp add: Let_def parent_def heap_Less_key)

lemma up_correct:
  assumes "j < length th"
  shows "length (up th j) = length th \<and> requests (up th j) = requests th
    \<and> (indexed th \<longrightarrow> indexed (up th j))
    \<and> (ordered_but_up th j \<longrightarrow> ordered_upto (up th j) (length th))"
  using assms
proof (induction j arbitrary: th rule: less_induct)
  case (less j)
  show ?case
  proof (cases "parent j = j \<or> \<not> key th j < key th (parent j)")
    case True
    then have "up th j = th" by (subst up_unfold) simp
    with True show ?thesis
      using ordered_but_up_done [of th j] by simp
  next
    case False
    then have j: "0 < j" using parent_fixed by auto
    then have p: "parent j < j" "parent j < length th" using parent_less [OF j] less.prems by simp_all
    have eq: "up th j = up (heap_Swap th (parent j) j) (parent j)"
      using False by (subst up_unfold) simp
    have "ordered_but_up th j \<longrightarrow> ordered_but_up (heap_Swap th (parent j) j) (parent j)"
      using ordered_but_up_Swap less.prems j False by blast
    then show ?thesis
      using less.IH [of "parent j" "heap_Swap th (parent j) j"] p less.prems indexed_heap_Swap
      by (simp add: eq)
  qed
qed

lemma ordered_but_down_Swap:
  assumes inv: "ordered_but_down th i n" and n: "n \<le> length th" and j: "j < n" "0 < j" "parent j = i"
    and small: "\<And>k. 0 < k \<Longrightarrow> k < n \<Longrightarrow> parent k = i \<Longrightarrow> key th j \<le> key th k"
    and lt: "key th j < key th i"
  shows "ordered_but_down (heap_Swap th i j) j n"
proof -
  let ?th = "heap_Swap th i j"
  have i: "i < j" "i < length th" "j < length th" using parent_less [OF j(2)] j n by simp_all
  have k: "key ?th k = (if k = i then key th j else if k = j then key th i else key th k)"
    if "k < length th" for k
    using key_heap_Swap [OF i(2) i(3) that] .
  have le: "key th (parent k) \<le> key th k" if "0 < k" "k < n" "parent k \<noteq> i" for k
    using inv that by (simp add: ordered_but_down_def)
  have gp: "key th (parent i) \<le> key th k" if "0 < k" "k < n" "parent k = i" "0 < i" for k
    using inv that by (simp add: ordered_but_down_def)
  have "key ?th (parent m) \<le> key ?th m" if m: "0 < m" "m < n" "parent m \<noteq> j" for m
  proof -
    have pm: "parent m < m" using m parent_less by simp
    consider "m = j" | "m \<noteq> j" "parent m = i" | "m = i" | "m \<noteq> j" "m \<noteq> i" "parent m \<noteq> i"
      by blast
    then show ?thesis
    proof cases
      case 1 then show ?thesis using k [of i] k [of j] i lt j by simp
    next
      case 2 then show ?thesis using k [of i] k [of m] small [of m] m n i pm by auto
    next
      case 3 then show ?thesis using k [of i] k [of "parent i"] gp [of j] j m n i pm by auto
    next
      case 4 then show ?thesis using k [of m] k [of "parent m"] le [of m] m n pm by auto
    qed
  qed
  moreover have "key ?th (parent j) \<le> key ?th m" if m: "0 < m" "m < n" "parent m = j" for m
  proof -
    have "j < m" using m parent_less [of m] by simp
    then show ?thesis using k [of m] k [of i] le [of m] m n i j by simp
  qed
  ultimately show ?thesis
    by (simp add: ordered_but_down_def)
qed

lemma ordered_but_down_done:
  assumes "ordered_but_down th i n" "\<And>k. 0 < k \<Longrightarrow> k < n \<Longrightarrow> parent k = i \<Longrightarrow> key th i \<le> key th k"
  shows "ordered_upto th n"
  using assms unfolding ordered_but_down_def ordered_upto_def by metis

definition lesser_child :: "TimeoutHeap \<Rightarrow> nat \<Rightarrow> nat \<Rightarrow> nat" where
  "lesser_child th i n =
     (if 2 * i + 2 < n \<and> key th (2 * i + 2) < key th (2 * i + 1) then 2 * i + 2 else 2 * i + 1)"

lemma down_unfold:
  "down th i n =
     (if n \<le> 2 * i + 1 \<or> \<not> key th (lesser_child th i n) < key th i then th
      else down (heap_Swap th i (lesser_child th i n)) (lesser_child th i n) n)"
  by (subst down.simps) (simp add: Let_def heap_Less_key lesser_child_def)

lemma lesser_child:
  assumes "2 * i + 1 < n"
  shows "0 < lesser_child th i n" "i < lesser_child th i n" "lesser_child th i n < n"
    "parent (lesser_child th i n) = i"
  using assms by (auto simp: lesser_child_def parent_def)

lemma lesser_child_least:
  "0 < k \<Longrightarrow> k < n \<Longrightarrow> parent k = i \<Longrightarrow> key th (lesser_child th i n) \<le> key th k"
  by (auto simp: lesser_child_def children)

text \<open>The runs of the loop as a relation, for rule induction.\<close>

inductive sinks :: "nat \<Rightarrow> TimeoutHeap \<Rightarrow> nat \<Rightarrow> TimeoutHeap \<Rightarrow> bool" for n where
  stop: "n \<le> 2 * i + 1 \<or> \<not> key th (lesser_child th i n) < key th i \<Longrightarrow> sinks n th i th"
| sink: "j = lesser_child th i n \<Longrightarrow> 2 * i + 1 < n \<Longrightarrow> key th j < key th i \<Longrightarrow>
    sinks n (heap_Swap th i j) j th' \<Longrightarrow> sinks n th i th'"

lemma down_sinks: "sinks n th i (down th i n)"
proof (induction "n - i" arbitrary: th i rule: less_induct)
  case less
  show ?case
  proof (cases "n \<le> 2 * i + 1 \<or> \<not> key th (lesser_child th i n) < key th i")
    case True
    then show ?thesis using down_unfold [of th i n] by (simp add: stop)
  next
    case False
    then have "n - lesser_child th i n < n - i"
      using lesser_child (2,3) [of i n th] by linarith
    then have "sinks n th i (down (heap_Swap th i (lesser_child th i n)) (lesser_child th i n) n)"
      using False less by (rule_tac sinks.sink [OF refl]) simp_all
    then show ?thesis using False down_unfold [of th i n] by simp
  qed
qed

lemma sinks_frame:
  "sinks n th i th' \<Longrightarrow> n \<le> length th \<Longrightarrow> i < n \<Longrightarrow>
    length th' = length th \<and> requests th' = requests th
    \<and> (indexed th \<longrightarrow> indexed th') \<and> (\<forall>k \<ge> n. th' ! k = th ! k)"
proof (induction rule: sinks.induct)
  case (sink j th i th')
  have "j < n" using lesser_child (3) sink(1,2) by simp
  then show ?case
    using sink indexed_heap_Swap [of th i j] by (simp add: nth_heap_Swap_other)
qed simp

lemma sinks_ordered:
  "sinks n th i th' \<Longrightarrow> n \<le> length th \<Longrightarrow> i < n \<Longrightarrow> ordered_but_down th i n \<Longrightarrow> ordered_upto th' n"
proof (induction rule: sinks.induct)
  case (stop i th)
  then have "key th i \<le> key th k" if "0 < k" "k < n" "parent k = i" for k
    using lesser_child_least [OF that, of th] that by (auto simp: children)
  then show ?case using stop ordered_but_down_done by blast
next
  case (sink j th i th')
  have j: "0 < j" "j < n" "parent j = i"
    using lesser_child [OF sink.hyps(2), of th] by (simp_all add: sink.hyps(1))
  have least: "key th j \<le> key th k" if "0 < k" "k < n" "parent k = i" for k
    using lesser_child_least [OF that] by (simp add: sink.hyps(1))
  have "ordered_but_down (heap_Swap th i j) j n"
    by (rule ordered_but_down_Swap [OF sink.prems(3) sink.prems(1) j(2) j(1) j(3) least sink.hyps(3)])
  then show ?case using sink.IH sink.prems(1) j(2) by simp
qed

section \<open>The container operations keep the heap\<close>

lemma heap_inv_empty [simp]: "heap_inv []"
  by (simp add: heap_inv_def ordered_upto_def indexed_def)

lemma requests_empty [simp]: "requests [] = {#}"
  by (simp add: requests_def)

lemma requests_append: "requests (th @ th') = requests th + requests th'"
  by (simp add: requests_def)

lemma requests_single [simp]: "requests [node] = {#request node#}"
  by (simp add: requests_def)

lemma request_nth_in: "i < length th \<Longrightarrow> request (th ! i) \<in># requests th"
  by (simp add: requests_def)

lemma ordered_upto_butlast:
  assumes "ordered_upto th (length (butlast th))"
  shows "ordered_upto (butlast th) (length (butlast th))"
  unfolding ordered_upto_def
proof (intro allI impI)
  fix i assume i: "0 < i \<and> i < length (butlast th)"
  then have "parent i < length (butlast th)" using parent_less [of i] by simp
  then show "key (butlast th) (parent i) \<le> key (butlast th) i"
    using assms i by (simp add: ordered_upto_def key_def nth_butlast)
qed

lemma heap_Push_facts:
  assumes "heap_inv th"
  shows "indexed (heap_Push th node)" "ordered_but_up (heap_Push th node) (length th)"
    "requests (heap_Push th node) = requests th + {#request node#}"
proof -
  show "indexed (heap_Push th node)"
    using assms by (auto simp: heap_inv_def indexed_def heap_Push_def nth_append)
  show "requests (heap_Push th node) = requests th + {#request node#}"
    by (simp add: requests_def heap_Push_def)
  show "ordered_but_up (heap_Push th node) (length th)"
    unfolding ordered_but_up_def
  proof (intro allI impI conjI)
    fix i assume i: "0 < i \<and> i < length (heap_Push th node)"
    then have lt: "parent i < i" "i < Suc (length th)" using parent_less by (auto simp: heap_Push_def)
    { assume "i \<noteq> length th"
      then show "key (heap_Push th node) (parent i) \<le> key (heap_Push th node) i"
        using assms i lt by (simp add: heap_inv_def ordered_upto_def key_def heap_Push_def nth_append) }
    { assume "parent i = length th \<and> 0 < length th"
      then show "key (heap_Push th node) (parent (length th)) \<le> key (heap_Push th node) i"
        using lt by simp }
  qed
qed

lemma container_Push_correct:
  assumes "heap_inv th"
  shows "heap_inv (container_Push th node)"
    "requests (container_Push th node) = requests th + {#request node#}"
  using up_correct [of "length th" "heap_Push th node"] heap_Push_facts [OF assms, of node]
  by (simp_all add: container_Push_def Let_def heap_inv_def heap_Push_def)

lemma container_Pop_facts:
  assumes inv: "heap_inv th" and ne: "th \<noteq> []"
  defines "n \<equiv> length th - 1"
  defines "th' \<equiv> down (heap_Swap th 0 n) 0 n"
  shows "length th' = length th" "requests th' = requests th" "indexed th'"
    "request (last th') = request (th ! 0)" "ordered_upto th' n"
proof -
  let ?s = "heap_Swap th 0 n"
  have n: "n < length th" "0 < length th" using ne by (auto simp: n_def)
  have s: "length ?s = length th" "requests ?s = requests th" "indexed ?s"
    using inv n indexed_heap_Swap by (auto simp: heap_inv_def)
  have last: "request (?s ! n) = request (th ! 0)"
    using n request_heap_Swap_snd by simp
  have obd: "ordered_but_down ?s 0 n"
  proof -
    have "key ?s (parent i) \<le> key ?s i" if i: "0 < i" "i < n" "parent i \<noteq> 0" for i
    proof -
      have "parent i < i" using i parent_less by simp
      then show ?thesis
        using inv i n key_heap_Swap [of 0 th n] by (simp add: heap_inv_def ordered_upto_def)
    qed
    then show ?thesis by (simp add: ordered_but_down_def)
  qed
  have "length th' = length th \<and> requests th' = requests th \<and> indexed th'
    \<and> th' ! n = ?s ! n \<and> ordered_upto th' n"
  proof (cases "n = 0")
    case True
    then have "th' = ?s" unfolding th'_def by (subst down_unfold) simp
    then show ?thesis using s True by (simp add: ordered_upto_def)
  next
    case False
    then show ?thesis using sinks_frame [OF down_sinks, of n ?s 0] sinks_ordered [OF down_sinks, of n ?s 0] s n obd
      by (simp add: th'_def)
  qed
  then show "length th' = length th" "requests th' = requests th" "indexed th'"
    "request (last th') = request (th ! 0)" "ordered_upto th' n"
    using last n by (simp_all add: last_conv_nth [of th'] n_def flip: length_greater_0_conv)
qed

lemma container_Pop_correct:
  assumes "heap_inv th" "th \<noteq> []"
  shows "heap_inv (snd (container_Pop th))"
    "requests (snd (container_Pop th)) = requests th - {#request (th ! 0)#}"
    "request (fst (container_Pop th)) = request (th ! 0)"
proof -
  define n where "n = length th - 1"
  define th' where "th' = down (heap_Swap th 0 n) 0 n"
  have f: "length th' = length th" "requests th' = requests th" "indexed th'"
    "request (last th') = request (th ! 0)" "ordered_upto th' n"
    using container_Pop_facts [OF assms] by (simp_all add: th'_def n_def)
  have ne: "th' \<noteq> []" using f(1) assms(2) by auto
  have pop: "container_Pop th = ((last th')\<lparr>index := -1\<rparr>, butlast th')"
    by (simp add: container_Pop_def heap_Pop_def th'_def n_def Let_def)
  have "requests th' = requests (butlast th') + {#request (last th')#}"
    using requests_append [of "butlast th'" "[last th']"] ne by simp
  then show "requests (snd (container_Pop th)) = requests th - {#request (th ! 0)#}"
    using f by (simp add: pop)
  show "request (fst (container_Pop th)) = request (th ! 0)"
    using f by (simp add: pop)
  have len: "length (butlast th') = n" using f(1) by (simp add: n_def)
  have "ordered_upto (butlast th') n"
    using f(5) len ordered_upto_butlast [of th'] by simp
  moreover have "indexed (butlast th')"
    using f(3) by (auto simp: indexed_def nth_butlast)
  ultimately show "heap_inv (snd (container_Pop th))"
    using len by (simp add: heap_inv_def pop)
qed

section \<open>The contract of a queue of requests, and the heap's\<close>

text \<open>
  What the timeout API needs of the container: a queue whose \<open>front\<close> is a request of least
  expiry.  The lemmas of the API rest on these laws, and the heap meets them.
\<close>

locale request_queue =
  fixes invar :: "'q \<Rightarrow> bool"
    and contents :: "'q \<Rightarrow> (int64 \<times> string) multiset"
    and add :: "int64 \<times> string \<Rightarrow> 'q \<Rightarrow> 'q"
    and front :: "'q \<Rightarrow> int64 \<times> string"
    and remove :: "'q \<Rightarrow> 'q"
  assumes invar_add: "invar q \<Longrightarrow> invar (add r q)"
    and contents_add: "invar q \<Longrightarrow> contents (add r q) = add_mset r (contents q)"
    and invar_remove: "invar q \<Longrightarrow> contents q \<noteq> {#} \<Longrightarrow> invar (remove q)"
    and contents_remove: "invar q \<Longrightarrow> contents q \<noteq> {#} \<Longrightarrow> contents (remove q) = contents q - {#front q#}"
    and front_in: "invar q \<Longrightarrow> contents q \<noteq> {#} \<Longrightarrow> front q \<in># contents q"
    and front_least: "invar q \<Longrightarrow> r \<in># contents q \<Longrightarrow> fst (front q) \<le> fst r"
begin

lemma none_expired_iff:
  "invar q \<Longrightarrow> contents q \<noteq> {#} \<Longrightarrow> now < fst (front q) \<longleftrightarrow> (\<forall>r \<in># contents q. now < fst r)"
  using front_in front_least by (meson less_le_trans)

lemma front_mono:
  assumes "invar q" "contents (remove q) \<noteq> {#}" "contents q \<noteq> {#}"
  shows "fst (front q) \<le> fst (front (remove q))"
proof -
  have "front (remove q) \<in># contents (remove q)"
    using assms invar_remove front_in by simp
  then have "front (remove q) \<in># contents q"
    using assms contents_remove by (simp add: in_diffD)
  then show ?thesis using assms front_least by simp
qed

lemma size_remove: "invar q \<Longrightarrow> contents q \<noteq> {#} \<Longrightarrow> size (contents (remove q)) < size (contents q)"
  by (simp add: contents_remove front_in size_Diff1_less)

end

lemma requests_eq_empty [simp]: "requests th = {#} \<longleftrightarrow> th = []"
  by (simp add: requests_def)

interpretation th: request_queue heap_inv requests
  "\<lambda>(t, d) q. container_Push q \<lparr>UnixTimeStamp = t, DeviceToken = d, index = 0\<rparr>"
  "\<lambda>q. request (q ! 0)" "\<lambda>q. snd (container_Pop q)"
proof (unfold_locales, goal_cases)
  case (6 q r)
  then obtain i where "i < length q" "r = request (q ! i)"
    by (auto simp: requests_def in_set_conv_nth)
  with 6 show ?case
    using root_minimal [of q "length q" i] by (auto simp: heap_inv_def key_def request_def)
qed (auto simp: container_Push_correct container_Pop_correct request_nth_in, simp add: request_def)

section \<open>Properties of the API\<close>

lemma AddRequest_inv: "heap_inv th \<Longrightarrow> heap_inv (AddRequest cte now token th)"
  by (simp add: AddRequest_def container_Push_correct)

definition sample_heap :: TimeoutHeap where
  "sample_heap = AddRequest (i64 1000) (i64 300) ''b'' (AddRequest (i64 3000) (i64 100) ''a'' NewTimeoutHeap)"

lemma heap_inv_sample: "heap_inv sample_heap"
  by (simp add: sample_heap_def NewTimeoutHeap_def container_Init_def AddRequest_inv)

text \<open>
  Adding a request keeps the heap well formed and adds exactly one request, the device
  token with the expiry \<open>now + timeoutCte\<close> (in int64 arithmetic).
\<close>

lemma AddRequest_correct:
  assumes "heap_inv th"
  shows "heap_inv (AddRequest cte now token th)
    \<and> requests (AddRequest cte now token th) = add_mset (now + cte, token) (requests th)"
  using th.invar_add [OF assms, of "(now + cte, token)"] th.contents_add [OF assms, of "(now + cte, token)"]
  by (simp add: AddRequest_def newTimeoutNode_def)

lemma AddRequest_correct_example:
  "heap_inv [] \<and> requests (AddRequest (i64 3000) (i64 100) ''tok'' []) = {#(i64 100 + i64 3000, ''tok'')#}"
  using AddRequest_correct [OF heap_inv_empty, of "i64 3000" "i64 100" "''tok''"] by simp

lemma completeHasExpiredRequest_cases [consumes 1, case_names none some]:
  assumes inv: "heap_inv th"
  obtains "completeHasExpiredRequest now th = (('''', 0, False), th)" "\<forall>r \<in># requests th. now < fst r"
  | r th' where "completeHasExpiredRequest now th = ((snd r, fst r, True), th')"
      "r \<in># requests th" "fst r \<le> now" "\<forall>r' \<in># requests th. fst r \<le> fst r'"
      "heap_inv th'" "requests th = add_mset r (requests th')"
proof (cases "th = [] \<or> now < fst (request (th ! 0))")
  case True
  then show ?thesis
    using th.none_expired_iff [OF inv, of now]
    by (cases "th = []") (auto intro!: that(1) simp: completeHasExpiredRequest_def request_def)
next
  case False
  let ?r = "request (th ! 0)"
  show ?thesis
  proof (rule that(2))
    show "completeHasExpiredRequest now th = ((snd ?r, fst ?r, True), snd (container_Pop th))"
      using False by (simp add: completeHasExpiredRequest_def request_def Let_def)
  qed (use False th.front_in [OF inv] th.front_least [OF inv] th.invar_remove [OF inv]
    th.contents_remove [OF inv] in \<open>auto simp: not_less\<close>)
qed

text \<open>
  \<^bold>\<open>C34\<close>  Asking for an expired request returns nothing, and changes nothing, exactly when no
  request of the heap has expired; otherwise it returns a request of least expiry, which has
  expired, and removes that one request and no other.
\<close>

theorem completeHasExpiredRequest_correct:
  assumes inv: "heap_inv th"
  shows "if \<forall>r \<in># requests th. now < fst r
      then completeHasExpiredRequest now th = (('''', 0, False), th)
      else \<exists>r th'. completeHasExpiredRequest now th = ((snd r, fst r, True), th')
        \<and> r \<in># requests th \<and> fst r \<le> now \<and> (\<forall>r' \<in># requests th. fst r \<le> fst r')
        \<and> heap_inv th' \<and> requests th' = requests th - {#r#}"
proof (cases rule: completeHasExpiredRequest_cases [OF inv, of now])
  case 1
  then show ?thesis by simp
next
  case (2 r th')
  then have "\<not> (\<forall>r \<in># requests th. now < fst r)" by (auto simp: not_less)
  with 2 show ?thesis by auto
qed

theorem completeHasExpiredRequest_correct_witness:
  "heap_inv sample_heap
    \<and> completeHasExpiredRequest (i64 2000) sample_heap
      = ((''b'', i64 1300, True), [\<lparr>UnixTimeStamp = i64 3100, DeviceToken = ''a'', index = 0\<rparr>])
    \<and> (\<exists>r \<in># requests sample_heap. fst r \<le> i64 2000)"
proof -
  have run: "completeHasExpiredRequest (i64 2000) sample_heap
      = ((''b'', i64 1300, True), [\<lparr>UnixTimeStamp = i64 3100, DeviceToken = ''a'', index = 0\<rparr>])"
    by code_simp
  then show ?thesis
    using completeHasExpiredRequest_correct [OF heap_inv_sample, of "i64 2000"] heap_inv_sample
    by (auto split: if_splits simp: not_less)
qed

text \<open>
  The loop a consumer runs on the API: ask for an expired request until there is none.  As
  many turns as there are requests are enough.
\<close>

fun drain :: "nat \<Rightarrow> int64 \<Rightarrow> TimeoutHeap \<Rightarrow> (string \<times> int64) list \<times> TimeoutHeap" where
  "drain 0 now th = ([], th)"
| "drain (Suc turns) now th =
     (case completeHasExpiredRequest now th of
        ((token, ts, True), th') \<Rightarrow> (case drain turns now th' of (out, th'') \<Rightarrow> ((token, ts) # out, th''))
      | (_, th') \<Rightarrow> ([], th'))"

lemma drain_correct:
  assumes "heap_inv th" "length th \<le> turns"
  shows "sorted (map snd (fst (drain turns now th)))
    \<and> mset (map prod.swap (fst (drain turns now th))) = filter_mset (\<lambda>r. fst r \<le> now) (requests th)
    \<and> requests (snd (drain turns now th)) = filter_mset (\<lambda>r. now < fst r) (requests th)"
  using assms
proof (induction turns arbitrary: th)
  case 0
  then show ?case by simp
next
  case (Suc turns)
  from Suc.prems(1) show ?case
  proof (cases rule: completeHasExpiredRequest_cases [where now = now])
    case none
    then have "filter_mset (\<lambda>r. fst r \<le> now) (requests th) = {#}"
      "filter_mset (\<lambda>r. now < fst r) (requests th) = requests th"
      by (auto simp: filter_mset_eq_conv not_le)
    with none show ?thesis by simp
  next
    case (some r th')
    have "size (requests th) = length th" "size (requests th') = length th'"
      by (simp_all add: requests_def)
    then have "length th' \<le> turns" using some(6) Suc.prems(2) by simp
    note IH = Suc.IH [OF some(5) this]
    have "set_mset (mset (map prod.swap (fst (drain turns now th')))) \<subseteq> set_mset (requests th)"
      using IH some(6) by auto
    then have "(x, token) \<in># requests th" if "(token, x) \<in> set (fst (drain turns now th'))" for token x
      using that by (force simp: image_subset_iff)
    then have "\<forall>x \<in> set (map snd (fst (drain turns now th'))). fst r \<le> x"
      using some(4) by fastforce
    then show ?thesis
      using IH some by (cases "drain turns now th'") auto
  qed
qed

text \<open>
  Draining an expired heap returns exactly the requests that have expired, each once and
  in order of expiry, and leaves exactly those that have not.
\<close>

lemma drain_expired_sorted:
  assumes "heap_inv th"
  shows "case drain (length th) now th of (out, th') \<Rightarrow>
    sorted (map snd out)
    \<and> mset (map prod.swap out) = filter_mset (\<lambda>r. fst r \<le> now) (requests th)
    \<and> requests th' = filter_mset (\<lambda>r. now < fst r) (requests th)"
  using drain_correct [OF assms order_refl, of now] by (cases "drain (length th) now th") simp

lemma drain_expired_sorted_example:
  "heap_inv sample_heap \<and> fst (drain 2 (i64 5000) sample_heap) = [(''b'', i64 1300), (''a'', i64 3100)]
    \<and> sorted (map snd (fst (drain 2 (i64 5000) sample_heap)))"
proof -
  have run: "fst (drain 2 (i64 5000) sample_heap) = [(''b'', i64 1300), (''a'', i64 3100)]"
    "length sample_heap = 2"
    by code_simp+
  then show ?thesis
    using drain_expired_sorted [OF heap_inv_sample, of "i64 5000"] heap_inv_sample
    by (simp split: prod.splits)
qed

end
