(* ===== verification/Strconv.thy ===== *)
theory Strconv
  imports Prelude
begin

text \<open>
  The part of Go's \<^verbatim>\<open>strconv\<close> and of the \<open>%d\<close> verb that the program uses: decimal
  printing of integers and \<open>Atoi\<close>.  An error of \<open>Atoi\<close> (no digits, a character that is not a
  digit, a value out of the range of \<open>int\<close>) is \<open>None\<close>.
\<close>

section \<open>Printing and parsing\<close>

definition digit_char :: "nat \<Rightarrow> char" where
  "digit_char d = char_of (48 + d)"

fun show_nat :: "nat \<Rightarrow> string" where
  "show_nat n = (if n < 10 then [digit_char n] else show_nat (n div 10) @ [digit_char (n mod 10)])"

declare show_nat.simps [simp del]

definition FormatInt :: "int64 \<Rightarrow> string" where
  "FormatInt i = (if int_of i < 0 then CHR ''-'' # show_nat (nat (- int_of i)) else show_nat (nat (int_of i)))"

definition char_digit :: "char \<Rightarrow> nat option" where
  "char_digit c = (let n = (of_char c :: nat) in if 48 \<le> n \<and> n \<le> 57 then Some (n - 48) else None)"

fun read_digits :: "nat \<Rightarrow> string \<Rightarrow> nat option" where
  "read_digits acc [] = Some acc"
| "read_digits acc (c # s) = (case char_digit c of None \<Rightarrow> None | Some d \<Rightarrow> read_digits (10 * acc + d) s)"

definition read_nat :: "string \<Rightarrow> nat option" where
  "read_nat s = (if s = [] then None else read_digits 0 s)"

definition read_int :: "string \<Rightarrow> int option" where
  "read_int s = (case s of
     c # r \<Rightarrow> if c = CHR ''-'' then map_option (\<lambda>n. - int n) (read_nat r)
             else if c = CHR ''+'' then map_option int (read_nat r)
             else map_option int (read_nat s)
   | [] \<Rightarrow> None)"

definition Atoi :: "string \<Rightarrow> int64 option" where
  "Atoi s = (case read_int s of
     None \<Rightarrow> None
   | Some i \<Rightarrow> if in_int64 i then Some (i64 i) else None)"

section \<open>Reading back what was printed\<close>

lemma char_digit_digit_char: "d < 10 \<Longrightarrow> char_digit (digit_char d) = Some d"
  by (simp add: char_digit_def digit_char_def of_char_of)

lemma read_digits_append:
  "read_digits acc (s @ t) = (case read_digits acc s of None \<Rightarrow> None | Some n \<Rightarrow> read_digits n t)"
  by (induction s arbitrary: acc) (auto split: option.split)

lemma read_digits_show_nat: "read_digits 0 (show_nat n) = Some n"
proof (induction n rule: show_nat.induct)
  case (1 n)
  show ?case
  proof (cases "n < 10")
    case True
    then show ?thesis by (subst show_nat.simps) (simp add: char_digit_digit_char)
  next
    case False
    with 1 show ?thesis
      by (subst show_nat.simps) (simp add: read_digits_append char_digit_digit_char)
  qed
qed

lemma show_nat_not_Nil [simp]: "show_nat n \<noteq> []"
  by (subst show_nat.simps) simp

lemma read_nat_show_nat [simp]: "read_nat (show_nat n) = Some n"
  by (simp add: read_nat_def read_digits_show_nat)

lemma digit_char_simps [simp]: "d < 10 \<Longrightarrow> digit_char d \<noteq> CHR ''-''" "d < 10 \<Longrightarrow> digit_char d \<noteq> CHR ''+''"
  using char_digit_digit_char [of d] by (auto simp: char_digit_def)

lemma show_nat_hd: "\<exists>d t. show_nat n = digit_char d # t \<and> d < 10"
proof (induction n rule: show_nat.induct)
  case (1 n)
  then show ?case by (subst show_nat.simps) (cases "n < 10", auto)
qed

lemma show_nat_digits: "c \<in> set (show_nat n) \<Longrightarrow> \<exists>d < 10. c = digit_char d"
proof (induction n rule: show_nat.induct)
  case (1 n)
  note eq = show_nat.simps [of n]
  show ?case
  proof (cases "n < 10")
    case True
    with 1(2) eq show ?thesis by auto
  next
    case False
    with 1(2) eq have "c \<in> set (show_nat (n div 10)) \<or> c = digit_char (n mod 10)" by auto
    moreover have "n mod 10 < 10" by simp
    ultimately show ?thesis using 1(1) [OF False] by blast
  qed
qed

lemma show_nat_no_colon: "CHR '':'' \<notin> set (show_nat n)"
proof
  assume "CHR '':'' \<in> set (show_nat n)"
  then obtain d where d: "d < 10" "CHR '':'' = digit_char d" using show_nat_digits by blast
  from char_digit_digit_char [OF d(1)] have "char_digit (CHR '':'') = Some d" by (simp only: d(2))
  moreover have "char_digit (CHR '':'') = None" by code_simp
  ultimately show False by simp
qed

lemma read_int_show_nat [simp]: "read_int (show_nat n) = Some (int n)"
proof -
  obtain d t where "show_nat n = digit_char d # t" "d < 10"
    using show_nat_hd by blast
  then have "read_int (show_nat n) = map_option int (read_nat (show_nat n))"
    by (simp add: read_int_def)
  then show ?thesis by simp
qed

lemma show_nat_inject [simp]: "show_nat m = show_nat n \<longleftrightarrow> m = n"
  by (metis option.inject read_nat_show_nat)

lemma Atoi_show_nat: "n < 2 ^ 63 \<Longrightarrow> Atoi (show_nat n) = Some (i64 (int n))"
  by (simp add: Atoi_def in_int64_def)

lemma read_int_FormatInt: "read_int (FormatInt i) = Some (int_of i)"
  by (simp add: FormatInt_def) (simp add: read_int_def)

lemma Atoi_FormatInt: "Atoi (FormatInt i) = Some i"
  by (simp add: Atoi_def read_int_FormatInt int_of_range)

end
