(* ===== verification/Json.thy ===== *)
theory Json
  imports Strconv "HOL-Library.List_Lexorder" "HOL-Library.Char_ord"
begin

text \<open>
  The part of Go's \<^verbatim>\<open>encoding/json\<close> the program uses (Go 1.23): syntax trees of JSON, their
  text, the parser of the text, the values of \<open>interface{}\<close> type with their two conversions, and
  the decoding of an object into the fields of a struct, which goes on after a value of the
  wrong type and reports the error at the end.  The two conversions between a float64 (known by its
  bits) and its decimal text are the parameter \<open>float_ops\<close>.
\<close>

section \<open>Trees and values\<close>

datatype json = JNull | JBool bool | JNum string | JStr string | JArr "json list"
  | JObj "(string \<times> json) list"

text \<open>What an \<open>interface{}\<close> holds here.  A map is a list of bindings with distinct keys.\<close>

datatype gval = GNil | GBool bool | GFloat "64 word" | GInt int64 | GStr string
  | GSlice "gval list" | GMap "(string \<times> gval) list"

type_synonym gmap = "(string \<times> gval) list"

record float_ops =
  ParseFloat :: "string \<Rightarrow> 64 word option"
  FormatFloat :: "64 word \<Rightarrow> string option"

text \<open>Reading a key of a Go map: the zero value where the key is missing.\<close>

definition map_at :: "gmap \<Rightarrow> string \<Rightarrow> gval" where
  "map_at m k = (case map_of m k of None \<Rightarrow> GNil | Some v \<Rightarrow> v)"

abbreviation map_set :: "string \<Rightarrow> 'v \<Rightarrow> (string \<times> 'v) list \<Rightarrow> (string \<times> 'v) list" where
  "map_set \<equiv> AList.update"

abbreviation map_delete :: "string \<Rightarrow> (string \<times> 'v) list \<Rightarrow> (string \<times> 'v) list" where
  "map_delete \<equiv> AList.delete"

lemma map_at_set [simp]: "map_at (map_set k v m) k' = (if k' = k then v else map_at m k')"
  by (simp add: map_at_def update_conv')

lemma map_at_delete [simp]: "map_at (map_delete k m) k' = (if k' = k then GNil else map_at m k')"
  by (simp add: map_at_def delete_conv')

lemma map_at_Nil [simp]: "map_at [] k = GNil"
  by (simp add: map_at_def)

section \<open>From values to trees\<close>

text \<open>\<open>None\<close> is an unsupported value (a float that is not a number).  Keys are sorted.\<close>

fun of_gval :: "float_ops \<Rightarrow> gval \<Rightarrow> json option"
  and of_gvals :: "float_ops \<Rightarrow> gval list \<Rightarrow> json list option"
  and of_bindings :: "float_ops \<Rightarrow> gmap \<Rightarrow> (string \<times> json) list option" where
  "of_gval F GNil = Some JNull"
| "of_gval F (GBool b) = Some (JBool b)"
| "of_gval F (GFloat f) = map_option JNum (FormatFloat F f)"
| "of_gval F (GInt i) = Some (JNum (FormatInt i))"
| "of_gval F (GStr s) = Some (JStr s)"
| "of_gval F (GSlice vs) = map_option JArr (of_gvals F vs)"
| "of_gval F (GMap m) = map_option (\<lambda>kvs. JObj (sort_key fst kvs)) (of_bindings F m)"
| "of_gvals F [] = Some []"
| "of_gvals F (v # vs) = (case (of_gval F v, of_gvals F vs) of (Some j, Some js) \<Rightarrow> Some (j # js) | _ \<Rightarrow> None)"
| "of_bindings F [] = Some []"
| "of_bindings F (kv # m) =
    (case (of_gval F (snd kv), of_bindings F m) of (Some j, Some js) \<Rightarrow> Some ((fst kv, j) # js) | _ \<Rightarrow> None)"

section \<open>From trees to values\<close>

text \<open>
  The value, and whether every number was in range.  A key that comes again overwrites.
\<close>

fun to_gval :: "float_ops \<Rightarrow> json \<Rightarrow> gval \<times> bool"
  and to_gvals :: "float_ops \<Rightarrow> json list \<Rightarrow> gval list \<times> bool"
  and to_bindings :: "float_ops \<Rightarrow> gmap \<Rightarrow> (string \<times> json) list \<Rightarrow> gmap \<times> bool" where
  "to_gval F JNull = (GNil, True)"
| "to_gval F (JBool b) = (GBool b, True)"
| "to_gval F (JNum s) = (case ParseFloat F s of Some f \<Rightarrow> (GFloat f, True) | None \<Rightarrow> (GNil, False))"
| "to_gval F (JStr s) = (GStr s, True)"
| "to_gval F (JArr js) = (let (vs, ok) = to_gvals F js in (GSlice vs, ok))"
| "to_gval F (JObj kvs) = (let (m, ok) = to_bindings F [] kvs in (GMap m, ok))"
| "to_gvals F [] = ([], True)"
| "to_gvals F (j # js) = (let (v, ok) = to_gval F j; (vs, ok') = to_gvals F js in (v # vs, ok \<and> ok'))"
| "to_bindings F m [] = (m, True)"
| "to_bindings F m (kv # kvs) =
    (let (v, ok) = to_gval F (snd kv); (m', ok') = to_bindings F (map_set (fst kv) v m) kvs in (m', ok \<and> ok'))"

section \<open>Decoding into the fields of a struct\<close>

abbreviation byte :: "char \<Rightarrow> nat" where
  "byte c \<equiv> of_char c"

text \<open>
  Case folding of a key, as far as it matters for the ASCII names of fields: besides the
  letters, the long s (U+017F) and the Kelvin sign (U+212A) fold to S and K.
\<close>

fun fold_name :: "string \<Rightarrow> string" where
  "fold_name [] = []"
| "fold_name (a # b # s) =
    (if byte a = 0xC5 \<and> byte b = 0xBF then CHR ''S'' # fold_name s
     else if byte a = 0xE2 \<and> byte b = 0x84 \<and> s \<noteq> [] \<and> byte (hd s) = 0xAA then CHR ''K'' # fold_name (tl s)
     else (if 97 \<le> byte a \<and> byte a \<le> 122 then char_of (byte a - 32) else a) # fold_name (b # s))"
| "fold_name [a] = [if 97 \<le> byte a \<and> byte a \<le> 122 then char_of (byte a - 32) else a]"

text \<open>
  A decoder stores a tree into a part of the state and says whether its type fitted; a struct
  is the list of its fields, each with a decoder.  A key is looked up as it stands, then folded.
\<close>

type_synonym 's decoder = "json \<Rightarrow> 's \<Rightarrow> 's \<times> bool"

definition field_decoder :: "(string \<times> 's decoder) list \<Rightarrow> string \<Rightarrow> 's decoder option" where
  "field_decoder fs k =
     (case map_of fs k of
        Some d \<Rightarrow> Some d
      | None \<Rightarrow> map_option snd (find (\<lambda>f. fold_name (fst f) = fold_name k) fs))"

fun decode_fields :: "(string \<times> 's decoder) list \<Rightarrow> (string \<times> json) list \<Rightarrow> 's \<Rightarrow> 's \<times> bool" where
  "decode_fields fs [] s = (s, True)"
| "decode_fields fs (kv # kvs) s =
    (case field_decoder fs (fst kv) of
       None \<Rightarrow> decode_fields fs kvs s
     | Some d \<Rightarrow> (let (s', ok) = d (snd kv) s; (s'', ok') = decode_fields fs kvs s' in (s'', ok \<and> ok')))"

definition decode_struct :: "(string \<times> 's decoder) list \<Rightarrow> 's decoder" where
  "decode_struct fs j s = (case j of JObj kvs \<Rightarrow> decode_fields fs kvs s | JNull \<Rightarrow> (s, True) | _ \<Rightarrow> (s, False))"

definition dec_string :: "(string \<Rightarrow> 's \<Rightarrow> 's) \<Rightarrow> 's decoder" where
  "dec_string put j s = (case j of JStr x \<Rightarrow> (put x s, True) | JNull \<Rightarrow> (s, True) | _ \<Rightarrow> (s, False))"

definition dec_bool :: "(bool \<Rightarrow> 's \<Rightarrow> 's) \<Rightarrow> 's decoder" where
  "dec_bool put j s = (case j of JBool x \<Rightarrow> (put x s, True) | JNull \<Rightarrow> (s, True) | _ \<Rightarrow> (s, False))"

definition dec_int64 :: "(int64 \<Rightarrow> 's \<Rightarrow> 's) \<Rightarrow> 's decoder" where
  "dec_int64 put j s =
     (case j of
        JNum x \<Rightarrow> (case Atoi x of Some i \<Rightarrow> (put i s, True) | None \<Rightarrow> (s, False))
      | JNull \<Rightarrow> (s, True)
      | _ \<Rightarrow> (s, False))"

definition dec_any :: "float_ops \<Rightarrow> (gval \<Rightarrow> 's \<Rightarrow> 's) \<Rightarrow> 's decoder" where
  "dec_any F put j s = (let (v, ok) = to_gval F j in (put v s, ok))"

text \<open>A map is decoded into the map the field holds already, if any.\<close>

definition dec_map :: "float_ops \<Rightarrow> ('s \<Rightarrow> gmap option) \<Rightarrow> (gmap option \<Rightarrow> 's \<Rightarrow> 's) \<Rightarrow> 's decoder" where
  "dec_map F get put j s =
     (case j of
        JObj kvs \<Rightarrow> (let (m, ok) = to_bindings F (case get s of None \<Rightarrow> [] | Some m \<Rightarrow> m) kvs in (put (Some m) s, ok))
      | JNull \<Rightarrow> (put None s, True)
      | _ \<Rightarrow> (s, False))"

text \<open>A \<open>map[string]int\<close>: a key whose value does not fit is stored with zero.\<close>

fun dec_int_bindings :: "(string \<times> int64) list \<Rightarrow> (string \<times> json) list \<Rightarrow> (string \<times> int64) list \<times> bool" where
  "dec_int_bindings m [] = (m, True)"
| "dec_int_bindings m (kv # kvs) =
    (let (i, ok) = dec_int64 (\<lambda>i _. i) (snd kv) 0;
         (m', ok') = dec_int_bindings (map_set (fst kv) i m) kvs in (m', ok \<and> ok'))"

end
