(* ===== verification/Json_Text.thy ===== *)
theory Json_Text
  imports Json
begin

text \<open>
  The text of JSON: what \<open>json.Marshal\<close> writes (compact, with \<^verbatim>\<open><\<close>, \<^verbatim>\<open>>\<close> and
  \<^verbatim>\<open>&\<close> escaped, and bytes that are not UTF-8 replaced) and what \<open>json.Unmarshal\<close>
  accepts, and that the second reads back the first.  Not modelled: the limit of 10000 nested
  values.
\<close>

section \<open>UTF-8\<close>

definition cont :: "char \<Rightarrow> bool" where
  "cont c \<longleftrightarrow> 0x80 \<le> byte c \<and> byte c \<le> 0xBF"

text \<open>The length of the encoded character at the start of a text, 0 where there is none.\<close>

fun rune_len :: "string \<Rightarrow> nat" where
  "rune_len [] = 0"
| "rune_len (c # s) =
    (if byte c < 0x80 then 1
     else case s of [] \<Rightarrow> 0 | d # s' \<Rightarrow>
       if 0xC2 \<le> byte c \<and> byte c \<le> 0xDF then (if cont d then 2 else 0)
       else if \<not> cont d then 0
       else case s' of [] \<Rightarrow> 0 | e # s'' \<Rightarrow>
         if 0xE0 \<le> byte c \<and> byte c \<le> 0xEF
         then (if cont e \<and> (byte c = 0xE0 \<longrightarrow> 0xA0 \<le> byte d) \<and> (byte c = 0xED \<longrightarrow> byte d \<le> 0x9F) then 3 else 0)
         else case s'' of [] \<Rightarrow> 0 | f # _ \<Rightarrow>
           if 0xF0 \<le> byte c \<and> byte c \<le> 0xF4 \<and> cont e \<and> cont f
             \<and> (byte c = 0xF0 \<longrightarrow> 0x90 \<le> byte d) \<and> (byte c = 0xF4 \<longrightarrow> byte d \<le> 0x8F) then 4 else 0)"

definition encode_rune :: "nat \<Rightarrow> string" where
  "encode_rune n = map char_of
     (if n < 0x80 then [n]
      else if n < 0x800 then [0xC0 + n div 0x40, 0x80 + n mod 0x40]
      else if n < 0x10000 then [0xE0 + n div 0x1000, 0x80 + n div 0x40 mod 0x40, 0x80 + n mod 0x40]
      else [0xF0 + n div 0x40000, 0x80 + n div 0x1000 mod 0x40, 0x80 + n div 0x40 mod 0x40, 0x80 + n mod 0x40])"

section \<open>Writing\<close>

abbreviation quote :: char where "quote \<equiv> CHR 0x22"
abbreviation backslash :: char where "backslash \<equiv> CHR 0x5C"

definition hex_digit :: "nat \<Rightarrow> char" where
  "hex_digit n = (if n < 10 then char_of (48 + n) else char_of (87 + n))"

definition escape_byte :: "char \<Rightarrow> string" where
  "escape_byte c =
     (if c = quote \<or> c = backslash then [backslash, c]
      else if byte c = 8 then [backslash, CHR ''b'']
      else if byte c = 12 then [backslash, CHR ''f'']
      else if byte c = 10 then [backslash, CHR ''n'']
      else if byte c = 13 then [backslash, CHR ''r'']
      else if byte c = 9 then [backslash, CHR ''t'']
      else if byte c < 0x20 \<or> c = CHR ''<'' \<or> c = CHR ''>'' \<or> c = CHR ''&''
      then [backslash, CHR ''u'', CHR ''0'', CHR ''0'', hex_digit (byte c div 16), hex_digit (byte c mod 16)]
      else [c])"

fun escape :: "nat \<Rightarrow> string \<Rightarrow> string" where
  "escape _ [] = []"
| "escape (Suc k) (c # s) = c # escape k s"
| "escape 0 (c # s) =
    (if byte c < 0x80 then escape_byte c @ escape 0 s
     else if rune_len (c # s) = 0 then backslash # ''ufffd'' @ escape 0 s
     else if byte c = 0xE2 \<and> byte (s ! 0) = 0x80 \<and> byte (s ! 1) div 2 = 0x54
     then backslash # ''u202'' @ hex_digit (byte (s ! 1) mod 16) # escape 0 (drop 2 s)
     else c # escape (rune_len (c # s) - 1) s)"

definition quoted :: "string \<Rightarrow> string" where
  "quoted s = quote # escape 0 s @ [quote]"

fun render :: "json \<Rightarrow> string"
  and render_elems :: "json list \<Rightarrow> string"
  and render_members :: "(string \<times> json) list \<Rightarrow> string" where
  "render JNull = ''null''"
| "render (JBool b) = (if b then ''true'' else ''false'')"
| "render (JNum s) = s"
| "render (JStr s) = quoted s"
| "render (JArr js) = CHR ''['' # render_elems js @ '']''"
| "render (JObj kvs) = CHR ''{'' # render_members kvs @ ''}''"
| "render_elems [] = []"
| "render_elems (j # js) = render j @ (if js = [] then [] else CHR '','' # render_elems js)"
| "render_members [] = []"
| "render_members (kv # kvs) = quoted (fst kv) @ CHR '':'' # render (snd kv)
     @ (if kvs = [] then [] else CHR '','' # render_members kvs)"

section \<open>Reading\<close>

definition is_space :: "char \<Rightarrow> bool" where
  "is_space c \<longleftrightarrow> byte c = 0x20 \<or> byte c = 9 \<or> byte c = 10 \<or> byte c = 13"

abbreviation skip_ws :: "string \<Rightarrow> string" where
  "skip_ws \<equiv> dropWhile is_space"

definition is_digit :: "char \<Rightarrow> bool" where
  "is_digit c \<longleftrightarrow> 48 \<le> byte c \<and> byte c \<le> 57"

text \<open>One or more digits, and what follows them.\<close>

definition scan_digits :: "string \<Rightarrow> (string \<times> string) option" where
  "scan_digits s = (if takeWhile is_digit s = [] then None else Some (takeWhile is_digit s, dropWhile is_digit s))"

definition scan_integer :: "string \<Rightarrow> (string \<times> string) option" where
  "scan_integer s = (case s of
     [] \<Rightarrow> None
   | c # r \<Rightarrow> if c = CHR ''0'' then Some (''0'', r) else scan_digits s)"

definition scan_fraction :: "string \<Rightarrow> (string \<times> string) option" where
  "scan_fraction s = (case s of
     c # r \<Rightarrow> if c = CHR ''.'' then map_option (\<lambda>(d, t). (c # d, t)) (scan_digits r) else Some ([], s)
   | [] \<Rightarrow> Some ([], []))"

definition scan_exponent :: "string \<Rightarrow> (string \<times> string) option" where
  "scan_exponent s = (case s of
     c # r \<Rightarrow> if c = CHR ''e'' \<or> c = CHR ''E'' then
         (case r of
            g # r' \<Rightarrow> if g = CHR ''+'' \<or> g = CHR ''-'' then map_option (\<lambda>(d, t). (c # g # d, t)) (scan_digits r')
                     else map_option (\<lambda>(d, t). (c # d, t)) (scan_digits r)
          | [] \<Rightarrow> None)
       else Some ([], s)
   | [] \<Rightarrow> Some ([], []))"

definition scan_number :: "string \<Rightarrow> (string \<times> string) option" where
  "scan_number s =
     (let (sign, s0) = (if s \<noteq> [] \<and> hd s = CHR ''-'' then (''-'', tl s) else ([], s)) in
      case scan_integer s0 of None \<Rightarrow> None | Some (i, s1) \<Rightarrow>
      case scan_fraction s1 of None \<Rightarrow> None | Some (f, s2) \<Rightarrow>
      case scan_exponent s2 of None \<Rightarrow> None | Some (e, s3) \<Rightarrow> Some (sign @ i @ f @ e, s3))"

definition hex_value :: "char \<Rightarrow> nat option" where
  "hex_value c = (let n = byte c in
     if 48 \<le> n \<and> n \<le> 57 then Some (n - 48)
     else if 97 \<le> n \<and> n \<le> 102 then Some (n - 87)
     else if 65 \<le> n \<and> n \<le> 70 then Some (n - 55) else None)"

fun hex4 :: "string \<Rightarrow> nat option" where
  "hex4 (a # b # c # d # _) =
    (case (hex_value a, hex_value b, hex_value c, hex_value d) of
       (Some a, Some b, Some c, Some d) \<Rightarrow> Some (((a * 16 + b) * 16 + c) * 16 + d)
     | _ \<Rightarrow> None)"
| "hex4 _ = None"

text \<open>The second half of a surrogate pair, written as an escape.\<close>

definition low_surrogate :: "string \<Rightarrow> nat option" where
  "low_surrogate s =
     (if take 2 s = [backslash, CHR ''u''] then
        (case hex4 (drop 2 s) of Some n \<Rightarrow> if 0xDC00 \<le> n \<and> n < 0xE000 then Some n else None | None \<Rightarrow> None)
      else None)"

definition simple_escape :: "char \<Rightarrow> char option" where
  "simple_escape c =
     (if c = quote \<or> c = backslash \<or> c = CHR ''/'' then Some c
      else if c = CHR ''b'' then Some (char_of (8 :: nat))
      else if c = CHR ''f'' then Some (char_of (12 :: nat))
      else if c = CHR ''n'' then Some (char_of (10 :: nat))
      else if c = CHR ''r'' then Some (char_of (13 :: nat))
      else if c = CHR ''t'' then Some (char_of (9 :: nat)) else None)"

definition replacement :: string where
  "replacement = encode_rune 0xFFFD"

abbreviation emit :: "string \<Rightarrow> (string \<times> string) option \<Rightarrow> (string \<times> string) option" where
  "emit w \<equiv> map_option (\<lambda>(x, r). (w @ x, r))"

text \<open>
  The body of a string after its opening quote, unescaped, and what follows the closing quote.
  The first argument counts the bytes of a character that are still to be copied or skipped.
\<close>

datatype pending = Fresh | Copy nat | Skip nat

fun parse_str :: "pending \<Rightarrow> string \<Rightarrow> (string \<times> string) option" where
  "parse_str _ [] = None"
| "parse_str (Skip (Suc n)) (c # s) = parse_str (Skip n) s"
| "parse_str (Copy (Suc n)) (c # s) = emit [c] (parse_str (Copy n) s)"
| "parse_str _ (c # s) =
    (if c = quote then Some ([], s)
     else if byte c < 0x20 then None
     else if c = backslash then
       (case s of [] \<Rightarrow> None | e # s' \<Rightarrow>
          if e = CHR ''u'' then
            (case hex4 s' of None \<Rightarrow> None | Some n \<Rightarrow>
               if 0xD800 \<le> n \<and> n < 0xE000 then
                 (case low_surrogate (drop 4 s') of
                    Some m \<Rightarrow> if n < 0xDC00
                      then emit (encode_rune (0x10000 + (n - 0xD800) * 0x400 + (m - 0xDC00))) (parse_str (Skip 11) s)
                      else emit replacement (parse_str (Skip 5) s)
                  | None \<Rightarrow> emit replacement (parse_str (Skip 5) s))
               else emit (encode_rune n) (parse_str (Skip 5) s))
          else case simple_escape e of None \<Rightarrow> None | Some x \<Rightarrow> emit [x] (parse_str (Skip 1) s))
     else if byte c < 0x80 then emit [c] (parse_str Fresh s)
     else if rune_len (c # s) = 0 then emit replacement (parse_str Fresh s)
     else emit [c] (parse_str (Copy (rune_len (c # s) - 1)) s))"

fun parse_value :: "nat \<Rightarrow> string \<Rightarrow> (json \<times> string) option"
  and parse_elems :: "nat \<Rightarrow> string \<Rightarrow> (json list \<times> string) option"
  and parse_members :: "nat \<Rightarrow> string \<Rightarrow> ((string \<times> json) list \<times> string) option" where
  "parse_value 0 _ = None"
| "parse_value (Suc n) s =
    (case skip_ws s of [] \<Rightarrow> None | c # r \<Rightarrow>
       if c = quote then map_option (\<lambda>(x, t). (JStr x, t)) (parse_str Fresh r)
       else if c = CHR ''{'' then
         (if skip_ws r \<noteq> [] \<and> hd (skip_ws r) = CHR ''}'' then Some (JObj [], tl (skip_ws r))
          else map_option (\<lambda>(x, t). (JObj x, t)) (parse_members n r))
       else if c = CHR ''['' then
         (if skip_ws r \<noteq> [] \<and> hd (skip_ws r) = CHR '']'' then Some (JArr [], tl (skip_ws r))
          else map_option (\<lambda>(x, t). (JArr x, t)) (parse_elems n r))
       else if take 4 (c # r) = ''null'' then Some (JNull, drop 3 r)
       else if take 4 (c # r) = ''true'' then Some (JBool True, drop 3 r)
       else if take 5 (c # r) = ''false'' then Some (JBool False, drop 4 r)
       else map_option (\<lambda>(x, t). (JNum x, t)) (scan_number (c # r)))"
| "parse_elems 0 _ = None"
| "parse_elems (Suc n) s =
    (case parse_value n s of None \<Rightarrow> None | Some (j, r) \<Rightarrow>
       (case skip_ws r of [] \<Rightarrow> None | c # t \<Rightarrow>
          if c = CHR '','' then map_option (\<lambda>(js, u). (j # js, u)) (parse_elems n t)
          else if c = CHR '']'' then Some ([j], t) else None))"
| "parse_members 0 _ = None"
| "parse_members (Suc n) s =
    (case skip_ws s of [] \<Rightarrow> None | q # r \<Rightarrow>
       if q \<noteq> quote then None else
       (case parse_str Fresh r of None \<Rightarrow> None | Some (k, r1) \<Rightarrow>
       (case skip_ws r1 of [] \<Rightarrow> None | c1 # r2 \<Rightarrow>
          if c1 \<noteq> CHR '':'' then None else
          (case parse_value n r2 of None \<Rightarrow> None | Some (j, r3) \<Rightarrow>
          (case skip_ws r3 of [] \<Rightarrow> None | c # t \<Rightarrow>
             if c = CHR '','' then map_option (\<lambda>(js, u). ((k, j) # js, u)) (parse_members n t)
             else if c = CHR ''}'' then Some ([(k, j)], t) else None)))))"

text \<open>The whole text: one value with white space around it; \<open>None\<close> is a syntax error.\<close>

definition parse_json :: "string \<Rightarrow> json option" where
  "parse_json s =
     (case parse_value (2 * length s + 2) s of
        Some (j, r) \<Rightarrow> if skip_ws r = [] then Some j else None
      | None \<Rightarrow> None)"

section \<open>Reading back strings\<close>

fun utf8_from :: "nat \<Rightarrow> string \<Rightarrow> bool" where
  "utf8_from 0 [] = True"
| "utf8_from (Suc k) [] = False"
| "utf8_from (Suc k) (c # s) = utf8_from k s"
| "utf8_from 0 (c # s) =
    (if byte c < 0x80 then utf8_from 0 s else rune_len (c # s) \<noteq> 0 \<and> utf8_from (rune_len (c # s) - 1) s)"

abbreviation utf8 :: "string \<Rightarrow> bool" where
  "utf8 \<equiv> utf8_from 0"

lemma parse_str_Skip0 [simp]: "parse_str (Skip 0) s = parse_str Fresh s" "parse_str (Copy 0) s = parse_str Fresh s"
  by (cases s; simp)+

lemma char_eqI: "byte c = n \<Longrightarrow> c = char_of n"
  by (metis char_of_char)

lemma hex_value_digit [simp]: "n < 16 \<Longrightarrow> hex_value (hex_digit n) = Some n"
  by (auto simp: hex_value_def hex_digit_def of_char_of Let_def)

lemma parse_str_simple:
  "simple_escape e = Some x \<Longrightarrow> parse_str Fresh (backslash # e # w) = emit [x] (parse_str Fresh w)"
  by (cases "e = CHR ''u''") (auto simp: simple_escape_def numeral_eq_Suc)

lemma parse_str_hex:
  assumes "hex4 (a # b # c # d # w) = Some n" "n < 0xD800"
  shows "parse_str Fresh (backslash # CHR ''u'' # a # b # c # d # w) = emit (encode_rune n) (parse_str Fresh w)"
proof -
  have "parse_str (Skip 5) (e # a # b # c # d # w) = parse_str Fresh w" for e
    by (simp add: numeral_eq_Suc)
  with assms show ?thesis by (simp add: not_le del: hex4.simps)
qed

lemma parse_str_byte:
  assumes "byte c < 0x80"
  shows "parse_str Fresh (escape_byte c @ w) = emit [c] (parse_str Fresh w)"
proof -
  have hex: "parse_str Fresh (backslash # CHR ''u'' # CHR ''0'' # CHR ''0'' # hex_digit (byte c div 16) # hex_digit (byte c mod 16) # w)
      = emit [c] (parse_str Fresh w)"
  proof -
    have hex0: "hex_value CHR ''0'' = Some 0" by (simp add: hex_value_def)
    have "hex4 (CHR ''0'' # CHR ''0'' # hex_digit (byte c div 16) # hex_digit (byte c mod 16) # w) = Some (byte c)"
      using assms hex0 by simp
    moreover have "byte c < 0xD800" using assms by linarith
    moreover have "encode_rune (byte c) = [c]"
      using assms by (simp add: encode_rune_def)
    ultimately show ?thesis
      using parse_str_hex by presburger
  qed
  consider "c = quote \<or> c = backslash" | "byte c = 8" | "byte c = 12" | "byte c = 10" | "byte c = 13" | "byte c = 9"
    | "escape_byte c = [backslash, CHR ''u'', CHR ''0'', CHR ''0'', hex_digit (byte c div 16), hex_digit (byte c mod 16)]"
    | "escape_byte c = [c]" "c \<noteq> quote" "c \<noteq> backslash" "0x20 \<le> byte c"
    unfolding escape_byte_def by (smt (verit) not_less)
  then show ?thesis
  proof cases
    case 1
    then show ?thesis by (auto simp: escape_byte_def simple_escape_def parse_str_simple simp del: parse_str.simps)
  next
    case 7
    then show ?thesis using hex by (simp del: parse_str.simps)
  next
    case 8
    then show ?thesis using assms by simp
  qed (auto simp: escape_byte_def simple_escape_def parse_str_simple dest!: char_eqI simp del: parse_str.simps)
qed

lemma rune_len_cong:
  "rune_len (c # s) = Suc k \<Longrightarrow> take k s' = take k s \<Longrightarrow> 0x80 \<le> byte c \<Longrightarrow> rune_len (c # s') = Suc k"
proof -
  assume len: "rune_len (c # s) = Suc k" and eq: "take k s' = take k s" and c: "0x80 \<le> byte c"
  then consider "k = 1" | "k = 2" | "k = 3"
    by (auto split: if_splits list.splits)
  then show ?thesis
  proof cases
    case 1
    with len eq show ?thesis
      by (cases s; cases s') (auto split: if_splits list.splits)
  next
    case 2
    with len eq show ?thesis
      by (cases s; cases "tl s"; cases s'; cases "tl s'") (auto split: if_splits list.splits)
  next
    case 3
    with len eq show ?thesis
      by (cases s; cases "tl s"; cases "tl (tl s)"; cases s'; cases "tl s'"; cases "tl (tl s')")
        (auto split: if_splits list.splits)
  qed
qed

lemma take_escape: "utf8_from k s \<Longrightarrow> take k (escape k s @ t) = take k s"
proof (induction k s rule: escape.induct)
  case (1 k)
  then show ?case by (cases k) auto
qed auto

lemma utf8_from_drop: "utf8_from k s \<Longrightarrow> utf8 (drop k s) \<and> k \<le> length s"
  by (induction k s rule: utf8_from.induct) auto

lemma parse_str_rune:
  assumes "rune_len (c # s) = Suc (Suc k)" and "take (Suc k) s' = take (Suc k) s" and "0x80 \<le> byte c"
  shows "parse_str Fresh (c # s') = emit [c] (parse_str (Copy (Suc k)) s')"
proof -
  have "rune_len (c # s') = Suc (Suc k)"
    using rune_len_cong [OF assms(1,2,3)] .
  with assms(3) show ?thesis by (auto simp del: rune_len.simps)
qed

lemma parse_str_separator:
  assumes "d = 8 \<or> d = 9"
  shows "parse_str Fresh (backslash # CHR ''u'' # CHR ''2'' # CHR ''0'' # CHR ''2'' # hex_digit d # w)
    = emit [char_of (0xE2 :: nat), char_of (0x80 :: nat), char_of (0xA0 + d)] (parse_str Fresh w)"
proof -
  have "hex4 (CHR ''2'' # CHR ''0'' # CHR ''2'' # hex_digit d # w) = Some (0x2020 + d)"
    using assms hex_value_digit [of d] by (auto simp: hex_value_def)
  moreover have "0x2020 + d < 0xD800" using assms by auto
  moreover have "encode_rune (0x2020 + d) = [char_of (0xE2 :: nat), char_of (0x80 :: nat), char_of (0xA0 + d)]"
    using assms by (auto simp: encode_rune_def)
  ultimately show ?thesis using parse_str_hex by presburger
qed

lemma parse_str_escape:
  "utf8_from k s \<Longrightarrow> parse_str (Copy k) (escape k s @ quote # t) = Some (s, t)"
proof (induction k s rule: escape.induct)
  case (1 k)
  then show ?case by (cases k) auto
next
  case (3 c s)
  show ?case
  proof (cases "byte c < 0x80")
    case True
    with 3 show ?thesis by (simp add: parse_str_byte del: parse_str.simps)
  next
    case c: False
    then obtain k where len: "rune_len (c # s) = Suc k" and u: "utf8_from k s"
      using 3(5) by (cases "rune_len (c # s)") (simp_all del: rune_len.simps)
    have k: "0 < k" using len c by (cases k) (auto split: list.splits if_splits)
    show ?thesis
    proof (cases "byte c = 0xE2 \<and> byte (s ! 0) = 0x80 \<and> byte (s ! 1) div 2 = 0x54")
      case True
      then obtain d e s' where s: "s = d # e # s'" 
        using len by (cases s; cases "tl s") (auto split: if_splits list.splits)
      have k: "k = 2" using len True s by (auto split: if_splits)
      have e: "byte e mod 16 = 8 \<or> byte e mod 16 = 9" "byte e = 0xA0 + byte e mod 16"
        using True s by (simp_all, presburger+)
      have chars: "c = char_of (0xE2 :: nat)" "d = char_of (0x80 :: nat)" "e = char_of (0xA0 + byte e mod 16)"
        using True s e(2) by (simp_all add: char_eqI)
      have "utf8 s'" using u s k by (simp add: numeral_eq_Suc)
      then have "parse_str Fresh (escape 0 s' @ quote # t) = Some (s', t)"
        using 3(3) True c len s by simp
      moreover have "escape 0 (c # s) @ quote # t = backslash # CHR ''u'' # CHR ''2'' # CHR ''0'' # CHR ''2''
          # hex_digit (byte e mod 16) # escape 0 s' @ quote # t"
        using True c len s by (simp del: rune_len.simps)
      ultimately have "parse_str Fresh (escape 0 (c # s) @ quote # t)
          = emit [char_of (0xE2 :: nat), char_of (0x80 :: nat), char_of (0xA0 + byte e mod 16)] (Some (s', t))"
        using parse_str_separator [OF e(1)] by simp
      then show ?thesis using chars s by simp
    next
      case False
      obtain k' where k': "k = Suc k'" using k by (cases k) auto
      have eq: "escape 0 (c # s) = c # escape k s"
        using False c len by (simp only: escape.simps if_False) simp
      have "parse_str (Copy k) (escape k s @ quote # t) = Some (s, t)"
        using 3(4) False c len u by (simp del: rune_len.simps)
      then show ?thesis
        using parse_str_rune [of c s k' "escape k s @ quote # t"] len take_escape [OF u] c
        by (simp add: eq k' not_less del: rune_len.simps parse_str.simps escape.simps utf8_from.simps)
    qed
  qed
qed simp_all


lemma parse_quoted: "utf8 s \<Longrightarrow> parse_str Fresh (escape 0 s @ quote # t) = Some (s, t)"
  using parse_str_escape [of 0 s t] by simp

section \<open>Reading back a tree\<close>

definition number_end :: "string \<Rightarrow> bool" where
  "number_end s \<longleftrightarrow> s = [] \<or> hd s \<in> {CHR '','', CHR '']'', CHR ''}''}"

definition number_ok :: "string \<Rightarrow> bool" where
  "number_ok s \<longleftrightarrow> scan_number s = Some (s, [])"

fun json_ok :: "json \<Rightarrow> bool" where
  "json_ok JNull = True"
| "json_ok (JBool b) = True"
| "json_ok (JNum s) = number_ok s"
| "json_ok (JStr s) = utf8 s"
| "json_ok (JArr js) = (\<forall>j \<in> set js. json_ok j)"
| "json_ok (JObj kvs) = (\<forall>kv \<in> set kvs. utf8 (fst kv) \<and> json_ok (snd kv))"


lemma number_endD:
  assumes "number_end t"
  shows "takeWhile is_digit (xs @ t) = takeWhile is_digit xs" "dropWhile is_digit (xs @ t) = dropWhile is_digit xs @ t"
proof -
  have "takeWhile is_digit t = [] \<and> dropWhile is_digit t = t"
    using assms by (cases t) (auto simp: number_end_def is_digit_def)
  then show "takeWhile is_digit (xs @ t) = takeWhile is_digit xs" "dropWhile is_digit (xs @ t) = dropWhile is_digit xs @ t"
    by (induction xs) auto
qed

lemma scan_digits_append: "scan_digits s = Some (d, r) \<Longrightarrow> number_end t \<Longrightarrow> scan_digits (s @ t) = Some (d, r @ t)"
  by (auto simp: scan_digits_def number_endD split: if_splits)

lemma scan_integer_append: "scan_integer s = Some (d, r) \<Longrightarrow> number_end t \<Longrightarrow> scan_integer (s @ t) = Some (d, r @ t)"
  using scan_digits_append [of s d r t] by (auto simp: scan_integer_def split: list.splits if_splits)

lemma scan_fraction_append: "scan_fraction s = Some (d, r) \<Longrightarrow> number_end t \<Longrightarrow> scan_fraction (s @ t) = Some (d, r @ t)"
  using scan_digits_append [of "tl s" _ r t]
  by (auto simp: scan_fraction_def number_end_def split: list.splits if_splits)

lemma scan_exponent_append: "scan_exponent s = Some (d, r) \<Longrightarrow> number_end t \<Longrightarrow> scan_exponent (s @ t) = Some (d, r @ t)"
  using scan_digits_append [of "tl s" _ r t] scan_digits_append [of "tl (tl s)" _ r t]
  by (auto simp: scan_exponent_def number_end_def split: list.splits if_splits)

lemma scan_number_append: "number_ok s \<Longrightarrow> number_end t \<Longrightarrow> scan_number (s @ t) = Some (s, t)"
proof -
  assume "number_ok s" and t: "number_end t"
  define neg where "neg = (s \<noteq> [] \<and> hd s = CHR ''-'')"
  define sign where "sign = (if neg then ''-'' else [])"
  define s0 where "s0 = (if neg then tl s else s)"
  have eq: "scan_number s = (case scan_integer s0 of None \<Rightarrow> None | Some (i, s1) \<Rightarrow>
      case scan_fraction s1 of None \<Rightarrow> None | Some (f, s2) \<Rightarrow>
      case scan_exponent s2 of None \<Rightarrow> None | Some (e, s3) \<Rightarrow> Some (sign @ i @ f @ e, s3))"
    unfolding scan_number_def sign_def s0_def neg_def Let_def by (cases s; cases "hd s = CHR ''-''"; simp)
  obtain i s1 f s2 e where 1: "scan_integer s0 = Some (i, s1)" "scan_fraction s1 = Some (f, s2)"
      "scan_exponent s2 = Some (e, [])" "sign @ i @ f @ e = s"
    using \<open>number_ok s\<close> unfolding number_ok_def eq by (auto split: option.splits)
  then have "s0 \<noteq> []" by (auto simp: scan_integer_def)
  then have "s \<noteq> []" by (auto simp: s0_def split: if_splits)
  then have "scan_number (s @ t) = (case scan_integer (s0 @ t) of None \<Rightarrow> None | Some (i, s1) \<Rightarrow>
      case scan_fraction s1 of None \<Rightarrow> None | Some (f, s2) \<Rightarrow>
      case scan_exponent s2 of None \<Rightarrow> None | Some (e, s3) \<Rightarrow> Some (sign @ i @ f @ e, s3))"
    unfolding scan_number_def sign_def s0_def neg_def Let_def by (cases s; cases "hd s = CHR ''-''"; simp)
  with 1 show ?thesis
    using scan_integer_append [OF 1(1) t] scan_fraction_append [OF 1(2) t] scan_exponent_append [OF 1(3) t] by simp
qed

lemma number_start:
  assumes "number_ok s"
  obtains c r where "s = c # r" "c = CHR ''-'' \<or> is_digit c"
  using assms unfolding number_ok_def scan_number_def scan_integer_def scan_digits_def Let_def
  by (cases s) (auto simp: is_digit_def split: option.splits if_splits list.splits)


lemma render_start:
  assumes "json_ok j"
  obtains c r where "render j = c # r" "\<not> is_space c" "c \<noteq> CHR '']''" "c \<noteq> CHR ''}''"
proof (cases j)
  case (JNum s)
  then obtain c r where "s = c # r" "c = CHR ''-'' \<or> is_digit c"
    using assms number_start by auto
  moreover from this(2) have "\<not> is_space c" "c \<noteq> CHR '']''" "c \<noteq> CHR ''}''"
    by (auto simp: is_space_def is_digit_def)
  ultimately show ?thesis using JNum that by simp
next
  case (JBool b)
  with that show ?thesis by (cases b) (auto simp: is_space_def)
qed (use that in \<open>auto simp: is_space_def quoted_def\<close>)

lemma parse_value_number:
  assumes "number_ok s" "number_end t"
  shows "parse_value (Suc n) (s @ t) = Some (JNum s, t)"
proof -
  obtain c r where s: "s = c # r" and c: "c = CHR ''-'' \<or> is_digit c"
    using assms number_start by blast
  then have "\<not> is_space c" "c \<noteq> quote" "c \<noteq> CHR ''{''" "c \<noteq> CHR ''[''" "c \<noteq> CHR ''n''" "c \<noteq> CHR ''t''" "c \<noteq> CHR ''f''"
    by (auto simp: is_space_def is_digit_def)
  then show ?thesis
    using scan_number_append [OF assms] by (simp add: s)
qed

lemma is_space_simps [simp]: "\<not> is_space CHR '',''" "\<not> is_space CHR '']''" "\<not> is_space CHR ''}''"
    "\<not> is_space CHR '':''" "\<not> is_space quote" "\<not> is_space CHR ''{''" "\<not> is_space CHR ''[''"
  by (simp_all add: is_space_def)

lemma number_end_simps [simp]: "number_end []" "number_end (CHR '','' # s)" "number_end (CHR '']'' # s)" "number_end (CHR ''}'' # s)"
  by (simp_all add: number_end_def)

lemma parse_render:
  "json_ok j \<Longrightarrow> number_end t \<Longrightarrow> 2 * length (render j) \<le> n \<Longrightarrow> parse_value n (render j @ t) = Some (j, t)"
  "js \<noteq> [] \<Longrightarrow> \<forall>j \<in> set js. json_ok j \<Longrightarrow> 2 * length (render_elems js) + 1 \<le> n
    \<Longrightarrow> parse_elems n (render_elems js @ CHR '']'' # t) = Some (js, t)"
  "kvs \<noteq> [] \<Longrightarrow> \<forall>kv \<in> set kvs. utf8 (fst kv) \<and> json_ok (snd kv) \<Longrightarrow> 2 * length (render_members kvs) + 1 \<le> n
    \<Longrightarrow> parse_members n (render_members kvs @ CHR ''}'' # t) = Some (kvs, t)"
proof (induction j and js and kvs arbitrary: n t and n t and n t rule: render_render_elems_render_members.induct)
  case 1
  then show ?case by (cases n) (auto simp: is_space_def)
next
  case (2 b)
  then show ?case by (cases b; cases n) (auto simp: is_space_def)
next
  case (3 s)
  then show ?case
    using number_start [of s] by (cases n) (force simp: parse_value_number simp del: parse_value.simps)+
next
  case (4 s)
  then show ?case by (cases n) (auto simp: quoted_def parse_quoted simp del: parse_str.simps)
next
  case (5 js)
  then obtain m where n: "n = Suc m" by (cases n) auto
  show ?case
  proof (cases js)
    case Nil
    then show ?thesis by (simp add: n)
  next
    case (Cons j js')
    then obtain c r where "render j = c # r" "\<not> is_space c" "c \<noteq> CHR '']''"
      using 5(2) by (auto elim: render_start)
    then have "\<exists>r. render_elems js = c # r" using Cons by simp
    with \<open>\<not> is_space c\<close> \<open>c \<noteq> CHR '']''\<close> show ?thesis
      using 5 Cons n by (auto simp del: render_elems.simps parse_elems.simps)
  qed
next
  case (6 kvs)
  then obtain m where n: "n = Suc m" by (cases n) auto
  show ?case
  proof (cases kvs)
    case Nil
    then show ?thesis by (simp add: n)
  next
    case (Cons kv kvs')
    then have "\<exists>r. render_members kvs = quote # r" by (simp add: quoted_def)
    then show ?thesis
      using 6 Cons n by (auto simp del: render_members.simps parse_members.simps)
  qed
next
  case (8 j js)
  then obtain m where n: "n = Suc m" by (cases n) auto
  show ?case
    using 8 n by (cases js) (auto simp del: render.simps parse_value.simps)
next
  case (10 kv kvs)
  then obtain m where n: "n = Suc m" by (cases n) auto
  obtain k v where kv: "kv = (k, v)" by (cases kv)
  show ?case
    using 10 n kv by (cases kvs) (auto simp: quoted_def parse_quoted simp del: render.simps parse_value.simps parse_str.simps)
qed simp_all


text \<open>Reading back: the text written for a tree is parsed as that tree.\<close>

lemma parse_json_render: "json_ok j \<Longrightarrow> parse_json (render j) = Some j"
  using parse_render(1) [of j "[]" "2 * length (render j) + 2"] by (simp add: parse_json_def)

end
