(* ===== verification/Dedup.thy ===== *)
theory Dedup
  imports Strconv Json_Text
begin

text \<open>
  Deduplication: \<^verbatim>\<open>extensions/dedup_messages.go\<close>.  A device is sampled by an FNV-1a hash of
  its token against the percentage of its game; the message of a sampled device is looked for in
  Redis under another hash.  The Redis client is the parameter \<open>redis\<close>, a state passing function
  per command; what the properties assume of the server is written out as a predicate.
\<close>

section \<open>The Redis client\<close>

datatype redis_error = Redis_Nil | Redis_Failed string

type_synonym 'a redis_reply = "redis_error + 'a"

datatype redis_cmd = Redis_Incr string | Redis_Expire string int64

record 'w redis =
  SetArgs :: "string \<Rightarrow> string \<Rightarrow> string \<Rightarrow> int64 \<Rightarrow> 'w \<Rightarrow> string redis_reply \<times> 'w"
  Get :: "string \<Rightarrow> 'w \<Rightarrow> string redis_reply \<times> 'w"
  TxPipelined :: "redis_cmd list \<Rightarrow> 'w \<Rightarrow> unit redis_reply \<times> 'w"

section \<open>FNV-1a on 64 bits\<close>

unbundle bit_operations_syntax

definition fnv_offset :: "64 word" where
  "fnv_offset = 14695981039346656037"

definition fnv_prime :: "64 word" where
  "fnv_prime = 1099511628211"

fun fnv_write :: "64 word \<Rightarrow> string \<Rightarrow> 64 word" where
  "fnv_write h [] = h"
| "fnv_write h (c # s) = fnv_write ((h XOR of_nat (byte c)) * fnv_prime) s"

lemma fnv_write_append: "fnv_write h (s @ t) = fnv_write (fnv_write h s) t"
  by (induction s arbitrary: h) auto

section \<open>The code\<close>

record dedup =
  ttl :: int64
  gamePercentages :: "(string \<times> int64) list"

definition keyFor :: "string \<Rightarrow> string \<Rightarrow> string" where
  "keyFor device msg =
     (let h = fnv_offset;
          h = fnv_write h device;
          h = fnv_write h ''|'';
          h = fnv_write h msg
      in show_nat (unat h))"

lemma keyFor_hash: "keyFor device msg = show_nat (unat (fnv_write fnv_offset (device @ ''|'' @ msg)))"
  by (simp add: keyFor_def Let_def fnv_write_append)

definition samplePercentile :: "string \<Rightarrow> int64" where
  "samplePercentile device =
     (let sum = fnv_write fnv_offset device;
          sampleValue = unat (drop_bit 48 sum)
      in i64 (int (sampleValue mod 100)))"

definition game_percentage :: "dedup \<Rightarrow> string \<Rightarrow> int64" where
  "game_percentage d game = (case map_of (gamePercentages d) game of None \<Rightarrow> 0 | Some p \<Rightarrow> p)"

definition IsUnique :: "'w redis \<Rightarrow> dedup \<Rightarrow> string \<Rightarrow> string \<Rightarrow> string \<Rightarrow> string \<Rightarrow> 'w \<Rightarrow> bool \<times> 'w" where
  "IsUnique R d device msg game platform w =
     (let percentage = game_percentage d game in
      if percentage = 0 then (True, w)
      else if 0 < percentage \<and> percentage < i64 100 \<and> percentage \<le> samplePercentile device then (True, w)
      else
        (case SetArgs R (keyFor device msg) ''1'' ''NX'' (ttl d) w of
           (Inl Redis_Nil, w') \<Rightarrow> (False, w')
         | (Inl (Redis_Failed e), w') \<Rightarrow> (True, w')
         | (Inr unique, w') \<Rightarrow> (unique = ''OK'', w')))"

text \<open>
  The percentages a configuration text gives.  An error leaves what was decoded before it, and a
  text that is no JSON leaves the nil map, which reads like the empty one.
\<close>

definition NewDedup :: "int64 \<Rightarrow> string \<Rightarrow> dedup" where
  "NewDedup expiry games =
     \<lparr>ttl = expiry, gamePercentages =
       (case parse_json games of
          Some (JObj kvs) \<Rightarrow> fst (dec_int_bindings [] kvs)
        | _ \<Rightarrow> [])\<rparr>"

section \<open>Sampling\<close>

definition sampled :: "dedup \<Rightarrow> string \<Rightarrow> string \<Rightarrow> bool" where
  "sampled d game device \<longleftrightarrow>
     (let p = game_percentage d game in p \<noteq> 0 \<and> (p < 0 \<or> i64 100 \<le> p \<or> samplePercentile device < p))"

lemma samplePercentile_range: "0 \<le> int_of (samplePercentile device) \<and> int_of (samplePercentile device) < 100"
proof -
  have "int (unat (drop_bit 48 (fnv_write fnv_offset device)) mod 100) < 100" by simp
  then have "in_int64 (int (unat (drop_bit 48 (fnv_write fnv_offset device)) mod 100))"
    by (simp add: in_int64_def)
  then show ?thesis by (simp add: samplePercentile_def Let_def)
qed

lemma samplePercentile_bounds: "0 \<le> samplePercentile device" "samplePercentile device < i64 100"
  using samplePercentile_range [of device] by (simp_all add: less_eq_int64_def less_int64_def in_int64_def)

lemma IsUnique_not_sampled: "\<not> sampled d game device \<Longrightarrow> IsUnique R d device msg game platform w = (True, w)"
  by (auto simp: sampled_def IsUnique_def Let_def not_less not_le)

lemma IsUnique_sampled:
  "sampled d game device \<Longrightarrow> IsUnique R d device msg game platform w =
    (case SetArgs R (keyFor device msg) ''1'' ''NX'' (ttl d) w of
       (Inl Redis_Nil, w') \<Rightarrow> (False, w')
     | (Inl (Redis_Failed e), w') \<Rightarrow> (True, w')
     | (Inr unique, w') \<Rightarrow> (unique = ''OK'', w'))"
  by (auto simp: sampled_def IsUnique_def Let_def not_less not_le)

text \<open>
  Sampling is monotone: raising the percentage of a game from a positive value never
  takes a device out of the check, a percentage of zero checks no device, and one of at least 100
  (or, which the configuration does not exclude, a negative one) checks every device.
\<close>

lemma sampling_monotone:
  assumes "0 < game_percentage d game" "game_percentage d game \<le> game_percentage d' game"
  shows "(sampled d game device \<longrightarrow> sampled d' game device)
    \<and> (i64 100 \<le> game_percentage d' game \<longrightarrow> sampled d' game device)
    \<and> (game_percentage d'' game = 0 \<longrightarrow> IsUnique R d'' device msg game platform w = (True, w))
    \<and> (game_percentage d'' game < 0 \<longrightarrow> sampled d'' game device)"
proof -
  have "0 < i64 100" by (simp add: less_int64_def in_int64_def)
  then show ?thesis
    using assms samplePercentile_bounds [of device]
    by (auto simp: sampled_def Let_def IsUnique_def)
qed

lemma sampling_monotone_example:
  "let d = \<lparr>ttl = 0, gamePercentages = [(''g'', i64 50)]\<rparr>; d' = \<lparr>ttl = 0, gamePercentages = [(''g'', i64 100)]\<rparr> in
     sampled d' ''g'' ''token''"
proof -
  let ?d = "\<lparr>ttl = 0, gamePercentages = [(''g'', i64 50)]\<rparr>" and ?d' = "\<lparr>ttl = 0, gamePercentages = [(''g'', i64 100)]\<rparr>"
  have "0 < game_percentage ?d ''g''" "game_percentage ?d ''g'' \<le> game_percentage ?d' ''g''" "i64 100 \<le> game_percentage ?d' ''g''"
    by code_simp+
  then have "sampled ?d' ''g'' ''token''"
    by (rule sampling_monotone [THEN conjunct2, THEN conjunct1, THEN mp])
  then show ?thesis unfolding Let_def .
qed

section \<open>Deduplication over a run of messages\<close>

text \<open>
  The server at a time in milliseconds.  What is documented of \<^verbatim>\<open>SET key value NX\<close> with a time to live, which is
  sent if it is positive and as at least one millisecond: it answers nil and changes nothing where the key is held, and OK
  otherwise, the key being held from then on until its time is over.
\<close>

definition lives :: "int64 \<Rightarrow> nat \<Rightarrow> nat \<Rightarrow> bool" where
  "lives life set_at now \<longleftrightarrow> int_of life \<le> 0 \<or> now < set_at + max 1 (nat (int_of life div 1000000))"

definition set_nx_documented :: "(nat \<Rightarrow> 'w redis) \<Rightarrow> (nat \<Rightarrow> 'w \<Rightarrow> string \<Rightarrow> bool) \<Rightarrow> bool" where
  "set_nx_documented R holds \<longleftrightarrow> (\<forall>now k life w.
     fst (SetArgs (R now) k ''1'' ''NX'' life w) = (if holds now w k then Inl Redis_Nil else Inr ''OK'')
     \<and> (\<forall>t \<ge> now. \<forall>k'. holds t (snd (SetArgs (R now) k ''1'' ''NX'' life w)) k'
          \<longleftrightarrow> holds t w k' \<or> (k' = k \<and> \<not> holds now w k \<and> lives life now t)))"

text \<open>A call of the deduplication, at a time, with what it is asked; the handlers of all apps share the server.\<close>

record dedup_call =
  dc_now :: nat
  dc_device :: string
  dc_msg :: string
  dc_game :: string
  dc_platform :: string

definition dc_key :: "dedup_call \<Rightarrow> string" where
  "dc_key c = keyFor (dc_device c) (dc_msg c)"

definition dc_sampled :: "dedup \<Rightarrow> dedup_call \<Rightarrow> bool" where
  "dc_sampled d c \<longleftrightarrow> sampled d (dc_game c) (dc_device c)"

definition call_IsUnique :: "(nat \<Rightarrow> 'w redis) \<Rightarrow> dedup \<Rightarrow> dedup_call \<Rightarrow> 'w \<Rightarrow> bool \<times> 'w" where
  "call_IsUnique R d c = IsUnique (R (dc_now c)) d (dc_device c) (dc_msg c) (dc_game c) (dc_platform c)"

fun dedup_run :: "(nat \<Rightarrow> 'w redis) \<Rightarrow> dedup \<Rightarrow> dedup_call list \<Rightarrow> 'w \<Rightarrow> bool list" where
  "dedup_run R d [] w = []"
| "dedup_run R d (c # cs) w = (let (u, w') = call_IsUnique R d c w in u # dedup_run R d cs w')"

lemma call_IsUnique_step:
  assumes "set_nx_documented R holds"
  shows "fst (call_IsUnique R d c w) \<longleftrightarrow> \<not> dc_sampled d c \<or> \<not> holds (dc_now c) w (dc_key c)"
    and "dc_now c \<le> t \<Longrightarrow> holds t (snd (call_IsUnique R d c w)) k \<longleftrightarrow>
      holds t w k \<or> (k = dc_key c \<and> dc_sampled d c \<and> fst (call_IsUnique R d c w) \<and> lives (ttl d) (dc_now c) t)"
proof -
  let ?S = "SetArgs (R (dc_now c)) (dc_key c) ''1'' ''NX'' (ttl d) w"
  have answer: "fst ?S = (if holds (dc_now c) w (dc_key c) then Inl Redis_Nil else Inr ''OK'')"
    and later: "\<And>t k'. dc_now c \<le> t \<Longrightarrow> holds t (snd ?S) k'
      \<longleftrightarrow> holds t w k' \<or> (k' = dc_key c \<and> \<not> holds (dc_now c) w (dc_key c) \<and> lives (ttl d) (dc_now c) t)"
    using assms unfolding set_nx_documented_def by blast+
  have unique: "fst (call_IsUnique R d c w) \<longleftrightarrow> \<not> dc_sampled d c \<or> \<not> holds (dc_now c) w (dc_key c)"
  proof (cases "dc_sampled d c")
    case True
    then show ?thesis
      using answer by (cases ?S) (auto simp: call_IsUnique_def dc_sampled_def dc_key_def IsUnique_sampled split: if_splits)
  qed (simp add: call_IsUnique_def dc_sampled_def IsUnique_not_sampled)
  have state: "snd (call_IsUnique R d c w) = (if dc_sampled d c then snd ?S else w)"
    using answer by (cases ?S)
      (auto simp: call_IsUnique_def dc_sampled_def dc_key_def IsUnique_sampled IsUnique_not_sampled split: if_splits)
  show "fst (call_IsUnique R d c w) \<longleftrightarrow> \<not> dc_sampled d c \<or> \<not> holds (dc_now c) w (dc_key c)" by (rule unique)
  show "holds t (snd (call_IsUnique R d c w)) k \<longleftrightarrow>
      holds t w k \<or> (k = dc_key c \<and> dc_sampled d c \<and> fst (call_IsUnique R d c w) \<and> lives (ttl d) (dc_now c) t)"
    if "dc_now c \<le> t"
    using later [OF that] unique by (auto simp: state)
qed

lemma dedup_run_held:
  assumes "set_nx_documented R holds"
  shows "sorted (map dc_now cs) \<Longrightarrow> i < length cs \<Longrightarrow> dedup_run R d cs w ! i \<longleftrightarrow>
    \<not> dc_sampled d (cs ! i) \<or> \<not> (holds (dc_now (cs ! i)) w (dc_key (cs ! i))
      \<or> (\<exists>j < i. dedup_run R d cs w ! j \<and> dc_sampled d (cs ! j) \<and> dc_key (cs ! j) = dc_key (cs ! i)
            \<and> lives (ttl d) (dc_now (cs ! j)) (dc_now (cs ! i))))"
proof (induction cs arbitrary: i w)
  case (Cons c cs)
  let ?w = "snd (call_IsUnique R d c w)"
  have run: "dedup_run R d (c # cs) w = fst (call_IsUnique R d c w) # dedup_run R d cs ?w"
    by (simp add: case_prod_beta Let_def)
  show ?case
  proof (cases i)
    case 0
    then show ?thesis by (simp add: run call_IsUnique_step(1) [OF assms] del: dedup_run.simps)
  next
    case (Suc j)
    then have "dc_now c \<le> dc_now (cs ! j)" using Cons.prems by simp
    then show ?thesis
      using Cons.IH [of j ?w] Cons.prems
      by (simp only: Suc run Ex_less_Suc2 nth_Cons_0 nth_Cons_Suc call_IsUnique_step(2) [OF assms]) auto
  qed
qed simp

text \<open>
  \<^bold>\<open>C31\<close>  Deduplication over a whole run of messages for any apps, on a server that holds no key yet: a message is called a
  duplicate exactly when its device is sampled and an earlier message of a sampled device that was called unique has the
  same key and was there less than the time to live before.  So a message that keeps coming is let through once per time to
  live, which duplicates do not prolong.
\<close>

theorem dedup_first_occurrence:
  assumes "set_nx_documented R holds" "\<And>t k. \<not> holds t w k" "sorted (map dc_now cs)" "i < length cs"
  shows "dedup_run R d cs w ! i \<longleftrightarrow> \<not> (sampled d (dc_game (cs ! i)) (dc_device (cs ! i)) \<and>
    (\<exists>j < i. dedup_run R d cs w ! j \<and> sampled d (dc_game (cs ! j)) (dc_device (cs ! j))
       \<and> keyFor (dc_device (cs ! j)) (dc_msg (cs ! j)) = keyFor (dc_device (cs ! i)) (dc_msg (cs ! i))
       \<and> (int_of (ttl d) \<le> 0 \<or> dc_now (cs ! i) < dc_now (cs ! j) + max 1 (nat (int_of (ttl d) div 1000000)))))"
  using dedup_run_held [OF assms(1,3,4), of d w] assms(2) by (simp add: dc_sampled_def dc_key_def lives_def)

text \<open>An in-memory server, for the examples: the keys it holds, with the times until which it does.\<close>

definition memory_holds :: "nat \<Rightarrow> (string \<times> nat option) list \<Rightarrow> string \<Rightarrow> bool" where
  "memory_holds now w k \<longleftrightarrow> list_ex (\<lambda>(k', e). k' = k \<and> (case e of None \<Rightarrow> True | Some e \<Rightarrow> now < e)) w"

definition memory_redis :: "nat \<Rightarrow> (string \<times> nat option) list redis" where
  "memory_redis now = \<lparr>SetArgs = (\<lambda>k v m life w. if memory_holds now w k then (Inl Redis_Nil, w)
       else (Inr ''OK'', (k, if int_of life \<le> 0 then None else Some (now + max 1 (nat (int_of life div 1000000)))) # w)),
     Get = (\<lambda>k w. (Inl Redis_Nil, w)), TxPipelined = (\<lambda>cs w. (Inr (), w))\<rparr>"

lemma memory_redis_documented: "set_nx_documented memory_redis memory_holds"
  by (auto simp: set_nx_documented_def memory_redis_def memory_holds_def lives_def)

theorem dedup_first_occurrence_witness:
  "let d = \<lparr>ttl = i64 60000000000, gamePercentages = [(''g'', i64 100)]\<rparr>;
       call = (\<lambda>now. \<lparr>dc_now = now, dc_device = ''t'', dc_msg = ''hi'', dc_game = ''g'', dc_platform = ''apns''\<rparr>);
       run = dedup_run memory_redis d [call 0, call 50000, call 60000] [] in
    run ! 0 \<and> \<not> run ! 1 \<and> run ! 2"
proof -
  let ?d = "\<lparr>ttl = i64 60000000000, gamePercentages = [(''g'', i64 100)]\<rparr>"
  let ?call = "\<lambda>now. \<lparr>dc_now = now, dc_device = ''t'', dc_msg = ''hi'', dc_game = ''g'', dc_platform = ''apns''\<rparr>"
  let ?cs = "[?call 0, ?call 50000, ?call 60000]"
  have sampled: "sampled ?d ''g'' ''t''" by code_simp
  have life: "int_of (ttl ?d) = 60000000000" by (simp add: in_int64_def)
  have none: "\<not> memory_holds t [] k" for t k by (simp add: memory_holds_def)
  have sorted: "sorted (map dc_now ?cs)" by simp
  define run where "run = dedup_run memory_redis ?d ?cs []"
  note at = dedup_first_occurrence [OF memory_redis_documented none sorted, where d = ?d, folded run_def]
  have 0: "run ! 0" using at [of 0] by simp
  have "\<not> run ! 1" using at [of 1] sampled life 0 by simp
  moreover from this have "run ! 2" using at [of 2] sampled life by (simp add: numeral_2_eq_2 Ex_less_Suc2)
  ultimately show ?thesis using 0 unfolding Let_def run_def by simp
qed

text \<open>
  Deduplication fails open: a message is only ever called a duplicate because the
  server said that the key is held, or answered the command with something else than OK.
\<close>

lemma dedup_fails_open:
  "\<not> fst (IsUnique R d device msg game platform w) \<longleftrightarrow>
     sampled d game device \<and>
     (case fst (SetArgs R (keyFor device msg) ''1'' ''NX'' (ttl d) w) of
        Inl Redis_Nil \<Rightarrow> True | Inl (Redis_Failed e) \<Rightarrow> False | Inr answer \<Rightarrow> answer \<noteq> ''OK'')"
  by (cases "sampled d game device"; cases "SetArgs R (keyFor device msg) ''1'' ''NX'' (ttl d) w")
    (auto simp: IsUnique_sampled IsUnique_not_sampled split: sum.splits redis_error.splits)

text \<open>
  What the key tells apart: two messages have the same key exactly when the hash of
  device, bar and message is the same, so the place of the bar is lost, and a device whose token
  has a bar in it can share its keys with another device.
\<close>

lemma keyFor_ambiguous:
  "(keyFor device msg = keyFor device' msg' \<longleftrightarrow>
     fnv_write fnv_offset (device @ ''|'' @ msg) = fnv_write fnv_offset (device' @ ''|'' @ msg'))
   \<and> keyFor (device @ ''|'' @ x) msg = keyFor device (x @ ''|'' @ msg)"
  by (simp add: keyFor_hash flip: word_unat_eq_iff)

end
