(* ===== verification/Stats.thy ===== *)
theory Stats
  imports Prelude
begin

text \<open>
  The metrics of the program: \<^verbatim>\<open>errors/push.go\<close>, the interface \<open>StatsReporter\<close> as the
  data type of its calls, the broadcasts \<open>StatsReporter...\<close> of \<^verbatim>\<open>extensions/common.go\<close>, and
  the reporter \<open>StatsD\<close> of \<^verbatim>\<open>extensions/datadog_statsd.go\<close> as the calls it makes on its
  client.  A reporter object is known by its number; a call that panics is \<open>None\<close>.
\<close>

section \<open>Errors and the calls of a reporter\<close>

record PushError =
  Key :: string
  Description :: string

definition NewPushError :: "string \<Rightarrow> string \<Rightarrow> PushError" where
  "NewPushError key description = \<lparr>Key = key, Description = description\<rparr>"

definition PushError_Error :: "PushError \<Rightarrow> string" where
  "PushError_Error e = ''Sending push notification failed with error '' @ Key e @ '' ('' @ Description e @ '').''"

type_synonym reporter = nat

text \<open>A float64 the code makes from an integer, by the integer it is made from.\<close>

datatype float64 = Float64 int

datatype stat_call =
    InitializeFailure string string
  | HandleNotificationSent string string string
  | HandleNotificationSuccess string string
  | HandleNotificationFailure string string PushError
  | ReportGoStats int64 nat nat nat nat
  | ReportMetricGauge string float64 string string
  | ReportMetricCount string int64 string string
  | NotificationRateLimitReached string string
  | NotificationRateLimitFailed string string
  | ReportSendNotificationLatency int64 string string "string list"
  | ReportFirebaseLatency int64 string "string list"

section \<open>The broadcasts\<close>

type_synonym stat_event = "reporter \<times> stat_call"

fun to_reporters :: "reporter list \<Rightarrow> stat_call \<Rightarrow> stat_event list" where
  "to_reporters [] c = []"
| "to_reporters (r # rs) c = (r, c) # to_reporters rs c"

definition StatsReporterHandleNotificationSent where
  "StatsReporterHandleNotificationSent rs game platform topic = to_reporters rs (HandleNotificationSent game platform topic)"

definition StatsReporterHandleNotificationSuccess where
  "StatsReporterHandleNotificationSuccess rs game platform = to_reporters rs (HandleNotificationSuccess game platform)"

definition StatsReporterHandleNotificationFailure where
  "StatsReporterHandleNotificationFailure rs game platform err = to_reporters rs (HandleNotificationFailure game platform err)"

definition StatsReporterNotificationRateLimitReached where
  "StatsReporterNotificationRateLimitReached rs game platform = to_reporters rs (NotificationRateLimitReached game platform)"

definition StatsReporterNotificationRateLimitFailed where
  "StatsReporterNotificationRateLimitFailed rs game platform = to_reporters rs (NotificationRateLimitFailed game platform)"

definition StatsReporterReportSendNotificationLatency where
  "StatsReporterReportSendNotificationLatency rs latency game platform labels =
     to_reporters rs (ReportSendNotificationLatency latency game platform labels)"

definition StatsReporterDuplicateMessageDetected where
  "StatsReporterDuplicateMessageDetected rs game platform =
     to_reporters rs (ReportMetricCount ''duplicated_messages'' (i64 1) game platform)"

definition StatsReporterDedupFailed where
  "StatsReporterDedupFailed rs game platform =
     to_reporters rs (ReportMetricCount ''dedup_errors'' (i64 1) game platform)"


lemmas broadcast_defs =
  StatsReporterHandleNotificationSent_def StatsReporterHandleNotificationSuccess_def
  StatsReporterHandleNotificationFailure_def StatsReporterNotificationRateLimitReached_def
  StatsReporterNotificationRateLimitFailed_def StatsReporterReportSendNotificationLatency_def
  StatsReporterDuplicateMessageDetected_def StatsReporterDedupFailed_def

lemma to_reporters_map: "to_reporters rs c = map (\<lambda>r. (r, c)) rs"
  by (induction rs) auto

section \<open>The StatsD reporter\<close>

datatype statsd_call =
    Incr string "string list" nat
  | Gauge string float64 "string list" nat
  | Count string int64 "string list" nat
  | Timing string int64 "string list" nat

definition tag :: "string \<Rightarrow> string \<Rightarrow> string" where
  "tag k v = k @ CHR '':'' # v"

definition platform_game :: "string \<Rightarrow> string \<Rightarrow> string list" where
  "platform_game game platform = [tag ''platform'' platform, tag ''game'' game]"

text \<open>The loop over label pairs; a last label without a partner is an index out of range.\<close>

fun label_tags :: "string list \<Rightarrow> string list option" where
  "label_tags [] = Some []"
| "label_tags [l] = None"
| "label_tags (k # v # ls) = map_option (\<lambda>ts. tag k v # ts) (label_tags ls)"

text \<open>The tags of a metric: the host, then the game and the platform unless they are empty.\<close>

definition metric_tags :: "string \<Rightarrow> string \<Rightarrow> string \<Rightarrow> string list" where
  "metric_tags host game platform =
     [tag ''hostname'' host] @ (if game \<noteq> '''' then [tag ''game'' game] else [])
       @ (if platform \<noteq> '''' then [tag ''platform'' platform] else [])"

definition StatsD_HandleNotificationSent where
  "StatsD_HandleNotificationSent game platform topic =
     [Incr ''sent'' [tag ''platform'' platform, tag ''game'' game, tag ''topic'' topic] 1]"

definition StatsD_HandleNotificationSuccess where
  "StatsD_HandleNotificationSuccess game platform =
     [Incr ''ack'' [tag ''platform'' platform, tag ''game'' game] 1]"

definition StatsD_HandleNotificationFailure where
  "StatsD_HandleNotificationFailure game platform err =
     [Incr ''failed'' [tag ''platform'' platform, tag ''game'' game, tag ''reason'' (Key err)] 1]"

definition StatsD_NotificationRateLimitReached where
  "StatsD_NotificationRateLimitReached game platform = [Incr ''rate_limit_reached'' (platform_game game platform) 1]"

definition StatsD_NotificationRateLimitFailed where
  "StatsD_NotificationRateLimitFailed game platform = [Incr ''rate_limit_failed'' (platform_game game platform) 1]"

definition StatsD_InitializeFailure where
  "StatsD_InitializeFailure game platform = [Incr ''initialize_failure'' (platform_game game platform) 1]"

definition StatsD_ReportGoStats where
  "StatsD_ReportGoStats host goroutines allocated objects next_gc =
     (let tags = [tag ''hostname'' host] in
     [Gauge ''num_goroutine'' (Float64 (int_of goroutines)) tags 1,
      Gauge ''allocated_not_freed'' (Float64 (int allocated)) tags 1,
      Gauge ''heap_objects'' (Float64 (int objects)) tags 1,
      Gauge ''next_gc_bytes'' (Float64 (int next_gc)) tags 1])"

definition StatsD_ReportSendNotificationLatency where
  "StatsD_ReportSendNotificationLatency latency game platform labels =
     (case label_tags labels of None \<Rightarrow> None
      | Some ts \<Rightarrow> Some [Timing ''send_notification_latency'' latency (platform_game game platform @ ts) 1])"

definition StatsD_ReportFirebaseLatency where
  "StatsD_ReportFirebaseLatency latency game labels =
     (case label_tags labels of None \<Rightarrow> None
      | Some ts \<Rightarrow> Some [Timing ''firebase_latency'' latency ([tag ''game'' game] @ ts) 1])"

definition StatsD_ReportMetricGauge where
  "StatsD_ReportMetricGauge host metric v game platform = [Gauge metric v (metric_tags host game platform) 1]"

definition StatsD_ReportMetricCount where
  "StatsD_ReportMetricCount host metric v game platform = [Count metric v (metric_tags host game platform) 1]"

text \<open>The reporter as a whole: the client calls of each call of the interface.\<close>

fun StatsD :: "string \<Rightarrow> stat_call \<Rightarrow> statsd_call list option" where
  "StatsD host (InitializeFailure g p) = Some (StatsD_InitializeFailure g p)"
| "StatsD host (HandleNotificationSent g p t) = Some (StatsD_HandleNotificationSent g p t)"
| "StatsD host (HandleNotificationSuccess g p) = Some (StatsD_HandleNotificationSuccess g p)"
| "StatsD host (HandleNotificationFailure g p e) = Some (StatsD_HandleNotificationFailure g p e)"
| "StatsD host (ReportGoStats n a h x _) = Some (StatsD_ReportGoStats host n a h x)"
| "StatsD host (ReportMetricGauge m v g p) = Some (StatsD_ReportMetricGauge host m v g p)"
| "StatsD host (ReportMetricCount m v g p) = Some (StatsD_ReportMetricCount host m v g p)"
| "StatsD host (NotificationRateLimitReached g p) = Some (StatsD_NotificationRateLimitReached g p)"
| "StatsD host (NotificationRateLimitFailed g p) = Some (StatsD_NotificationRateLimitFailed g p)"
| "StatsD host (ReportSendNotificationLatency l g p ls) = StatsD_ReportSendNotificationLatency l g p ls"
| "StatsD host (ReportFirebaseLatency l g ls) = StatsD_ReportFirebaseLatency l g ls"

section \<open>Properties\<close>

fun labels_of :: "stat_call \<Rightarrow> string list" where
  "labels_of (ReportSendNotificationLatency _ _ _ ls) = ls"
| "labels_of (ReportFirebaseLatency _ _ ls) = ls"
| "labels_of _ = []"

lemma label_tags_None: "label_tags ls = None \<longleftrightarrow> odd (length ls)"
  by (induction ls rule: label_tags.induct) auto

lemma label_tags_Some_even: "label_tags ls = Some ts \<Longrightarrow> even (length ls)"
  using label_tags_None [of ls] by simp

lemma label_tags_nth:
  "label_tags ls = Some ts \<Longrightarrow> length ts = length ls div 2 \<and> (\<forall>i < length ts. ts ! i = tag (ls ! (2 * i)) (ls ! (2 * i + 1)))"
proof (induction ls arbitrary: ts rule: label_tags.induct)
  case (3 k v ls)
  then show ?case by (auto simp: nth_Cons split: nat.splits)
qed auto

text \<open>
  The StatsD reporter panics on a call exactly when the call carries an odd number of
  labels, and any other call makes at least one call of the client.
\<close>

lemma StatsD_panics_on_odd_labels:
  "(StatsD host c = None \<longleftrightarrow> odd (length (labels_of c))) \<and> StatsD host c \<noteq> Some []"
  by (cases c)
    (auto dest: label_tags_Some_even simp: label_tags_None
      StatsD_ReportSendNotificationLatency_def StatsD_ReportFirebaseLatency_def
      StatsD_InitializeFailure_def StatsD_HandleNotificationSent_def StatsD_HandleNotificationSuccess_def
      StatsD_HandleNotificationFailure_def StatsD_ReportGoStats_def StatsD_ReportMetricGauge_def
      StatsD_ReportMetricCount_def StatsD_NotificationRateLimitReached_def Let_def
      StatsD_NotificationRateLimitFailed_def split: option.splits)

end
