(* ===== verification/Go_Regexp.thy ===== *)
theory Go_Regexp
  imports Prelude
begin

text \<open>
  The part of Go's regexp package the program uses: character classes, literals,
  concatenation, alternation, greedy repetition and numbered groups, matched from the start
  of the text (the one pattern of the program begins with \<open>^\<close>).  Go chooses the match a
  backtracking search would find first; \<open>matches\<close> lists the matches in that order, each as
  the text that is left and the groups captured so far.
\<close>

section \<open>Expressions and their matches in order of preference\<close>

datatype re =
    Lit string
  | Cls "char \<Rightarrow> bool"
  | Seq re re
  | Alt re re
  | Star re
  | Grp nat re

type_synonym mstate = "string \<times> (nat \<times> string) list"

function matches :: "re \<Rightarrow> mstate \<Rightarrow> mstate list" where
  "matches (Lit w) (s, caps) =
     (if take (length w) s = w then [(drop (length w) s, caps)] else [])"
| "matches (Cls P) (s, caps) =
     (case s of [] \<Rightarrow> [] | c # s' \<Rightarrow> if P c then [(s', caps)] else [])"
| "matches (Seq r1 r2) st = concat (map (matches r2) (matches r1 st))"
| "matches (Alt r1 r2) st = matches r1 st @ matches r2 st"
| "matches (Star r) (s, caps) =
     concat (map (\<lambda>st'. if length (fst st') < length s then matches (Star r) st' else []) (matches r (s, caps)))
     @ [(s, caps)]"
| "matches (Grp k r) (s, caps) =
     map (\<lambda>(s', caps'). (s', (k, take (length s - length s') s) # caps')) (matches r (s, caps))"
  by pat_completeness auto
termination
  by (relation "measures [\<lambda>(r, st). size r, \<lambda>(r, st). length (fst st)]") auto

definition find_submatch :: "re \<Rightarrow> string \<Rightarrow> (nat \<rightharpoonup> string) option" where
  "find_submatch r s = (case matches r (s, []) of [] \<Rightarrow> None | (_, caps) # _ \<Rightarrow> Some (map_of caps))"

section \<open>Facts about the engine\<close>

text \<open>
  An expression without groups neither reads nor writes the captures: its matches are given
  by the texts left over, in the same order.
\<close>

fun plain :: "re \<Rightarrow> bool" where
  "plain (Lit w) = True"
| "plain (Cls P) = True"
| "plain (Seq r1 r2) = (plain r1 \<and> plain r2)"
| "plain (Alt r1 r2) = (plain r1 \<and> plain r2)"
| "plain (Star r) = plain r"
| "plain (Grp k r) = False"

function ends :: "re \<Rightarrow> string \<Rightarrow> string list" where
  "ends (Lit w) s = (if take (length w) s = w then [drop (length w) s] else [])"
| "ends (Cls P) s = (case s of [] \<Rightarrow> [] | c # s' \<Rightarrow> if P c then [s'] else [])"
| "ends (Seq r1 r2) s = concat (map (ends r2) (ends r1 s))"
| "ends (Alt r1 r2) s = ends r1 s @ ends r2 s"
| "ends (Star r) s =
     concat (map (\<lambda>s'. if length s' < length s then ends (Star r) s' else []) (ends r s)) @ [s]"
| "ends (Grp k r) s = ends r s"
  by pat_completeness auto
termination
  by (relation "measures [\<lambda>(r, s). size r, \<lambda>(r, s). length s]") auto

declare matches.simps(5) [simp del] ends.simps(5) [simp del]

lemma matches_plain:
  "plain r \<Longrightarrow> matches r (s, caps) = map (\<lambda>s'. (s', caps)) (ends r s)"
proof (induction r s arbitrary: caps rule: ends.induct)
  case (3 r1 r2 s)
  then show ?case by (simp add: map_concat comp_def cong: map_cong)
next
  case (5 r s)
  have m: "matches r (s, caps) = map (\<lambda>s'. (s', caps)) (ends r s)"
    using 5 by simp
  have "map (\<lambda>s'. if length s' < length s then matches (Star r) (s', caps) else []) (ends r s)
    = map (\<lambda>s'. map (\<lambda>s'. (s', caps)) (if length s' < length s then ends (Star r) s' else [])) (ends r s)"
    using 5 by (intro map_cong) auto
  then show ?case
    by (simp only: matches.simps(5) [of r s caps] ends.simps(5) [of r s] m map_map comp_def fst_conv
        map_append map_concat list.map)
qed (auto split: list.splits)

text \<open>A greedily repeated class takes the longest run first, then gives back one at a time.\<close>

lemma ends_Star_Cls:
  "ends (Star (Cls P)) [] = [[]]"
  "ends (Star (Cls P)) (c # s) = (if P c then ends (Star (Cls P)) s @ [c # s] else [c # s])"
  by (subst ends.simps, simp)+

text \<open>The first match after a choice of continuations is that of the first continuation that works.\<close>

lemma first_concat_map:
  "(case concat (map f xs) of [] \<Rightarrow> None | y # _ \<Rightarrow> Some y) =
   (case find (\<lambda>x. f x \<noteq> []) xs of None \<Rightarrow> None | Some x \<Rightarrow> Some (hd (f x)))"
proof (induction xs)
  case (Cons x xs)
  then show ?case by (cases "f x") auto
qed simp

end
