(* ===== verification/Topic.thy ===== *)
theory Topic
  imports Go_Regexp
begin

text \<open>
  The naming of Kafka topics: \<open>topicRegex\<close> and \<open>GetGameAndPlatformFromTopic\<close> of
  \<^verbatim>\<open>extensions/common.go\<close>, which reads the game and the platform out of a topic.  Its
  result is \<open>None\<close> where Go panics (the match is nil, and \<open>res[2]\<close> is out of range).
\<close>

section \<open>The code\<close>

definition is_word :: "char \<Rightarrow> bool" where
  "is_word c = (let n = (of_char c :: nat) in
     (48 \<le> n \<and> n \<le> 57) \<or> (65 \<le> n \<and> n \<le> 90) \<or> n = 95 \<or> (97 \<le> n \<and> n \<le> 122))"

definition is_sep :: "char \<Rightarrow> bool" where
  "is_sep c \<longleftrightarrow> c = CHR ''_'' \<or> c = CHR ''-''"

definition word_plus :: re where
  "word_plus = Seq (Cls is_word) (Star (Cls is_word))"

definition game_re :: re where
  "game_re = Seq word_plus (Star (Seq (Cls is_sep) word_plus))"

definition platform_re :: re where
  "platform_re = Grp 2 (Alt (Lit ''gcm'') (Alt (Lit ''apns'') (Lit ''ios'')))"

definition topicRegex :: re where
  "topicRegex = Seq (Lit ''push-'') (Seq (Grp 1 game_re) (Seq (Cls is_sep) platform_re))"

record ParsedTopic =
  Platform :: string
  Game :: string

definition GetGameAndPlatformFromTopic :: "string \<Rightarrow> ParsedTopic option" where
  "GetGameAndPlatformFromTopic topic =
     (case find_submatch topicRegex topic of
        None \<Rightarrow> None
      | Some res \<Rightarrow> Some \<lparr>Platform = the (res 2), Game = the (res 1)\<rparr>)"

section \<open>Where a game name can end\<close>

text \<open>
  \<open>first_ends s\<close> lists the texts left after a game name at the start of \<open>s\<close>, in the order
  the engine tries them; \<open>more_ends\<close> the same once a first word has been read.
\<close>

fun first_ends :: "string \<Rightarrow> string list" and more_ends :: "string \<Rightarrow> string list" where
  "first_ends [] = []"
| "first_ends (c # s) = (if is_word c then first_ends s @ more_ends s else [])"
| "more_ends [] = [[]]"
| "more_ends (c # s) = (if is_sep c then first_ends s else []) @ [c # s]"

lemma ends_longer: "x \<in> set (first_ends s) \<Longrightarrow> length x < length s"
    "x \<in> set (more_ends s) \<Longrightarrow> length x \<le> length s"
  by (induction s and s rule: first_ends_more_ends.induct) (auto split: if_splits)

lemma ends_word_plus: "ends word_plus (c # s) = (if is_word c then ends (Star (Cls is_word)) s else [])"
    "ends word_plus [] = []"
  by (simp_all add: word_plus_def)

lemma ends_word_plus_le: "x \<in> set (ends (Star (Cls is_word)) s) \<Longrightarrow> length x \<le> length s"
  by (induction s) (auto simp: ends_Star_Cls split: if_splits)

abbreviation more_words :: re where
  "more_words \<equiv> Star (Seq (Cls is_sep) word_plus)"

lemma ends_more_words:
  "ends more_words [] = [[]]"
  "ends more_words (c # s) = (if is_sep c then concat (map (ends more_words) (ends word_plus s)) else []) @ [c # s]"
proof -
  have "\<forall>x \<in> set (ends word_plus s). length x < Suc (length s)" for s
    by (cases s) (auto simp: ends_word_plus less_Suc_eq_le dest!: ends_word_plus_le split: if_splits)
  then show "ends more_words (c # s) = (if is_sep c then concat (map (ends more_words) (ends word_plus s)) else []) @ [c # s]"
    by (subst ends.simps) (auto intro!: arg_cong [where f = concat] map_cong)
  show "ends more_words [] = [[]]"
    by (subst ends.simps) simp
qed

lemma ends_game:
  "concat (map (ends more_words) (ends word_plus s)) = first_ends s"
  "ends more_words s = more_ends s"
proof (induction s and s rule: first_ends_more_ends.induct)
  case (2 c s)
  show ?case
  proof (cases "is_word c")
    case True
    have "concat (map (ends more_words) (ends (Star (Cls is_word)) s))
      = concat (map (ends more_words) (ends word_plus s)) @ ends more_words s"
      by (cases s) (simp_all add: ends_Star_Cls ends_word_plus)
    with 2 True show ?thesis by (simp add: ends_word_plus)
  qed (simp add: ends_word_plus)
qed (simp_all add: ends_word_plus ends_more_words)

section \<open>The greedy choice\<close>

text \<open>
  A list of candidate ends is greedy when, whatever the rest of the pattern accepts, the
  first candidate it accepts is the one that leaves the least text.
\<close>

definition greedy :: "string list \<Rightarrow> bool" where
  "greedy xs \<longleftrightarrow> (\<forall>Q x. find Q xs = Some x \<longrightarrow> (\<forall>y \<in> set xs. Q y \<longrightarrow> length x \<le> length y))"

lemma greedy_Nil [simp]: "greedy []"
  by (simp add: greedy_def)

lemma greedy_append_old: "greedy xs \<Longrightarrow> set ys \<subseteq> set xs \<Longrightarrow> greedy (xs @ ys)"
  unfolding greedy_def find_append
  by (auto split: option.splits simp: find_None_iff find_Some_iff)

lemma greedy_snoc: "greedy xs \<Longrightarrow> \<forall>x \<in> set xs. length x \<le> length y \<Longrightarrow> greedy (xs @ [y])"
  unfolding greedy_def find_append
  by (auto split: option.splits if_splits simp: find_None_iff find_Some_iff)

lemma greedy_more_ends:
  assumes "\<And>c s'. s = c # s' \<Longrightarrow> is_sep c \<Longrightarrow> greedy (first_ends s')"
  shows "greedy (more_ends s)"
proof (cases s)
  case (Cons c s')
  have "\<forall>x \<in> set (first_ends s'). length x \<le> length s"
    using ends_longer(1) [of _ s'] Cons by fastforce
  then show ?thesis
    using assms [OF Cons] Cons by (auto intro!: greedy_snoc simp: greedy_snoc [of "[]", simplified])
qed (simp add: greedy_snoc [of "[]", simplified])

lemma greedy_first_ends: "greedy (first_ends s)"
proof (induction "length s" arbitrary: s rule: less_induct)
  case less
  show ?case
  proof (cases s)
    case (Cons c t)
    then have IH: "greedy (first_ends u)" if "length u \<le> length t" for u
      using less that by simp
    show ?thesis
    proof (cases t)
      case Nil
      then show ?thesis using Cons by (simp add: greedy_snoc [of "[]", simplified])
    next
      case t: (Cons d u)
      have snoc: "greedy (first_ends u @ [d # u])"
        using IH [of u] t ends_longer(1) [of _ u] by (intro greedy_snoc) (auto intro: less_imp_le less_SucI)
      have "greedy (first_ends t @ more_ends t)"
      proof (cases "is_word d")
        case True
        then have "set (if is_sep d then first_ends u else []) \<subseteq> set (first_ends t)"
          by (auto simp: t)
        then have "greedy (first_ends t @ (if is_sep d then first_ends u else []))"
          using IH [of t] by (intro greedy_append_old) simp_all
        moreover have "length x \<le> length t" if "x \<in> set (first_ends t @ (if is_sep d then first_ends u else []))" for x
          using that ends_longer(1) [of x t] ends_longer(1) [of x u] t by (auto split: if_splits)
        ultimately have "greedy ((first_ends t @ (if is_sep d then first_ends u else [])) @ [t])"
          by (intro greedy_snoc) simp_all
        then show ?thesis by (simp add: t)
      next
        case False
        then show ?thesis using snoc by (simp add: t greedy_snoc [of "[]", simplified])
      qed
      with Cons show ?thesis by simp
    qed
  qed simp
qed

section \<open>Game names\<close>

fun in_game :: "string \<Rightarrow> bool" and game_ok :: "string \<Rightarrow> bool" where
  "in_game [] = True"
| "in_game (c # s) = (if is_word c then in_game s else c = CHR ''-'' \<and> game_ok s)"
| "game_ok [] = False"
| "game_ok (c # s) = (is_word c \<and> in_game s)"

lemma is_word_dash [simp]: "\<not> is_word CHR ''-''" and is_word_underscore [simp]: "is_word CHR ''_''"
  by (simp_all add: is_word_def)

lemma game_ok_in_game: "game_ok g \<Longrightarrow> in_game g"
  by (cases g) auto

lemma in_game_iff: "in_game g \<longleftrightarrow> g = [] \<or> game_ok g \<or> (\<exists>t. g = CHR ''-'' # t \<and> game_ok t)"
  by (cases g) auto

lemma ends_language:
  "x \<in> set (first_ends s) \<longleftrightarrow> (\<exists>g. s = g @ x \<and> game_ok g)"
  "x \<in> set (more_ends s) \<longleftrightarrow> (x = s \<or> (\<exists>c g. s = c # g @ x \<and> is_sep c \<and> game_ok g))"
proof (induction s and s rule: first_ends_more_ends.induct)
  case (2 c s)
  have "x \<in> set (first_ends s) \<or> x \<in> set (more_ends s) \<longleftrightarrow> (\<exists>g. s = g @ x \<and> in_game g)" if "is_word c"
    using 2 [OF that] game_ok_in_game by (auto simp: in_game_iff is_sep_def)
  then show ?case
    by (auto simp: Cons_eq_append_conv)
qed (auto simp: Cons_eq_append_conv)

section \<open>What the parser computes\<close>

definition platforms :: "string list" where
  "platforms = [''gcm'', ''apns'', ''ios'']"

definition tail_platform :: "string \<Rightarrow> string option" where
  "tail_platform e = (case e of [] \<Rightarrow> None
     | c # r \<Rightarrow> if is_sep c then find (\<lambda>p. take (length p) r = p) platforms else None)"

lemma take_eq_iff: "take (length p) r = p \<longleftrightarrow> (\<exists>rest. r = p @ rest)"
  by (metis append_eq_conv_conj)

lemma platform_unique:
  "p \<in> set platforms \<Longrightarrow> q \<in> set platforms \<Longrightarrow> p @ x = q @ y \<Longrightarrow> p = q"
  by (auto simp: platforms_def)

lemma tail_platform_Some:
  "tail_platform e = Some p \<longleftrightarrow> (\<exists>c rest. e = c # p @ rest \<and> is_sep c \<and> p \<in> set platforms)"
proof
  assume "tail_platform e = Some p"
  then show "\<exists>c rest. e = c # p @ rest \<and> is_sep c \<and> p \<in> set platforms"
    by (auto simp: tail_platform_def find_Some_iff take_eq_iff split: list.splits if_splits)
next
  assume "\<exists>c rest. e = c # p @ rest \<and> is_sep c \<and> p \<in> set platforms"
  then show "tail_platform e = Some p"
    by (auto simp: tail_platform_def platforms_def)
qed

lemma matches_Grp_Lit:
  "matches (Grp k (Lit w)) (s, caps) = (if take (length w) s = w then [(drop (length w) s, (k, w) # caps)] else [])"
proof (cases "take (length w) s = w")
  case True
  then have "length w \<le> length s" by (metis length_take min.cobounded1 min_def)
  with True show ?thesis by simp
qed simp

lemma matches_Grp_Alt: "matches (Grp k (Alt r1 r2)) st = matches (Grp k r1) st @ matches (Grp k r2) st"
  by (cases st) simp

lemma one_platform:
  "take (length p) r = p \<Longrightarrow> take (length q) r = q \<Longrightarrow> p \<in> set platforms \<Longrightarrow> q \<in> set platforms \<Longrightarrow> p = q"
  by (metis platform_unique take_eq_iff)

lemma matches_platform:
  assumes "\<And>x y. x \<in> {p, q, w} \<Longrightarrow> y \<in> {p, q, w} \<Longrightarrow> take (length x) r = x \<Longrightarrow> take (length y) r = y \<Longrightarrow> x = y"
    and "distinct [p, q, w]"
  shows "matches (Grp k (Alt (Lit p) (Alt (Lit q) (Lit w)))) (r, caps) =
    (case find (\<lambda>x. take (length x) r = x) [p, q, w] of None \<Rightarrow> []
     | Some x \<Rightarrow> [(drop (length x) r, (k, x) # caps)])"
  using assms(1) [of p q] assms(1) [of p w] assms(1) [of q w] assms(2)
  by (auto simp: matches_Grp_Alt matches_Grp_Lit simp del: matches.simps(4,6))

lemma matches_tail:
  "matches (Seq (Cls is_sep) platform_re) (e, caps) =
    (case tail_platform e of None \<Rightarrow> [] | Some p \<Rightarrow> [(drop (Suc (length p)) e, (2, p) # caps)])"
proof (cases e)
  case (Cons c r)
  have "matches platform_re (r, caps) =
    (case find (\<lambda>x. take (length x) r = x) platforms of None \<Rightarrow> []
     | Some x \<Rightarrow> [(drop (length x) r, (2, x) # caps)])"
    unfolding platforms_def platform_re_def
  proof (rule matches_platform)
    fix x y assume "x \<in> {''gcm'', ''apns'', ''ios''}" "y \<in> {''gcm'', ''apns'', ''ios''}"
      and "take (length x) r = x" "take (length y) r = y"
    then show "x = y"
      by (intro one_platform [of x r y]) (simp_all only: platforms_def list.set)
  qed simp
  with Cons show ?thesis
    by (auto simp: tail_platform_def split: option.splits)
qed (simp add: tail_platform_def)

lemma matches_game:
  "matches (Grp k game_re) (s, caps) = map (\<lambda>e. (e, (k, take (length s - length e) s) # caps)) (first_ends s)"
proof -
  have "plain game_re" by (simp add: word_plus_def game_re_def)
  then have "matches game_re (s, caps) = map (\<lambda>s'. (s', caps)) (first_ends s)"
    by (simp only: matches_plain) (simp only: game_re_def ends.simps ends_game)
  then show ?thesis by (simp add: comp_def)
qed

lemma matches_topicRegex:
  "matches topicRegex (''push-'' @ s, []) =
     concat (map (\<lambda>e. case tail_platform e of None \<Rightarrow> []
       | Some p \<Rightarrow> [(drop (Suc (length p)) e, [(2, p), (1, take (length s - length e) s)])]) (first_ends s))"
proof -
  have "matches (Lit ''push-'') (''push-'' @ s, []) = [(s, [])]" by simp
  then have "matches topicRegex (''push-'' @ s, []) =
    concat (map (matches (Seq (Cls is_sep) platform_re)) (matches (Grp 1 game_re) (s, [])))"
    unfolding topicRegex_def matches.simps(3) by simp
  then show ?thesis
    by (simp only: matches_game map_map comp_def matches_tail)
qed

lemma GetGameAndPlatform_eq:
  "GetGameAndPlatformFromTopic (''push-'' @ s) =
    (case find (\<lambda>e. tail_platform e \<noteq> None) (first_ends s) of None \<Rightarrow> None
     | Some e \<Rightarrow> Some \<lparr>Platform = the (tail_platform e), Game = take (length s - length e) s\<rparr>)"
proof -
  let ?f = "\<lambda>e. case tail_platform e of None \<Rightarrow> []
       | Some p \<Rightarrow> [(drop (Suc (length p)) e, [(2, p), (1 :: nat, take (length s - length e) s)])]"
  have ne: "?f e \<noteq> [] \<longleftrightarrow> tail_platform e \<noteq> None" for e by (simp split: option.split)
  define L where "L = concat (map ?f (first_ends s))"
  have L: "(case L of [] \<Rightarrow> None | y # _ \<Rightarrow> Some y) =
      (case find (\<lambda>e. tail_platform e \<noteq> None) (first_ends s) of None \<Rightarrow> None | Some e \<Rightarrow> Some (hd (?f e)))"
    using first_concat_map [of ?f "first_ends s", unfolded ne] by (simp only: L_def)
  have eq: "GetGameAndPlatformFromTopic (''push-'' @ s) =
      (case L of [] \<Rightarrow> None | (_, caps) # _ \<Rightarrow>
        Some \<lparr>Platform = the (map_of caps 2), Game = the (map_of caps 1)\<rparr>)"
    unfolding GetGameAndPlatformFromTopic_def find_submatch_def matches_topicRegex L_def [symmetric]
    by (simp split: list.split)
  show ?thesis
  proof (cases "find (\<lambda>e. tail_platform e \<noteq> None) (first_ends s)")
    case None
    with L show ?thesis unfolding eq by (simp split: list.splits)
  next
    case (Some e)
    then obtain p where p: "tail_platform e = Some p" by (auto simp: find_Some_iff)
    with L Some obtain rest where "L = (drop (Suc (length p)) e, [(2, p), (1, take (length s - length e) s)]) # rest"
      by (cases L) auto
    with Some p show ?thesis unfolding eq by simp
  qed
qed

lemma GetGameAndPlatform_prefix:
  assumes "\<nexists>s. topic = ''push-'' @ s"
  shows "GetGameAndPlatformFromTopic topic = None"
proof -
  have "matches (Lit ''push-'') (topic, []) = []"
    using assms take_eq_iff [of "''push-''" topic] by (simp only: matches.simps if_False)
  then have "matches topicRegex (topic, []) = []"
    unfolding topicRegex_def matches.simps(3) by simp
  then show ?thesis
    by (simp add: GetGameAndPlatformFromTopic_def find_submatch_def)
qed

section \<open>Properties of the parser\<close>

text \<open>A reading of a topic: the prefix, a game name, a separator, a platform, and the rest.\<close>

definition reads_as :: "string \<Rightarrow> string \<Rightarrow> string \<Rightarrow> bool" where
  "reads_as topic g p \<longleftrightarrow> (\<exists>c rest. topic = ''push-'' @ g @ c # p @ rest
     \<and> game_ok g \<and> is_sep c \<and> p \<in> set platforms)"

lemma reads_as_first_ends:
  "reads_as (''push-'' @ s) g p \<longleftrightarrow> (\<exists>e \<in> set (first_ends s). s = g @ e \<and> tail_platform e = Some p)"
  by (auto simp: reads_as_def ends_language tail_platform_Some)

lemma GetGameAndPlatform_Some_iff:
  "GetGameAndPlatformFromTopic topic = Some pt \<longleftrightarrow>
    reads_as topic (Game pt) (Platform pt) \<and> (\<forall>g p. reads_as topic g p \<longrightarrow> length g \<le> length (Game pt))"
proof (cases "\<exists>s. topic = ''push-'' @ s")
  case False
  then show ?thesis
    using GetGameAndPlatform_prefix [OF False] by (auto simp: reads_as_def)
next
  case True
  then obtain s where topic: "topic = ''push-'' @ s" by blast
  show ?thesis
  proof (cases "find (\<lambda>e. tail_platform e \<noteq> None) (first_ends s)")
    case None
    then have val: "GetGameAndPlatformFromTopic topic = None"
      unfolding topic GetGameAndPlatform_eq by (simp only: option.case)
    have "\<not> reads_as topic g p" for g p
      using None unfolding topic reads_as_first_ends find_None_iff by auto
    with val show ?thesis by simp
  next
    case (Some e)
    then obtain p where p: "tail_platform e = Some p" and e: "e \<in> set (first_ends s)"
      by (auto simp: find_Some_iff)
    then obtain g where g: "s = g @ e" by (auto simp: ends_language)
    have least: "length e \<le> length e'" if "e' \<in> set (first_ends s)" "tail_platform e' \<noteq> None" for e'
      using greedy_first_ends [of s] Some that unfolding greedy_def by blast
    have val: "GetGameAndPlatformFromTopic topic = Some \<lparr>Platform = p, Game = g\<rparr>"
      unfolding topic GetGameAndPlatform_eq Some using p g by simp
    have longest: "length g' \<le> length g" if "reads_as topic g' p'" for g' p'
      using that g unfolding topic reads_as_first_ends
      by (metis add_le_cancel_right length_append least option.distinct(1) add_le_mono1 le_diff_conv diff_add_inverse2
          add_diff_cancel_right' diff_le_mono2)
    have here: "reads_as topic g p"
      unfolding topic reads_as_first_ends using e g p by blast
    have unique: "g' = g \<and> p' = p" if "reads_as topic g' p'" "length g' = length g" for g' p'
      using that p g unfolding topic reads_as_first_ends by (auto simp: append_eq_append_conv)
    show ?thesis
    proof
      assume "GetGameAndPlatformFromTopic topic = Some pt"
      then show "reads_as topic (Game pt) (Platform pt) \<and> (\<forall>g p. reads_as topic g p \<longrightarrow> length g \<le> length (Game pt))"
        using val here longest by auto
    next
      assume R: "reads_as topic (Game pt) (Platform pt) \<and> (\<forall>g p. reads_as topic g p \<longrightarrow> length g \<le> length (Game pt))"
      then have "Game pt = g \<and> Platform pt = p"
        using here longest unique by (meson le_antisym)
      then show "GetGameAndPlatformFromTopic topic = Some pt"
        using val by (cases pt) simp
    qed
  qed
qed

text \<open>
  \<open>no_platform s\<close>: nowhere in \<open>s\<close> does a separator stand before a platform name.
\<close>

fun no_platform :: "string \<Rightarrow> bool" where
  "no_platform [] = True"
| "no_platform (c # s) = (tail_platform (c # s) = None \<and> no_platform s)"

lemma no_platform_suffix: "no_platform (a @ b) \<Longrightarrow> tail_platform b = None"
  by (induction a) (cases b, auto simp: tail_platform_def)+

lemma reading_longest:
  assumes "no_platform (p @ rest)" and "reads_as (''push-'' @ g @ c # p @ rest) g' p'"
  shows "length g' \<le> length g"
proof (rule ccontr)
  assume longer: "\<not> length g' \<le> length g"
  from assms(2) obtain e where e: "g @ c # p @ rest = g' @ e" and t: "tail_platform e = Some p'"
    unfolding reads_as_first_ends by blast
  then obtain u where "g @ u = g'" "c # p @ rest = u @ e"
    using longer by (auto simp: append_eq_append_conv2)
  with longer obtain v where "p @ rest = v @ e" by (cases u) auto
  with assms(1) no_platform_suffix [of v e] t show False by simp
qed

text \<open>
  \<^bold>\<open>C35\<close>  What the regular expression's backtracking computes: the parser answers a game and a
  platform exactly when the topic is the prefix, that game, a separator and that platform (and
  anything after), and no reading of the topic has a longer game.
\<close>

theorem topic_parser_longest_reading:
  "GetGameAndPlatformFromTopic topic = Some pt \<longleftrightarrow>
    reads_as topic (Game pt) (Platform pt) \<and> (\<nexists>g p. reads_as topic g p \<and> length (Game pt) < length g)"
  by (auto simp: GetGameAndPlatform_Some_iff not_less)

lemma reading_exists:
  assumes "reads_as topic g p"
  shows "GetGameAndPlatformFromTopic topic \<noteq> None"
proof -
  let ?Q = "\<lambda>n. \<exists>g p. reads_as topic g p \<and> length g = n"
  have "\<exists>n. ?Q n" using assms by blast
  moreover have bound: "n \<le> length topic" if "?Q n" for n
    using that by (auto simp: reads_as_def)
  ultimately obtain n where n: "?Q n" and max: "\<And>m. ?Q m \<Longrightarrow> m \<le> n"
    using ex_has_greatest_nat [of ?Q _ "\<lambda>n. n" "Suc (length topic)"] by (metis less_Suc_eq_le)
  then obtain g' p' where "reads_as topic g' p'" "length g' = n" by blast
  with max GetGameAndPlatform_Some_iff [of topic "\<lparr>Platform = p', Game = g'\<rparr>"]
  show ?thesis by fastforce
qed

text \<open>
  The parser indexes a nil match, and so panics, exactly on the topics that have no
  reading.  (The pattern of topics a consumer listens to is configuration, and nothing else
  guards the call.)
\<close>

lemma topic_parser_panics:
  "GetGameAndPlatformFromTopic topic = None \<longleftrightarrow> (\<nexists>g p. reads_as topic g p)"
  using reading_exists GetGameAndPlatform_Some_iff by (metis option.exhaust)

text \<open>
  \<^bold>\<open>C36\<close>  Round trip: a topic built from a game name and a platform is read back as that game
  and that platform, whatever the separator and the suffix, as long as no platform name follows
  a separator inside the rest.
\<close>

theorem topic_parser_round_trip:
  assumes "game_ok g" "is_sep c" "p \<in> set platforms" "no_platform (p @ rest)"
  shows "GetGameAndPlatformFromTopic (''push-'' @ g @ c # p @ rest) = Some \<lparr>Platform = p, Game = g\<rparr>"
proof -
  have "reads_as (''push-'' @ g @ c # p @ rest) g p"
    unfolding reads_as_def using assms(1-3) by blast
  then show ?thesis
    using reading_longest [OF assms(4)] unfolding GetGameAndPlatform_Some_iff by simp
qed

theorem topic_parser_round_trip_witness:
  "GetGameAndPlatformFromTopic (''push-'' @ ''my-game_2'' @ CHR ''_'' # ''gcm'' @ ''-massive'')
    = Some \<lparr>Platform = ''gcm'', Game = ''my-game_2''\<rparr>"
  by (rule topic_parser_round_trip) code_simp+

end
