(* ===== verification/Effects.thy ===== *)
theory Effects
  imports Stats Topic Json_Text
begin

text \<open>
  What the handlers share: the Kafka message of \<^verbatim>\<open>interfaces/queue.go\<close>, the two services a
  handler calls (\<^verbatim>\<open>interfaces/rate_limiter.go\<close> and \<^verbatim>\<open>interfaces/dedup_messages.go\<close>), and the
  effects a handler has on the world, in the order the code has them; the milliseconds they
  compare an expiry with (\<^verbatim>\<open>extensions/utils.go\<close>).
\<close>

section \<open>Messages and services\<close>

record KafkaMessage =
  km_Game :: string
  km_Platform :: string
  km_Topic :: string
  km_Value :: string

record 'w services =
  svc_Allow :: "string \<Rightarrow> string \<Rightarrow> string \<Rightarrow> 'w \<Rightarrow> bool \<times> stat_event list \<times> 'w"
  svc_IsUnique :: "string \<Rightarrow> string \<Rightarrow> string \<Rightarrow> string \<Rightarrow> 'w \<Rightarrow> bool \<times> 'w"

section \<open>Effects\<close>

text \<open>
  \<open>Done\<close> is the call of that name on the wait group of pending messages; \<open>Start\<close> hands a
  notification over to what sends it (the push queue, or a new goroutine).
\<close>

datatype 'n effect =
    Stat reporter stat_call
  | SendFeedback reporter string string string
  | Sleep int64
  | Start 'n
  | Done

fun stats :: "stat_event list \<Rightarrow> 'n effect list" where
  "stats [] = []"
| "stats (e # evs) = Stat (fst e) (snd e) # stats evs"

fun started :: "'n effect list \<Rightarrow> 'n list" where
  "started [] = []"
| "started (e # es) = (case e of Start n \<Rightarrow> [n] | _ \<Rightarrow> []) @ started es"

fun dones :: "'n effect list \<Rightarrow> nat" where
  "dones [] = 0"
| "dones (e # es) = (case e of Done \<Rightarrow> 1 | _ \<Rightarrow> 0) + dones es"

fun stat_calls :: "'n effect list \<Rightarrow> stat_event list" where
  "stat_calls [] = []"
| "stat_calls (e # es) = (case e of Stat r c \<Rightarrow> [(r, c)] | _ \<Rightarrow> []) @ stat_calls es"

fun feedbacks :: "'n effect list \<Rightarrow> (reporter \<times> string \<times> string \<times> string) list" where
  "feedbacks [] = []"
| "feedbacks (e # es) = (case e of SendFeedback r g p b \<Rightarrow> [(r, g, p, b)] | _ \<Rightarrow> []) @ feedbacks es"

lemma effects_append [simp]:
  "started (xs @ ys) = started xs @ started ys"
  "dones (xs @ ys) = dones xs + dones ys"
  "stat_calls (xs @ ys) = stat_calls xs @ stat_calls ys"
  "feedbacks (xs @ ys) = feedbacks xs @ feedbacks ys"
  by (induction xs) auto

lemma effects_stats [simp]:
  "started (stats evs) = []" "dones (stats evs) = 0" "stat_calls (stats evs) = evs" "feedbacks (stats evs) = []"
  by (induction evs) auto

section \<open>Feedback\<close>

definition marshal :: "float_ops \<Rightarrow> gval \<Rightarrow> string option" where
  "marshal F v = map_option render (of_gval F v)"

fun to_feedback_reporters :: "reporter list \<Rightarrow> string \<Rightarrow> string \<Rightarrow> string \<Rightarrow> 'n effect list" where
  "to_feedback_reporters [] game platform b = []"
| "to_feedback_reporters (r # rs) game platform b =
    SendFeedback r game platform b # to_feedback_reporters rs game platform b"

definition SendToFeedbackReporters :: "reporter list \<Rightarrow> json option \<Rightarrow> ParsedTopic \<Rightarrow> 'n effect list" where
  "SendToFeedbackReporters rs res topic =
     (case res of None \<Rightarrow> [] | Some j \<Rightarrow> to_feedback_reporters rs (Game topic) (Platform topic) (render j))"

lemma effects_to_feedback [simp]:
  "started (to_feedback_reporters rs g p b) = []" "dones (to_feedback_reporters rs g p b) = 0"
  "stat_calls (to_feedback_reporters rs g p b) = []"
  "feedbacks (to_feedback_reporters rs g p b) = map (\<lambda>r. (r, g, p, b)) rs"
  by (induction rs) auto

section \<open>The clock\<close>

text \<open>
  Milliseconds (\<^verbatim>\<open>extensions/utils.go\<close>) of a reading of the clock in nanoseconds; Go's division goes towards zero.
\<close>

definition MakeTimestamp :: "int64 \<Rightarrow> int64" where
  "MakeTimestamp UnixNano =
     (let n = int_of UnixNano in i64 (if 0 \<le> n then n div 1000000 else - (- n div 1000000)))"

lemma in_int64_between: "in_int64 i \<Longrightarrow> in_int64 j \<Longrightarrow> i \<le> k \<Longrightarrow> k \<le> j \<Longrightarrow> in_int64 k"
  by (simp add: in_int64_def)

lemma MakeTimestamp_int:
  assumes "0 \<le> int_of t"
  shows "int_of (MakeTimestamp t) = int_of t div 1000000"
proof -
  have "0 \<le> int_of t div 1000000" "int_of t div 1000000 \<le> int_of t" using assms by linarith+
  moreover have "in_int64 0" by (simp add: in_int64_def)
  ultimately have "in_int64 (int_of t div 1000000)" using int_of_range in_int64_between by blast
  with assms show ?thesis by (simp add: MakeTimestamp_def)
qed

lemma MakeTimestamp_neg:
  assumes "int_of t < 0"
  shows "int_of (MakeTimestamp t) \<le> 0"
proof -
  have "- (- int_of t div 1000000) \<le> 0" "int_of t \<le> - (- int_of t div 1000000)" using assms by linarith+
  moreover have "in_int64 0" by (simp add: in_int64_def)
  ultimately have "in_int64 (- (- int_of t div 1000000))" using int_of_range in_int64_between by blast
  moreover have "MakeTimestamp t = i64 (- (- int_of t div 1000000))"
    using assms by (simp add: MakeTimestamp_def)
  ultimately show ?thesis using \<open>- (- int_of t div 1000000) \<le> 0\<close> by (simp only: int_of_i64)
qed

text \<open>So nothing expires early: a push is expired when the millisecond after its expiry has begun.\<close>

lemma expired_iff:
  assumes "0 < e"
  shows "e < MakeTimestamp t \<longleftrightarrow> (int_of e + 1) * 1000000 \<le> int_of t"
proof (cases "0 \<le> int_of t")
  case True
  have lt: "i < q \<longleftrightarrow> (i + 1) * 1000000 \<le> q * 1000000 + r" if "0 \<le> r" "r < 1000000" for i q r :: int
    using that by auto
  have "i < j div 1000000 \<longleftrightarrow> (i + 1) * 1000000 \<le> j" for i j :: int
    using lt [of "j mod 1000000" i "j div 1000000"] by simp
  then show ?thesis using MakeTimestamp_int [OF True] by (simp add: less_int64_def)
next
  case False
  moreover have "0 < int_of e" using assms by (simp add: less_int64_def)
  moreover have "int_of (MakeTimestamp t) \<le> 0" using False MakeTimestamp_neg by simp
  ultimately show ?thesis by (simp add: less_int64_def)
qed

section \<open>Merging metadata\<close>

text \<open>The loop over the metadata both handlers have: an entry is set where the other map has nil.\<close>

fun add_missing :: "gmap \<Rightarrow> gmap \<Rightarrow> gmap" where
  "add_missing [] m = m"
| "add_missing (kv # md) m = add_missing md (if map_at m (fst kv) = GNil then map_set (fst kv) (snd kv) m else m)"

lemma add_missing_at:
  "distinct (map fst md) \<Longrightarrow> map_at (add_missing md m) k = (if map_at m k = GNil then map_at md k else map_at m k)"
proof (induction md arbitrary: m)
  case (Cons kv md)
  have "map_at (kv # md) k = (if k = fst kv then snd kv else map_at md k)"
    by (cases kv) (simp add: map_at_def)
  moreover have "map_at md (fst kv) = GNil"
    using Cons.prems by (simp add: map_at_def map_of_eq_None_iff [THEN iffD2])
  ultimately show ?case using Cons by auto
qed (simp add: map_at_def)

section \<open>The interface of a message handler\<close>

text \<open>
  What \<^verbatim>\<open>interfaces/message_handler.go\<close> leaves unsaid and the shutdown of the program relies
  on: every message given to \<open>HandleMessages\<close> is either settled at once, by one \<open>Done\<close>, or
  handed over exactly once.
\<close>

fun handle_all :: "(KafkaMessage \<Rightarrow> 'w \<Rightarrow> 'n effect list \<times> 'w) \<Rightarrow> KafkaMessage list \<Rightarrow> 'w \<Rightarrow> 'n effect list \<times> 'w" where
  "handle_all h [] w = ([], w)"
| "handle_all h (m # ms) w = (let (es, w') = h m w; (es', w'') = handle_all h ms w' in (es @ es', w''))"

locale message_handler =
  fixes handle :: "KafkaMessage \<Rightarrow> 'w \<Rightarrow> 'n effect list \<times> 'w"
  assumes settles: "length (started (fst (handle m w))) + dones (fst (handle m w)) = 1"
begin

lemma settles_all: "length (started (fst (handle_all handle ms w))) + dones (fst (handle_all handle ms w)) = length ms"
proof (induction ms arbitrary: w)
  case (Cons m ms)
  show ?case
    using settles [of m w] Cons [of "snd (handle m w)"] by (simp add: case_prod_beta Let_def)
qed simp

lemma at_most_one: "length (started (fst (handle m w))) \<le> 1"
  using settles [of m w] by linarith

lemma started_settled: "started (fst (handle m w)) = [] \<longleftrightarrow> dones (fst (handle m w)) = 1"
  using settles [of m w] by (cases "started (fst (handle m w))") auto

end

section \<open>Samples\<close>

text \<open>Concrete parameters, for the examples of all theories.\<close>

definition sample_floats :: float_ops where
  "sample_floats = \<lparr>ParseFloat = \<lambda>s. Some 0, FormatFloat = \<lambda>f. Some ''0''\<rparr>"

definition free_services :: "unit services" where
  "free_services = \<lparr>svc_Allow = (\<lambda>d g p w. (True, [], w)), svc_IsUnique = (\<lambda>d m g p w. (True, w))\<rparr>"

definition null_message :: KafkaMessage where
  "null_message = \<lparr>km_Game = ''g'', km_Platform = ''apns'', km_Topic = ''push-g_apns-single'', km_Value = ''null''\<rparr>"

section \<open>The interface of a rate limiter\<close>

text \<open>A limiter reports nothing but that it failed to compute a limit.\<close>

locale rate_limiter =
  fixes allow :: "string \<Rightarrow> string \<Rightarrow> string \<Rightarrow> 'w \<Rightarrow> bool \<times> stat_event list \<times> 'w"
  assumes reports: "snd ` set (fst (snd (allow device game platform w))) \<subseteq> {NotificationRateLimitFailed game platform}"

end
