(* ===== verification/Rate_Limiter.thy ===== *)
theory Rate_Limiter
  imports Dedup Effects
begin

text \<open>
  The rate limit per device and minute: \<^verbatim>\<open>extensions/rate_limiter.go\<close>.  \<open>Allow\<close> makes two
  round trips to Redis, which other processes can come between, so it is also given as its two
  parts, and the interleaving of several callers is a step relation over them.
\<close>

section \<open>The code\<close>

record rateLimiter =
  rpmLimit :: int64
  statsReporters :: "reporter list"

definition time_Minute :: int64 where
  "time_Minute = i64 60000000000"

definition deviceKey :: "string \<Rightarrow> nat \<Rightarrow> string" where
  "deviceKey device minute = device @ CHR '':'' # show_nat minute"

text \<open>The first part: an answer, or the current rate that lets the call go on.\<close>

datatype check = Answer bool | Proceed int64

definition Allow_check ::
    "'w redis \<Rightarrow> rateLimiter \<Rightarrow> string \<Rightarrow> string \<Rightarrow> string \<Rightarrow> 'w \<Rightarrow> check \<times> stat_event list \<times> 'w" where
  "Allow_check R r key game platform w =
     (let (reply, w') = Get R key w;
          failed = StatsReporterNotificationRateLimitFailed (statsReporters r) game platform in
      case reply of
        Inl (Redis_Failed e) \<Rightarrow> (Answer True, failed, w')
      | _ \<Rightarrow>
        (let val = (case reply of Inr v \<Rightarrow> v | Inl _ \<Rightarrow> ''0'') in
         case Atoi val of
           None \<Rightarrow> (Answer True, failed, w')
         | Some current \<Rightarrow> if rpmLimit r \<le> current then (Answer False, [], w') else (Proceed current, [], w')))"

text \<open>The second part: the transaction that counts the message.\<close>

definition Allow_count ::
    "'w redis \<Rightarrow> rateLimiter \<Rightarrow> string \<Rightarrow> string \<Rightarrow> string \<Rightarrow> 'w \<Rightarrow> bool \<times> stat_event list \<times> 'w" where
  "Allow_count R r key game platform w =
     (case TxPipelined R [Redis_Incr key, Redis_Expire key time_Minute] w of
        (Inl e, w') \<Rightarrow> (True, StatsReporterNotificationRateLimitFailed (statsReporters r) game platform, w')
      | (Inr _, w') \<Rightarrow> (True, [], w'))"

definition Allow ::
    "'w redis \<Rightarrow> rateLimiter \<Rightarrow> nat \<Rightarrow> string \<Rightarrow> string \<Rightarrow> string \<Rightarrow> 'w \<Rightarrow> bool \<times> stat_event list \<times> 'w" where
  "Allow R r minute device game platform w =
     (let key = deviceKey device minute in
      case Allow_check R r key game platform w of
        (Answer b, ev, w') \<Rightarrow> (b, ev, w')
      | (Proceed current, ev, w') \<Rightarrow>
          (case Allow_count R r key game platform w' of (b, ev', w'') \<Rightarrow> (b, ev @ ev', w'')))"

section \<open>Failing open\<close>

definition current_rate :: "string redis_reply \<Rightarrow> int64 option" where
  "current_rate reply = (case reply of
     Inl (Redis_Failed _) \<Rightarrow> None | Inl Redis_Nil \<Rightarrow> Some 0 | Inr v \<Rightarrow> Atoi v)"

lemma Atoi_zero: "Atoi ''0'' = Some 0"
  by code_simp

lemma Allow_check_eq:
  "Allow_check R r key game platform w =
    (case current_rate (fst (Get R key w)) of
       None \<Rightarrow> (Answer True, StatsReporterNotificationRateLimitFailed (statsReporters r) game platform, snd (Get R key w))
     | Some n \<Rightarrow> (if rpmLimit r \<le> n then Answer False else Proceed n, [], snd (Get R key w)))"
  by (cases "Get R key w")
    (auto simp: Allow_check_def current_rate_def Atoi_zero Let_def split: sum.split redis_error.split option.split)

lemma Allow_reports:
  "snd ` set (fst (snd (Allow R r minute device game platform w))) \<subseteq> {NotificationRateLimitFailed game platform}"
  by (auto simp: Allow_def Allow_check_eq Allow_count_def Let_def to_reporters_map broadcast_defs
      split: option.splits prod.splits sum.splits if_splits)

interpretation limiter: rate_limiter "Allow R r minute" for R r minute
  by unfold_locales (rule Allow_reports)

text \<open>
  The limiter fails open: a message is refused exactly when the server answered a
  rate (or that there is none, which counts as zero) that has reached the limit, whatever happens
  to the transaction; and every event it reports says that the limit could not be computed.
\<close>

lemma rate_limiter_fails_open:
  "(\<not> fst (Allow R r minute device game platform w) \<longleftrightarrow>
      (case current_rate (fst (Get R (deviceKey device minute) w)) of None \<Rightarrow> False | Some n \<Rightarrow> rpmLimit r \<le> n))
   \<and> snd ` set (fst (snd (Allow R r minute device game platform w))) \<subseteq> {NotificationRateLimitFailed game platform}"
  by (auto simp: Allow_def Allow_check_eq Allow_count_def Let_def to_reporters_map broadcast_defs
      split: option.splits prod.splits sum.splits if_splits)

section \<open>One caller: exactly the first messages of a minute pass\<close>

text \<open>
  What the server documents of the commands used, at any one time.  As long as no key is over: \<open>GET\<close>
  answers the decimal count, or nil where there is none, and the transaction adds one to it.
\<close>

definition counting_documented :: "'w redis \<Rightarrow> ('w \<Rightarrow> string \<Rightarrow> nat) \<Rightarrow> bool" where
  "counting_documented R counts \<longleftrightarrow>
     (\<forall>k w. Get R k w = (if counts w k = 0 then Inl Redis_Nil else Inr (show_nat (counts w k)), w)) \<and>
     (\<forall>k t w. fst (TxPipelined R [Redis_Incr k, Redis_Expire k t] w) = Inr () \<and>
       counts (snd (TxPipelined R [Redis_Incr k, Redis_Expire k t] w)) = (counts w)(k := Suc (counts w k)))"

text \<open>
  With the time: \<open>counts t w k\<close> is the count that is there at \<open>t\<close>, if nothing is sent until then; the transaction makes
  the new count last for the time it is given.
\<close>

definition expiring_documented :: "(nat \<Rightarrow> 'w redis) \<Rightarrow> (nat \<Rightarrow> 'w \<Rightarrow> string \<Rightarrow> nat) \<Rightarrow> bool" where
  "expiring_documented R counts \<longleftrightarrow> (\<forall>now k w.
     fst (Get (R now) k w) = (if counts now w k = 0 then Inl Redis_Nil else Inr (show_nat (counts now w k)))
     \<and> (\<forall>t \<ge> now. counts t (snd (Get (R now) k w)) = counts t w)
     \<and> (\<forall>life. fst (TxPipelined (R now) [Redis_Incr k, Redis_Expire k life] w) = Inr ()
         \<and> (\<forall>t \<ge> now. counts t (snd (TxPipelined (R now) [Redis_Incr k, Redis_Expire k life] w)) =
            (counts t w)(k := if t < now + nat (int_of life div 1000000) then Suc (counts now w k) else 0))))"

lemma Allow_check_counting:
  assumes "counting_documented R counts" "counts w k < 2 ^ 63"
  shows "Allow_check R r k game platform w =
    (if int_of (rpmLimit r) \<le> int (counts w k) then Answer False else Proceed (i64 (int (counts w k))), [], w)"
proof -
  have "Get R k w = (if counts w k = 0 then Inl Redis_Nil else Inr (show_nat (counts w k)), w)"
    using assms(1) unfolding counting_documented_def by blast
  then have "fst (Get R k w) = (if counts w k = 0 then Inl Redis_Nil else Inr (show_nat (counts w k)))" "snd (Get R k w) = w"
    by simp_all
  moreover have "i64 0 = 0" by (simp add: zero_int64_def)
  ultimately have "current_rate (fst (Get R k w)) = Some (i64 (int (counts w k)))"
    using Atoi_show_nat [OF assms(2)] by (simp add: current_rate_def)
  then show ?thesis
    using assms(2) \<open>snd (Get R k w) = w\<close> by (simp add: Allow_check_eq less_eq_int64_def in_int64_def)
qed

lemma Allow_count_counting:
  assumes "counting_documented R counts"
  shows "fst (Allow_count R r k game platform w) \<and>
    counts (snd (snd (Allow_count R r k game platform w))) = (counts w)(k := Suc (counts w k))"
proof -
  have "fst (TxPipelined R [Redis_Incr k, Redis_Expire k time_Minute] w) = Inr () \<and>
       counts (snd (TxPipelined R [Redis_Incr k, Redis_Expire k time_Minute] w)) = (counts w)(k := Suc (counts w k))"
    using assms unfolding counting_documented_def by blast
  then show ?thesis
    by (cases "TxPipelined R [Redis_Incr k, Redis_Expire k time_Minute] w") (simp add: Allow_count_def)
qed

text \<open>
  A call of the limiter, by any handler of the process.  It happens at one time in milliseconds, which is that of the
  server, too.  The minute it reads is the one of the hour, in a time zone that is some minutes ahead.
\<close>

record allow_call =
  ac_now :: nat
  ac_device :: string
  ac_game :: string
  ac_platform :: string

definition minute_of :: "nat \<Rightarrow> nat \<Rightarrow> nat" where
  "minute_of zone now = (now div 60000 + zone) mod 60"

definition call_Allow :: "(nat \<Rightarrow> 'w redis) \<Rightarrow> rateLimiter \<Rightarrow> nat \<Rightarrow> allow_call \<Rightarrow> 'w \<Rightarrow> bool \<times> stat_event list \<times> 'w" where
  "call_Allow R r zone c = Allow (R (ac_now c)) r (minute_of zone (ac_now c)) (ac_device c) (ac_game c) (ac_platform c)"

fun allow_run :: "(nat \<Rightarrow> 'w redis) \<Rightarrow> rateLimiter \<Rightarrow> nat \<Rightarrow> allow_call list \<Rightarrow> 'w \<Rightarrow> bool list" where
  "allow_run R r zone [] w = []"
| "allow_run R r zone (c # cs) w = (let (ok, ev, w') = call_Allow R r zone c w in ok # allow_run R r zone cs w')"

lemma deviceKey_inject: "deviceKey d m = deviceKey d' m' \<longleftrightarrow> d = d' \<and> m = m'"
proof
  assume eq: "deviceKey d m = deviceKey d' m'"
  have "takeWhile (\<lambda>c. c \<noteq> CHR '':'') (rev (deviceKey d m)) = rev (show_nat m)" for d m
  proof -
    have "takeWhile (\<lambda>c. c \<noteq> CHR '':'') (rev (show_nat m) @ CHR '':'' # rev d)
        = rev (show_nat m) @ takeWhile (\<lambda>c. c \<noteq> CHR '':'') (CHR '':'' # rev d)"
      by (rule takeWhile_append2) (use show_nat_no_colon [of m] in auto)
    then show ?thesis by (simp add: deviceKey_def)
  qed
  from this [of d m] this [of d' m'] eq have "m = m'" by simp
  with eq show "d = d' \<and> m = m'" by (simp add: deviceKey_def)
qed simp

text \<open>The calls for a device in the very minute of a time.\<close>

definition in_minute :: "string \<Rightarrow> nat \<Rightarrow> allow_call list \<Rightarrow> nat" where
  "in_minute device now cs = length (filter (\<lambda>c. ac_device c = device \<and> ac_now c div 60000 = now div 60000) cs)"

lemma in_minute_append: "in_minute device now (cs @ [c]) =
    in_minute device now cs + of_bool (ac_device c = device \<and> ac_now c div 60000 = now div 60000)"
  by (simp add: in_minute_def)

lemma in_minute_later:
  assumes "\<forall>c \<in> set cs. ac_now c \<le> now" "now div 60000 < t div 60000"
  shows "in_minute device t cs = 0"
proof -
  have "ac_now c div 60000 \<noteq> t div 60000" if "c \<in> set cs" for c
    using assms that div_le_mono [of "ac_now c" now 60000] by fastforce
  then show ?thesis by (simp add: in_minute_def filter_empty_conv)
qed

text \<open>The next minute with the same number is an hour later, when the count of this one is over.\<close>

lemma same_number:
  assumes "minute_of zone t = minute_of zone now" "now \<le> t"
  shows "t div 60000 = now div 60000 \<and> t < now + 60000 \<or> now div 60000 < t div 60000 \<and> now + 60000 \<le> t"
proof (cases "t div 60000 = now div 60000")
  case True
  have "t < t div 60000 * 60000 + 60000" "now div 60000 * 60000 \<le> now" by (simp_all add: dividend_less_div_times)
  with True show ?thesis by linarith
next
  case False
  then have less: "now div 60000 < t div 60000" using assms(2) div_le_mono [of now t 60000] by linarith
  moreover have "60 dvd (t div 60000 + zone) - (now div 60000 + zone)"
    using assms(1) less by (intro mod_eq_dvd_iff_nat [THEN iffD1]) (simp_all add: minute_of_def)
  ultimately have "now div 60000 + 60 \<le> t div 60000" by (auto dest!: dvd_imp_le)
  moreover have "now < now div 60000 * 60000 + 60000" "t div 60000 * 60000 \<le> t" by (simp_all add: dividend_less_div_times)
  ultimately show ?thesis using less by linarith
qed

text \<open>After the calls \<open>cs\<close> the count for the minute of any later time is what passed in that very minute.\<close>

definition counted_so_far ::
    "(nat \<Rightarrow> 'w \<Rightarrow> string \<Rightarrow> nat) \<Rightarrow> rateLimiter \<Rightarrow> nat \<Rightarrow> allow_call list \<Rightarrow> nat \<Rightarrow> 'w \<Rightarrow> bool" where
  "counted_so_far counts r zone cs now w \<longleftrightarrow> (\<forall>c \<in> set cs. ac_now c \<le> now) \<and> (\<forall>t \<ge> now. \<forall>device.
     counts t w (deviceKey device (minute_of zone t)) = min (nat (int_of (rpmLimit r))) (in_minute device t cs))"

lemma Allow_expiring:
  assumes "expiring_documented R counts" "counts now w k < 2 ^ 63" "k = deviceKey device minute"
  shows "fst (Allow (R now) r minute device game platform w) \<longleftrightarrow> int (counts now w k) < int_of (rpmLimit r)"
    and "now \<le> t \<Longrightarrow> counts t (snd (snd (Allow (R now) r minute device game platform w))) =
      (if int (counts now w k) < int_of (rpmLimit r)
       then (counts t w)(k := if t < now + 60000 then Suc (counts now w k) else 0) else counts t w)"
proof -
  have get: "fst (Get (R now) k w) = (if counts now w k = 0 then Inl Redis_Nil else Inr (show_nat (counts now w k)))"
    and got: "\<And>t. now \<le> t \<Longrightarrow> counts t (snd (Get (R now) k w)) = counts t w"
    using assms(1) unfolding expiring_documented_def by blast+
  have tx: "fst (TxPipelined (R now) [Redis_Incr k, Redis_Expire k time_Minute] v) = Inr ()"
    "now \<le> t \<Longrightarrow> counts t (snd (TxPipelined (R now) [Redis_Incr k, Redis_Expire k time_Minute] v)) =
      (counts t v)(k := if t < now + nat (int_of time_Minute div 1000000) then Suc (counts now v k) else 0)" for v t
    using assms(1) unfolding expiring_documented_def by blast+
  have minute: "nat (int_of time_Minute div 1000000) = 60000" by (simp add: time_Minute_def in_int64_def)
  have "i64 0 = 0" by (simp add: zero_int64_def)
  then have rate: "current_rate (fst (Get (R now) k w)) = Some (i64 (int (counts now w k)))"
    using Atoi_show_nat [OF assms(2)] by (simp add: get current_rate_def)
  have check: "Allow_check (R now) r k game platform w =
     (if int_of (rpmLimit r) \<le> int (counts now w k) then Answer False else Proceed (i64 (int (counts now w k))), [], snd (Get (R now) k w))"
    using assms(2) by (simp add: Allow_check_eq rate less_eq_int64_def in_int64_def)
  show "fst (Allow (R now) r minute device game platform w) \<longleftrightarrow> int (counts now w k) < int_of (rpmLimit r)"
    using tx(1) by (auto simp: Allow_def Let_def assms(3) [symmetric] check Allow_count_def split: prod.splits sum.splits)
  show "counts t (snd (snd (Allow (R now) r minute device game platform w))) =
      (if int (counts now w k) < int_of (rpmLimit r)
       then (counts t w)(k := if t < now + 60000 then Suc (counts now w k) else 0) else counts t w)" if "now \<le> t"
  proof (cases "int (counts now w k) < int_of (rpmLimit r)")
    case True
    obtain reply v where v: "TxPipelined (R now) [Redis_Incr k, Redis_Expire k time_Minute] (snd (Get (R now) k w)) = (reply, v)"
      by fastforce
    have "snd (snd (Allow (R now) r minute device game platform w)) = v"
      using True by (simp add: Allow_def Let_def assms(3) [symmetric] check Allow_count_def v split: sum.split)
    then show ?thesis using True tx(2) [OF that, of "snd (Get (R now) k w)"] by (simp add: v minute got that)
  next
    case False
    then show ?thesis by (simp add: Allow_def Let_def assms(3) [symmetric] check got that)
  qed
qed

lemma call_counts:
  assumes "expiring_documented R counts" "counted_so_far counts r zone cs now w" "now \<le> ac_now c"
  shows "fst (call_Allow R r zone c w) \<longleftrightarrow> int (in_minute (ac_device c) (ac_now c) cs) < int_of (rpmLimit r)"
    and "counted_so_far counts r zone (cs @ [c]) (ac_now c) (snd (snd (call_Allow R r zone c w)))"
proof -
  let ?L = "nat (int_of (rpmLimit r))" and ?k = "deviceKey (ac_device c) (minute_of zone (ac_now c))"
  let ?n = "in_minute (ac_device c) (ac_now c) cs"
  have times: "\<forall>c' \<in> set cs. ac_now c' \<le> ac_now c" using assms(2,3) by (fastforce simp: counted_so_far_def)
  have counts: "counts t w (deviceKey device (minute_of zone t)) = min ?L (in_minute device t cs)" if "ac_now c \<le> t" for t device
    using assms(2,3) that by (simp add: counted_so_far_def)
  have now: "counts (ac_now c) w ?k = min ?L ?n" by (rule counts) simp
  have "?L < 2 ^ 63" using int_of_range [of "rpmLimit r"] by (cases "0 \<le> int_of (rpmLimit r)") (simp_all add: in_int64_def nat_less_iff)
  then have bound: "counts (ac_now c) w ?k < 2 ^ 63" unfolding now by simp
  note call = Allow_expiring [OF assms(1) bound refl, where r = r and game = "ac_game c" and platform = "ac_platform c", folded call_Allow_def, unfolded now]
  have passes: "int (min ?L ?n) < int_of (rpmLimit r) \<longleftrightarrow> int ?n < int_of (rpmLimit r)" by auto
  show "fst (call_Allow R r zone c w) \<longleftrightarrow> int ?n < int_of (rpmLimit r)" using call(1) passes by simp
  have "counts t (snd (snd (call_Allow R r zone c w))) (deviceKey device (minute_of zone t))
      = min ?L (in_minute device t (cs @ [c]))" if t: "ac_now c \<le> t" for t device
  proof (cases "deviceKey device (minute_of zone t) = ?k")
    case False
    then have "\<not> (ac_device c = device \<and> ac_now c div 60000 = t div 60000)"
      by (auto simp: deviceKey_inject minute_of_def)
    then have "in_minute device t (cs @ [c]) = in_minute device t cs" unfolding in_minute_append by simp
    with False show ?thesis by (simp add: call(2) [OF t] counts [OF t])
  next
    case True
    then have same: "device = ac_device c" "minute_of zone t = minute_of zone (ac_now c)" by (simp_all add: deviceKey_inject)
    from same_number [OF same(2) t] show ?thesis
    proof
      assume in_it: "t div 60000 = ac_now c div 60000 \<and> t < ac_now c + 60000"
      then have "in_minute device t cs = ?n" by (simp add: in_minute_def same(1))
      then show ?thesis
        using True in_it counts [OF t, of device] passes by (auto simp: call(2) [OF t] in_minute_append same(1))
    next
      assume later: "ac_now c div 60000 < t div 60000 \<and> ac_now c + 60000 \<le> t"
      then have "in_minute device t cs = 0" using in_minute_later [OF times] by blast
      then show ?thesis
        using True later counts [OF t, of device] by (auto simp: call(2) [OF t] in_minute_append)
    qed
  qed
  then show "counted_so_far counts r zone (cs @ [c]) (ac_now c) (snd (snd (call_Allow R r zone c w)))"
    using times by (auto simp: counted_so_far_def)
qed

lemma allow_run_counts:
  assumes "expiring_documented R counts"
  shows "counted_so_far counts r zone before now w \<Longrightarrow> sorted (map ac_now cs) \<Longrightarrow> \<forall>c \<in> set cs. now \<le> ac_now c \<Longrightarrow> i < length cs
    \<Longrightarrow> allow_run R r zone cs w ! i
      \<longleftrightarrow> int (in_minute (ac_device (cs ! i)) (ac_now (cs ! i)) (before @ take i cs)) < int_of (rpmLimit r)"
proof (induction cs arbitrary: i w before now)
  case (Cons c cs)
  let ?w = "snd (snd (call_Allow R r zone c w))"
  have run: "allow_run R r zone (c # cs) w = fst (call_Allow R r zone c w) # allow_run R r zone cs ?w"
    by (simp add: case_prod_beta Let_def)
  have "now \<le> ac_now c" using Cons.prems(3) by simp
  note call = call_counts [OF assms Cons.prems(1) this]
  show ?case
  proof (cases i)
    case 0
    then show ?thesis using call(1) by (simp add: run del: allow_run.simps)
  next
    case (Suc j)
    then show ?thesis
      using Cons.IH [OF call(2), of j] Cons.prems(2,4) by (simp add: run del: allow_run.simps)
  qed
qed simp

text \<open>
  \<^bold>\<open>C29\<close>  One process calling the limiter, for any apps and over any time, on a server with no count yet: of each device
  exactly the first messages of every minute up to the limit pass, whatever the other devices do.  The number of the minute
  comes again an hour later, but its count does not.
\<close>

theorem rate_limit_exact:
  assumes "expiring_documented R counts" "\<And>t k. counts t w k = 0" "sorted (map ac_now cs)" "i < length cs"
  shows "allow_run R r zone cs w ! i \<longleftrightarrow>
    int (length (filter (\<lambda>c. ac_device c = ac_device (cs ! i) \<and> ac_now c div 60000 = ac_now (cs ! i) div 60000) (take i cs)))
      < int_of (rpmLimit r)"
proof -
  have "counted_so_far counts r zone [] 0 w" using assms(2) by (simp add: counted_so_far_def in_minute_def)
  from allow_run_counts [OF assms(1) this assms(3) _ assms(4)] show ?thesis by (simp add: in_minute_def)
qed

text \<open>In-memory servers, for the examples: one that counts for ever, and one whose counts have an end.\<close>

definition counting_redis :: "(string \<Rightarrow> nat) redis" where
  "counting_redis = \<lparr>SetArgs = (\<lambda>k v m t w. (Inl Redis_Nil, w)),
     Get = (\<lambda>k w. (if w k = 0 then Inl Redis_Nil else Inr (show_nat (w k)), w)),
     TxPipelined = (\<lambda>cs w. (Inr (), foldr (\<lambda>c w. case c of Redis_Incr k \<Rightarrow> w(k := Suc (w k)) | _ \<Rightarrow> w) cs w))\<rparr>"

lemma counting_redis_documented: "counting_documented counting_redis (\<lambda>w. w)"
  by (simp add: counting_documented_def counting_redis_def)

definition count_at :: "nat \<Rightarrow> (string \<Rightarrow> nat \<times> nat option) \<Rightarrow> string \<Rightarrow> nat" where
  "count_at now w k = (case snd (w k) of Some e \<Rightarrow> if now < e then fst (w k) else 0 | None \<Rightarrow> fst (w k))"

definition expiring_redis :: "nat \<Rightarrow> (string \<Rightarrow> nat \<times> nat option) redis" where
  "expiring_redis now = \<lparr>SetArgs = (\<lambda>k v m t w. (Inl Redis_Nil, w)),
     Get = (\<lambda>k w. (if count_at now w k = 0 then Inl Redis_Nil else Inr (show_nat (count_at now w k)), w)),
     TxPipelined = (\<lambda>cs w. (Inr (), fold (\<lambda>c w. case c of
         Redis_Incr k \<Rightarrow> w(k := (Suc (count_at now w k), if count_at now w k = 0 then None else snd (w k)))
       | Redis_Expire k life \<Rightarrow> w(k := (fst (w k), Some (now + nat (int_of life div 1000000))))) cs w))\<rparr>"

lemma expiring_redis_documented: "expiring_documented expiring_redis count_at"
  by (auto simp: expiring_documented_def expiring_redis_def count_at_def fun_eq_iff fun_upd_apply split: option.splits)

theorem rate_limit_exact_witness:
  "let call = (\<lambda>now device. \<lparr>ac_now = now, ac_device = device, ac_game = ''g'', ac_platform = ''apns''\<rparr>);
       run = allow_run expiring_redis \<lparr>rpmLimit = i64 1, statsReporters = []\<rparr> 0
         [call 59000 ''a'', call 59500 ''b'', call 59999 ''a'', call 60000 ''a'', call 3659000 ''a''] (\<lambda>k. (0, None)) in
    run ! 0 \<and> \<not> run ! 2 \<and> run ! 3 \<and> run ! 4"
proof -
  let ?call = "\<lambda>now device. \<lparr>ac_now = now, ac_device = device, ac_game = ''g'', ac_platform = ''apns''\<rparr> :: allow_call"
  let ?cs = "[?call 59000 ''a'', ?call 59500 ''b'', ?call 59999 ''a'', ?call 60000 ''a'', ?call 3659000 ''a'']"
  have none: "count_at t (\<lambda>k. (0, None)) k = 0" for t k by (simp add: count_at_def)
  have sorted: "sorted (map ac_now ?cs)" by simp
  define run where "run = allow_run expiring_redis \<lparr>rpmLimit = i64 1, statsReporters = []\<rparr> 0 ?cs (\<lambda>k. (0, None))"
  note at = rate_limit_exact [where R = expiring_redis and counts = count_at and cs = ?cs and w = "\<lambda>k. (0, None)",
      OF expiring_redis_documented none sorted, where r = "\<lparr>rpmLimit = i64 1, statsReporters = []\<rparr>" and zone = 0,
      folded run_def]
  have "run ! 0" "\<not> run ! 2" "run ! 3" "run ! 4"
    using at [of 0] at [of 2] at [of 3] at [of 4] by (simp_all add: in_int64_def)
  then show ?thesis unfolding Let_def run_def by simp
qed

section \<open>Several callers: the limit can be overrun by the number of them\<close>

text \<open>
  Callers that share the server and the key, each calling the limiter over and over.  Each command
  of the server is atomic, and any other caller can come between the two parts of a call.  The
  state holds the server, where each caller stands, and how many messages have passed.
\<close>

datatype phase = Idle | Checked

inductive rl_step ::
    "'w redis \<Rightarrow> rateLimiter \<Rightarrow> string \<Rightarrow> 'w \<times> phase list \<times> nat \<Rightarrow> 'w \<times> phase list \<times> nat \<Rightarrow> bool"
  for R r k where
  check_pass: "i < length ps \<Longrightarrow> ps ! i = Idle \<Longrightarrow> Allow_check R r k game platform w = (Proceed n, ev, w')
    \<Longrightarrow> rl_step R r k (w, ps, a) (w', ps[i := Checked], a)"
| check_answer: "i < length ps \<Longrightarrow> ps ! i = Idle \<Longrightarrow> Allow_check R r k game platform w = (Answer b, ev, w')
    \<Longrightarrow> rl_step R r k (w, ps, a) (w', ps, a + of_bool b)"
| count: "i < length ps \<Longrightarrow> ps ! i = Checked \<Longrightarrow> Allow_count R r k game platform w = (b, ev, w')
    \<Longrightarrow> rl_step R r k (w, ps, a) (w', ps[i := Idle], a + of_bool b)"

inductive_cases rl_stepE: "rl_step R r k s t"

inductive rl_reach ::
    "'w redis \<Rightarrow> rateLimiter \<Rightarrow> string \<Rightarrow> nat \<Rightarrow> 'w \<Rightarrow> 'w \<times> phase list \<times> nat \<Rightarrow> bool" for R r k n w where
  start: "rl_reach R r k n w (w, replicate n Idle, 0)"
| step: "rl_reach R r k n w s \<Longrightarrow> rl_step R r k s t \<Longrightarrow> rl_reach R r k n w t"

abbreviation passing :: "phase list \<Rightarrow> nat" where
  "passing ps \<equiv> count_list ps Checked"

lemma count_list_update:
  "i < length ps \<Longrightarrow> count_list (ps[i := y]) x + of_bool (ps ! i = x) = count_list ps x + of_bool (y = x)"
proof (induction ps arbitrary: i)
  case (Cons p ps)
  then show ?case using Cons.IH [of "i - 1"] by (cases i) auto
qed simp

lemma passing_replicate: "passing (replicate n Idle) = 0"
  by (simp add: count_list_0_iff)

lemma rl_invariant:
  assumes "counting_documented R counts" "counts w k = 0" "0 < int_of (rpmLimit r)"
    and "int_of (rpmLimit r) + int n < 2 ^ 63"
  shows "rl_reach R r k n w s \<Longrightarrow> (\<lambda>(v, ps, a). counts v k = a \<and> length ps = n \<and>
    (a + passing ps = 0 \<or> int (a + passing ps) < int_of (rpmLimit r) + int n)) s"
proof (induction rule: rl_reach.induct)
  case start
  then show ?case using assms(2) by (simp add: passing_replicate)
next
  case (step s t)
  from step(2) show ?case
  proof (cases rule: rl_step.cases)
    case (check_pass i ps game platform v m ev v' a)
    then have I: "counts v k = a" "length ps = n" "a + passing ps = 0 \<or> int (a + passing ps) < int_of (rpmLimit r) + int n"
      using step.IH by auto
    then have "counts v k < 2 ^ 63" using assms(3,4) by auto
    from Allow_check_counting [OF assms(1) this, of r game platform] check_pass
    have "int a < int_of (rpmLimit r)" "v' = v" by (auto simp: I split: if_splits)
    moreover have "passing (ps[i := Checked]) = Suc (passing ps)"
      using count_list_update [of i ps Checked Checked] check_pass by simp
    moreover have "passing (ps[i := Checked]) \<le> n"
      using count_le_length [of "ps[i := Checked]" Checked] I by simp
    ultimately show ?thesis using I check_pass by auto
  next
    case (check_answer i ps game platform v b ev v' a)
    then have I: "counts v k = a" "length ps = n" "a + passing ps = 0 \<or> int (a + passing ps) < int_of (rpmLimit r) + int n"
      using step.IH by auto
    then have "counts v k < 2 ^ 63" using assms(3,4) by auto
    from Allow_check_counting [OF assms(1) this, of r game platform] check_answer
    have "\<not> b" "v' = v" by (auto split: if_splits)
    then show ?thesis using I check_answer by auto
  next
    case (count i ps game platform v b ev v' a)
    then have I: "counts v k = a" "length ps = n" "a + passing ps = 0 \<or> int (a + passing ps) < int_of (rpmLimit r) + int n"
      using step.IH by auto
    from Allow_count_counting [OF assms(1), of r k game platform v] count
    have "b" "counts v' k = Suc a" by (auto simp: I)
    moreover have "Suc (passing (ps[i := Idle])) = passing ps"
      using count_list_update [of i ps Idle Checked] count by simp
    ultimately show ?thesis using I count by auto
  qed
qed

text \<open>
  \<^bold>\<open>C30\<close>  Several processes that share the server: between the reading of the rate and the
  transaction that counts, others may pass, so the limit can be overrun, but never by as much as
  the number of callers.
\<close>

theorem rate_limit_concurrent_bound:
  assumes "counting_documented R counts" "counts w k = 0" "0 < int_of (rpmLimit r)"
    and "int_of (rpmLimit r) + int n < 2 ^ 63" "rl_reach R r k n w (v, ps, passed)" "0 < n"
  shows "int passed < int_of (rpmLimit r) + int n"
  using rl_invariant [OF assms(1-5)] assms(3,6) by auto

text \<open>The bound is reached: two callers, a limit of one, and both read the rate before either counts.\<close>

abbreviation one_per_minute :: rateLimiter where
  "one_per_minute \<equiv> \<lparr>rpmLimit = i64 1, statsReporters = []\<rparr>"

lemma overrun_reachable:
  "rl_reach counting_redis one_per_minute ''d:7'' 2 (\<lambda>k. 0) ((\<lambda>k. 0)(''d:7'' := 2), [Idle, Idle], 2)"
proof -
  let ?R = "counting_redis :: (string \<Rightarrow> nat) redis" and ?k = "''d:7''"
  let ?reach = "rl_reach ?R one_per_minute ?k 2 (\<lambda>k. 0)" and ?w = "\<lambda>n. (\<lambda>k :: string. 0 :: nat)(''d:7'' := n)"
  have w0: "?w 0 = (\<lambda>k. 0)" by auto
  have check: "Allow_check ?R one_per_minute ?k ''g'' ''apns'' (\<lambda>k. 0) = (Proceed (i64 0), [], \<lambda>k. 0)"
    using Allow_check_counting [OF counting_redis_documented, of "\<lambda>k. 0" ?k one_per_minute "''g''" "''apns''"]
    by (simp add: in_int64_def)
  have count: "Allow_count ?R one_per_minute ?k ''g'' ''apns'' (?w n) = (True, [], ?w (Suc n))" for n
    by (simp add: Allow_count_def counting_redis_def)
  have "?reach (\<lambda>k. 0, [Idle, Idle], 0)"
    using rl_reach.start [of ?R one_per_minute ?k 2 "\<lambda>k. 0"] by (simp add: numeral_2_eq_2)
  from rl_reach.step [OF this rl_step.check_pass [of 0, OF _ _ check]]
  have "?reach (\<lambda>k. 0, [Checked, Idle], 0)" by simp
  from rl_reach.step [OF this rl_step.check_pass [of 1, OF _ _ check]]
  have "?reach (?w 0, [Checked, Checked], 0)" by (simp add: w0)
  from rl_reach.step [OF this rl_step.count [of 0, OF _ _ count]]
  have "?reach (?w 1, [Idle, Checked], 1)" by simp
  from rl_reach.step [OF this rl_step.count [of 1, OF _ _ count]]
  show ?thesis by (simp add: numeral_2_eq_2)
qed

theorem rate_limit_concurrent_bound_witness:
  "rl_reach counting_redis one_per_minute ''d:7'' 2 (\<lambda>k. 0) ((\<lambda>k. 0)(''d:7'' := 2), [Idle, Idle], 2)
    \<and> (2 :: int) < int_of (rpmLimit one_per_minute) + 2"
  using overrun_reachable rate_limit_concurrent_bound [OF counting_redis_documented _ _ _ overrun_reachable]
  by (simp add: in_int64_def)

end
