(* ===== verification/Apns_Handler.thy ===== *)
theory Apns_Handler
  imports Rate_Limiter
begin

text \<open>
  The APNS message handler, \<^verbatim>\<open>extensions/apns/apns_message_handler.go\<close>, with the structures of
  \<^verbatim>\<open>structs/\<close>.  A handler function is given as the list of its effects.  Parameters: the
  reasons of the library \<^verbatim>\<open>apns2\<close> (\<open>rc\<close>), its way of writing a notification as JSON (\<open>MJ\<close>),
  the float conversions (\<open>F\<close>), the services of the handler (\<open>D\<close>), and what the handler reads of
  the system, in \<open>env\<close>.  Logging is left out.
\<close>

section \<open>Data\<close>

record pusherAPNSKafkaMessage =
  p_ApnsID :: string
  p_DeviceToken :: string
  p_Payload :: gval
  p_Metadata :: "gmap option"
  p_PushExpiry :: int64
  p_CollapseID :: string

record ApnsNotification =
  n_Topic :: string
  n_DeviceToken :: string
  n_Payload :: string
  n_ApnsID :: string
  n_CollapseID :: string
  n_Metadata :: "gmap option"
  n_SendAttempts :: int64

record ResponseWithMetadata =
  r_Sent :: bool
  r_StatusCode :: int64
  r_Reason :: string
  r_ApnsID :: string
  r_Err :: "PushError option"
  r_DeviceToken :: string
  r_Timestamp :: int64
  r_Metadata :: "gmap option"
  r_Notification :: ApnsNotification

text \<open>\<open>hasWG\<close> says that the wait group of the handler is not nil.\<close>

record APNSMessageHandler =
  h_feedbackReporters :: "reporter list"
  h_StatsReporters :: "reporter list"
  h_appName :: string
  h_ApnsTopic :: string
  h_retryInterval :: int64
  h_maxRetryAttempts :: nat
  h_hasWG :: bool

text \<open>
  What one run of the handler reads: the host name (\<open>None\<close> is an error), a new UUID, the
  clock in seconds and in milliseconds, and the time the latency metric measures.
\<close>

record env =
  os_Hostname :: "string option"
  uuid_V4 :: string
  time_Unix :: int64
  time_UnixNano :: int64
  time_Since :: int64

datatype reason =
    ReasonPayloadEmpty | ReasonPayloadTooLarge | ReasonMissingDeviceToken | ReasonBadDeviceToken
  | ReasonTooManyRequests | ReasonBadMessageID | ReasonBadExpirationDate | ReasonBadPriority
  | ReasonBadTopic | ReasonBadCertificate | ReasonBadCertificateEnvironment | ReasonForbidden
  | ReasonMissingTopic | ReasonTopicDisallowed | ReasonUnregistered | ReasonDeviceTokenNotForTopic
  | ReasonDuplicateHeaders | ReasonBadPath | ReasonMethodNotAllowed | ReasonIdleTimeout
  | ReasonShutdown | ReasonInternalServerError | ReasonServiceUnavailable | ReasonExpiredProviderToken
  | ReasonInvalidProviderToken | ReasonMissingProviderToken

section \<open>Parsing a Kafka message\<close>

definition apns_fields :: "float_ops \<Rightarrow> (string \<times> pusherAPNSKafkaMessage decoder) list" where
  "apns_fields F =
     [(''ApnsID'', dec_string (\<lambda>x s. s\<lparr>p_ApnsID := x\<rparr>)),
      (''DeviceToken'', dec_string (\<lambda>x s. s\<lparr>p_DeviceToken := x\<rparr>)),
      (''Payload'', dec_any F (\<lambda>x s. s\<lparr>p_Payload := x\<rparr>)),
      (''metadata'', dec_map F p_Metadata (\<lambda>x s. s\<lparr>p_Metadata := x\<rparr>)),
      (''push_expiry'', dec_int64 (\<lambda>x s. s\<lparr>p_PushExpiry := x\<rparr>)),
      (''collapse_id'', dec_string (\<lambda>x s. s\<lparr>p_CollapseID := x\<rparr>))]"

definition empty_message :: pusherAPNSKafkaMessage where
  "empty_message = \<lparr>p_ApnsID = '''', p_DeviceToken = '''', p_Payload = GNil, p_Metadata = None,
     p_PushExpiry = 0, p_CollapseID = ''''\<rparr>"

text \<open>The entries of the metadata go into the map \<open>M\<close> of the payload, where they are missing there.\<close>

definition addMetadataToPayload :: "pusherAPNSKafkaMessage \<Rightarrow> pusherAPNSKafkaMessage" where
  "addMetadataToPayload notification =
     (case p_Metadata notification of
        None \<Rightarrow> notification
      | Some md \<Rightarrow>
        (let payload = (if p_Payload notification = GNil then GMap [] else p_Payload notification) in
         case payload of
           GMap p \<Rightarrow>
             (let p = (if map_at p ''M'' = GNil then map_set ''M'' (GMap []) p else p) in
              case map_at p ''M'' of
                GMap m \<Rightarrow> notification\<lparr>p_Payload := GMap (map_set ''M'' (GMap (add_missing md m)) p)\<rparr>
              | _ \<Rightarrow> notification\<lparr>p_Payload := GMap p\<rparr>)
         | _ \<Rightarrow> notification\<lparr>p_Payload := payload\<rparr>))"

definition parseKafkaMessage ::
    "float_ops \<Rightarrow> env \<Rightarrow> APNSMessageHandler \<Rightarrow> KafkaMessage \<Rightarrow> pusherAPNSKafkaMessage option" where
  "parseKafkaMessage F env a message =
     (case parse_json (km_Value message) of
        None \<Rightarrow> None
      | Some j \<Rightarrow>
        (case decode_struct (apns_fields F) j empty_message of
           (notification, False) \<Rightarrow> None
         | (notification, True) \<Rightarrow>
           (let notification = addMetadataToPayload notification;
                md = (case p_Metadata notification of None \<Rightarrow> [] | Some m \<Rightarrow> m);
                md = map_set ''game'' (GStr (h_appName a)) md;
                md = map_set ''deviceToken'' (GStr (p_DeviceToken notification)) md;
                md = (case os_Hostname env of None \<Rightarrow> md | Some hostname \<Rightarrow> map_set ''hostname'' (GStr hostname) md);
                md = map_set ''timestamp'' (GInt (time_Unix env)) md
            in Some (notification\<lparr>p_Metadata := Some md, p_ApnsID := uuid_V4 env\<rparr>))))"

section \<open>Handling a message\<close>

definition createDedupContentFromPayload :: "float_ops \<Rightarrow> pusherAPNSKafkaMessage \<Rightarrow> string option" where
  "createDedupContentFromPayload F notification =
     (case p_Payload notification of
        GMap payload \<Rightarrow> (case map_of payload ''aps'' of Some aps \<Rightarrow> marshal F aps | None \<Rightarrow> None)
      | GStr payload \<Rightarrow> Some payload
      | _ \<Rightarrow> None)"

definition buildAndValidateNotification ::
    "float_ops \<Rightarrow> env \<Rightarrow> APNSMessageHandler \<Rightarrow> pusherAPNSKafkaMessage \<Rightarrow> ApnsNotification option" where
  "buildAndValidateNotification F env a notification =
     (if 0 < p_PushExpiry notification \<and> p_PushExpiry notification < MakeTimestamp (time_UnixNano env) then None
      else (case marshal F (p_Payload notification) of
        None \<Rightarrow> None
      | Some payload \<Rightarrow> Some
          \<lparr>n_Topic = h_ApnsTopic a, n_DeviceToken = p_DeviceToken notification, n_Payload = payload,
           n_ApnsID = p_ApnsID notification, n_CollapseID = p_CollapseID notification,
           n_Metadata = p_Metadata notification, n_SendAttempts = 0\<rparr>))"

text \<open>The deferred report comes last, with the time measured before the push.\<close>

definition sendNotification :: "env \<Rightarrow> APNSMessageHandler \<Rightarrow> ApnsNotification \<Rightarrow> ApnsNotification effect list" where
  "sendNotification env a notification =
     [Start (notification\<lparr>n_SendAttempts := n_SendAttempts notification + i64 1\<rparr>)]
     @ stats (StatsReporterReportSendNotificationLatency (h_StatsReporters a) (time_Since env) (h_appName a) ''apns''
         [''client'', ''apns''])"

definition waitGroupDone :: "APNSMessageHandler \<Rightarrow> ApnsNotification effect list" where
  "waitGroupDone a = (if h_hasWG a then [Done] else [])"

text \<open>The check for duplicates only reports; it comes with the new state of the world.\<close>

definition check_duplicate ::
    "float_ops \<Rightarrow> 'w services \<Rightarrow> APNSMessageHandler \<Rightarrow> pusherAPNSKafkaMessage \<Rightarrow> 'w \<Rightarrow> ApnsNotification effect list \<times> 'w" where
  "check_duplicate F D a parsed w =
     (case createDedupContentFromPayload F parsed of
        None \<Rightarrow> ([], w)
      | Some dedupMsg \<Rightarrow>
        (let (unique, w') = svc_IsUnique D (p_DeviceToken parsed) dedupMsg (h_appName a) ''apns'' w in
         (if unique then [] else stats (StatsReporterDuplicateMessageDetected (h_StatsReporters a) (h_appName a) ''apns''), w')))"

definition HandleMessages ::
    "float_ops \<Rightarrow> 'w services \<Rightarrow> env \<Rightarrow> APNSMessageHandler \<Rightarrow> KafkaMessage \<Rightarrow> 'w \<Rightarrow> ApnsNotification effect list \<times> 'w" where
  "HandleMessages F D env a message w =
     (case parseKafkaMessage F env a message of
        None \<Rightarrow> (waitGroupDone a, w)
      | Some parsed \<Rightarrow>
        (let (ev1, w1) = check_duplicate F D a parsed w;
             (allowed, ev2, w2) = svc_Allow D (p_DeviceToken parsed) (h_appName a) ''apns'' w1;
             evs = ev1 @ stats ev2 in
         if \<not> allowed then
           (evs @ stats (StatsReporterNotificationRateLimitReached (h_StatsReporters a) (h_appName a) ''apns'')
              @ waitGroupDone a, w2)
         else
           (case buildAndValidateNotification F env a parsed of
              None \<Rightarrow> (evs @ waitGroupDone a, w2)
            | Some n \<Rightarrow>
              (evs @ sendNotification env a n
                 @ stats (StatsReporterHandleNotificationSent (h_StatsReporters a) (h_appName a) ''apns'' (km_Topic message)), w2))))"

section \<open>Handling a response\<close>

definition mapErrorReason :: "(reason \<Rightarrow> string) \<Rightarrow> string \<Rightarrow> string" where
  "mapErrorReason rc reason =
     (case map_of
       [(rc ReasonPayloadEmpty, ''payload-empty''),
        (rc ReasonPayloadTooLarge, ''payload-too-large''),
        (rc ReasonMissingDeviceToken, ''missing-device-token''),
        (rc ReasonBadDeviceToken, ''bad-device-token''),
        (rc ReasonTooManyRequests, ''too-many-requests''),
        (rc ReasonBadMessageID, ''bad-message-id''),
        (rc ReasonBadExpirationDate, ''bad-expiration-date''),
        (rc ReasonBadPriority, ''bad-priority''),
        (rc ReasonBadTopic, ''bad-topic''),
        (rc ReasonBadCertificate, ''bad-certificate''),
        (rc ReasonBadCertificateEnvironment, ''bad-certificate-environment''),
        (rc ReasonForbidden, ''forbidden''),
        (rc ReasonMissingTopic, ''missing-topic''),
        (rc ReasonTopicDisallowed, ''topic-disallowed''),
        (rc ReasonUnregistered, ''unregistered''),
        (rc ReasonDeviceTokenNotForTopic, ''device-token-not-for-topic''),
        (rc ReasonDuplicateHeaders, ''duplicate-headers''),
        (rc ReasonBadPath, ''bad-path''),
        (rc ReasonMethodNotAllowed, ''method-not-allowed''),
        (rc ReasonIdleTimeout, ''idle-timeout''),
        (rc ReasonShutdown, ''shutdown''),
        (rc ReasonInternalServerError, ''internal-server-error''),
        (rc ReasonServiceUnavailable, ''service-unavailable''),
        (rc ReasonExpiredProviderToken, ''expired-provider-token''),
        (rc ReasonInvalidProviderToken, ''invalid-provider-token''),
        (rc ReasonMissingProviderToken, ''missing-provider-token'')] reason of
      Some key \<Rightarrow> key | None \<Rightarrow> ''unexpected'')"

text \<open>A response as JSON: the fields in the order of the struct, empty metadata left out.\<close>

definition PushError_json :: "PushError option \<Rightarrow> json" where
  "PushError_json err = (case err of None \<Rightarrow> JNull
     | Some e \<Rightarrow> JObj [(''Key'', JStr (Key e)), (''Description'', JStr (Description e))])"

definition response_json ::
    "float_ops \<Rightarrow> (ApnsNotification \<Rightarrow> json option) \<Rightarrow> ResponseWithMetadata \<Rightarrow> json option" where
  "response_json F MJ r =
     (let metadata = (case r_Metadata r of None \<Rightarrow> Some [] | Some [] \<Rightarrow> Some []
            | Some m \<Rightarrow> map_option (\<lambda>j. [(''metadata'', j)]) (of_gval F (GMap m))) in
      case (metadata, MJ (r_Notification r)) of
        (Some md, Some n) \<Rightarrow> Some (JObj
          ([(''Sent'', JBool (r_Sent r)), (''StatusCode'', JNum (FormatInt (r_StatusCode r))),
            (''Reason'', JStr (r_Reason r)), (''ApnsID'', JStr (r_ApnsID r)), (''Err'', PushError_json (r_Err r)),
            (''DeviceToken'', JStr (r_DeviceToken r)), (''timestamp'', JNum (FormatInt (r_Timestamp r)))]
           @ md @ [(''Notification'', n)]))
      | _ \<Rightarrow> None)"

definition bad_token_reasons :: "reason list" where
  "bad_token_reasons = [ReasonBadDeviceToken, ReasonUnregistered, ReasonTopicDisallowed, ReasonDeviceTokenNotForTopic]"

text \<open>
  The response takes over the metadata of its notification, which is the same map: what is
  deleted or set in one is deleted or set in the other.
\<close>

definition take_metadata :: "ResponseWithMetadata \<Rightarrow> ResponseWithMetadata" where
  "take_metadata r =
     (case n_Metadata (r_Notification r) of
        None \<Rightarrow> r\<lparr>r_Metadata := None\<rparr>
      | Some m \<Rightarrow>
        (let r = (case map_at m ''timestamp'' of GInt ts \<Rightarrow> r\<lparr>r_Timestamp := ts\<rparr> | _ \<Rightarrow> r);
             m = map_delete ''timestamp'' m in
         r\<lparr>r_Metadata := Some m, r_Notification := (r_Notification r)\<lparr>n_Metadata := Some m\<rparr>\<rparr>))"

definition mark_deleteToken :: "ResponseWithMetadata \<Rightarrow> ResponseWithMetadata" where
  "mark_deleteToken r =
     (case r_Metadata r of
        None \<Rightarrow> r\<lparr>r_Metadata := Some [(''deleteToken'', GBool True)]\<rparr>
      | Some m \<Rightarrow>
        (let m = map_set ''deleteToken'' (GBool True) m in
         r\<lparr>r_Metadata := Some m, r_Notification := (r_Notification r)\<lparr>n_Metadata := Some m\<rparr>\<rparr>))"

definition failed_response :: "(reason \<Rightarrow> string) \<Rightarrow> ResponseWithMetadata \<Rightarrow> ResponseWithMetadata" where
  "failed_response rc r =
     (let r = take_metadata r;
          r = r\<lparr>r_Err := Some (NewPushError (mapErrorReason rc (r_Reason r)) (r_Reason r))\<rparr> in
      if r_Reason r \<in> set (map rc bad_token_reasons) then mark_deleteToken r else r)"

definition is_retried :: "(reason \<Rightarrow> string) \<Rightarrow> APNSMessageHandler \<Rightarrow> ResponseWithMetadata \<Rightarrow> bool" where
  "is_retried rc a r \<longleftrightarrow> r_Reason r = rc ReasonTooManyRequests
     \<and> unat (bits64 (n_SendAttempts (r_Notification r))) < h_maxRetryAttempts a"

definition handleAPNSResponse ::
    "float_ops \<Rightarrow> (ApnsNotification \<Rightarrow> json option) \<Rightarrow> (reason \<Rightarrow> string) \<Rightarrow> env \<Rightarrow> APNSMessageHandler
      \<Rightarrow> ResponseWithMetadata \<Rightarrow> ApnsNotification effect list" where
  "handleAPNSResponse F MJ rc env a r =
     (if is_retried rc a r then Sleep (h_retryInterval a) # sendNotification env a (r_Notification r)
      else if r_Reason r = '''' then
        waitGroupDone a @ stats (StatsReporterHandleNotificationSuccess (h_StatsReporters a) (h_appName a) ''apns'')
      else
        (let pErr = NewPushError (mapErrorReason rc (r_Reason r)) (r_Reason r) in
         waitGroupDone a
         @ stats (StatsReporterHandleNotificationFailure (h_StatsReporters a) (h_appName a) ''apns'' pErr)
         @ SendToFeedbackReporters (h_feedbackReporters a) (response_json F MJ (failed_response rc r))
             \<lparr>Platform = ''apns'', Game = h_appName a\<rparr>))"

section \<open>Effects of the pieces\<close>

abbreviation sent_once :: "ApnsNotification \<Rightarrow> ApnsNotification" where
  "sent_once n \<equiv> n\<lparr>n_SendAttempts := n_SendAttempts n + i64 1\<rparr>"

lemma sendNotification_effects [simp]:
  "started (sendNotification env a n) = [sent_once n]"
  "dones (sendNotification env a n) = 0"
  "feedbacks (sendNotification env a n) = []"
  by (simp_all add: sendNotification_def broadcast_defs)

lemma waitGroupDone_effects [simp]:
  "started (waitGroupDone a) = []" "dones (waitGroupDone a) = of_bool (h_hasWG a)"
  "stat_calls (waitGroupDone a) = []" "feedbacks (waitGroupDone a) = []"
  by (simp_all add: waitGroupDone_def)

lemma check_duplicate_effects [simp]:
  "started (fst (check_duplicate F D a p w)) = []"
  "dones (fst (check_duplicate F D a p w)) = 0"
  "feedbacks (fst (check_duplicate F D a p w)) = []"
  by (auto simp: check_duplicate_def broadcast_defs split: option.split prod.split)

lemma SendToFeedbackReporters_effects [simp]:
  "started (SendToFeedbackReporters rs res t) = []" "dones (SendToFeedbackReporters rs res t) = 0"
  "stat_calls (SendToFeedbackReporters rs res t) = []"
  "feedbacks (SendToFeedbackReporters rs res t) =
    (case res of None \<Rightarrow> [] | Some j \<Rightarrow> map (\<lambda>r. (r, Game t, Platform t, render j)) rs)"
  by (simp_all add: SendToFeedbackReporters_def split: option.split)

section \<open>What becomes of a message\<close>

text \<open>The answer of the limiter, asked after the check for duplicates.\<close>

definition allowed_after ::
    "float_ops \<Rightarrow> 'w services \<Rightarrow> APNSMessageHandler \<Rightarrow> pusherAPNSKafkaMessage \<Rightarrow> 'w \<Rightarrow> bool" where
  "allowed_after F D a p w \<longleftrightarrow>
     fst (svc_Allow D (p_DeviceToken p) (h_appName a) ''apns'' (snd (check_duplicate F D a p w)))"

lemma HandleMessages_started:
  "started (fst (HandleMessages F D env a message w)) =
    (case parseKafkaMessage F env a message of
       None \<Rightarrow> []
     | Some p \<Rightarrow> if allowed_after F D a p w
         then (case buildAndValidateNotification F env a p of None \<Rightarrow> [] | Some n \<Rightarrow> [sent_once n]) else [])"
  "dones (fst (HandleMessages F D env a message w)) =
    of_bool (h_hasWG a) * (1 - length (started (fst (HandleMessages F D env a message w))))"
  by (auto simp: HandleMessages_def allowed_after_def Let_def case_prod_beta split: option.splits)

lemma HandleMessages_settles:
  "length (started (fst (HandleMessages F D env (a\<lparr>h_hasWG := True\<rparr>) message w)))
    + dones (fst (HandleMessages F D env (a\<lparr>h_hasWG := True\<rparr>) message w)) = 1"
  by (simp add: HandleMessages_started split: option.splits)

interpretation apns: message_handler "HandleMessages F D env (a\<lparr>h_hasWG := True\<rparr>)" for F D env a
  by unfold_locales (rule HandleMessages_settles)

text \<open>
  \<^bold>\<open>C7\<close>  The fate of a message given to the APNS handler: it is pushed, exactly once and
  with its first attempt counted, if it can be parsed, the limiter lets its device through, it has
  no expiry or one that is not past, and its payload can be written; and then the notification
  carries the token, the topic of the app and the payload.  Otherwise nothing is pushed, and the
  message is settled by one \<open>Done\<close>.
\<close>

theorem HandleMessages_fate:
  "case parseKafkaMessage F env a message of
     None \<Rightarrow> fst (HandleMessages F D env a message w) = waitGroupDone a
   | Some p \<Rightarrow>
      if allowed_after F D a p w \<and> (p_PushExpiry p \<le> 0 \<or> MakeTimestamp (time_UnixNano env) \<le> p_PushExpiry p)
        \<and> marshal F (p_Payload p) \<noteq> None
      then started (fst (HandleMessages F D env a message w)) =
          [\<lparr>n_Topic = h_ApnsTopic a, n_DeviceToken = p_DeviceToken p, n_Payload = the (marshal F (p_Payload p)),
            n_ApnsID = uuid_V4 env, n_CollapseID = p_CollapseID p, n_Metadata = p_Metadata p, n_SendAttempts = i64 1\<rparr>]
        \<and> dones (fst (HandleMessages F D env a message w)) = 0
      else started (fst (HandleMessages F D env a message w)) = []
        \<and> dones (fst (HandleMessages F D env a message w)) = of_bool (h_hasWG a)"
proof (cases "parseKafkaMessage F env a message")
  case None
  then show ?thesis by (simp add: HandleMessages_def)
next
  case (Some p)
  have "p_ApnsID p = uuid_V4 env"
    using Some by (auto simp: parseKafkaMessage_def Let_def split: option.splits prod.splits bool.splits)
  moreover have "0 + i64 1 = i64 1" by (simp add: plus_int64_i64 in_int64_def)
  ultimately show ?thesis
    by (auto simp: HandleMessages_started Some buildAndValidateNotification_def split: option.splits)
qed

text \<open>
  Deduplication reports and never blocks: whatever the deduplication service answers,
  the same notifications are pushed, the same messages settled, and the services are left in the
  same state.
\<close>

lemma dedup_never_blocks:
  "let D' = D\<lparr>svc_IsUnique := \<lambda>device msg game platform w.
        (answer device msg game platform w, snd (svc_IsUnique D device msg game platform w))\<rparr> in
   started (fst (HandleMessages F D' env a message w)) = started (fst (HandleMessages F D env a message w))
   \<and> dones (fst (HandleMessages F D' env a message w)) = dones (fst (HandleMessages F D env a message w))
   \<and> snd (HandleMessages F D' env a message w) = snd (HandleMessages F D env a message w)"
  by (auto simp: HandleMessages_def check_duplicate_def Let_def case_prod_beta split: option.splits)

section \<open>What becomes of a response\<close>

text \<open>
  \<^bold>\<open>C8\<close>  The fate of a response: a refusal for too many requests is pushed again after the
  retry interval, once and with its attempt counted, as long as attempts are left, and of this nothing is reported but the latency
  of the push, once to each reporter, neither sent nor success nor failure; any other response settles its message
  by one \<open>Done\<close> and pushes nothing, and is reported as a success exactly when it has no reason;
  a failure is reported with its mapped reason and sent to every feedback reporter.
\<close>

theorem handleAPNSResponse_fate:
  "let es = handleAPNSResponse F MJ rc env a r in
   if r_Reason r = rc ReasonTooManyRequests \<and> unat (bits64 (n_SendAttempts (r_Notification r))) < h_maxRetryAttempts a
   then hd es = Sleep (h_retryInterval a) \<and> started es = [sent_once (r_Notification r)] \<and> dones es = 0 \<and> feedbacks es = []
     \<and> stat_calls es = map (\<lambda>s. (s, ReportSendNotificationLatency (time_Since env) (h_appName a) ''apns'' [''client'', ''apns'']))
         (h_StatsReporters a)
   else started es = [] \<and> dones es = of_bool (h_hasWG a) \<and>
     (if r_Reason r = ''''
      then stat_calls es = map (\<lambda>s. (s, HandleNotificationSuccess (h_appName a) ''apns'')) (h_StatsReporters a) \<and> feedbacks es = []
      else stat_calls es = map (\<lambda>s. (s, HandleNotificationFailure (h_appName a) ''apns''
             \<lparr>Key = mapErrorReason rc (r_Reason r), Description = r_Reason r\<rparr>)) (h_StatsReporters a)
        \<and> feedbacks es = (case response_json F MJ (failed_response rc r) of None \<Rightarrow> []
            | Some j \<Rightarrow> map (\<lambda>s. (s, h_appName a, ''apns'', render j)) (h_feedbackReporters a)))"
  by (auto simp: handleAPNSResponse_def is_retried_def sendNotification_def Let_def broadcast_defs NewPushError_def to_reporters_map
      split: option.splits)


section \<open>Reasons\<close>

definition all_reasons :: "reason list" where
  "all_reasons =
    [ReasonPayloadEmpty, ReasonPayloadTooLarge, ReasonMissingDeviceToken, ReasonBadDeviceToken,
     ReasonTooManyRequests, ReasonBadMessageID, ReasonBadExpirationDate, ReasonBadPriority,
     ReasonBadTopic, ReasonBadCertificate, ReasonBadCertificateEnvironment, ReasonForbidden,
     ReasonMissingTopic, ReasonTopicDisallowed, ReasonUnregistered, ReasonDeviceTokenNotForTopic,
     ReasonDuplicateHeaders, ReasonBadPath, ReasonMethodNotAllowed, ReasonIdleTimeout,
     ReasonShutdown, ReasonInternalServerError, ReasonServiceUnavailable, ReasonExpiredProviderToken,
     ReasonInvalidProviderToken, ReasonMissingProviderToken]"

definition all_keys :: "string list" where
  "all_keys =
    [''payload-empty'', ''payload-too-large'', ''missing-device-token'', ''bad-device-token'',
     ''too-many-requests'', ''bad-message-id'', ''bad-expiration-date'', ''bad-priority'',
     ''bad-topic'', ''bad-certificate'', ''bad-certificate-environment'', ''forbidden'',
     ''missing-topic'', ''topic-disallowed'', ''unregistered'', ''device-token-not-for-topic'',
     ''duplicate-headers'', ''bad-path'', ''method-not-allowed'', ''idle-timeout'',
     ''shutdown'', ''internal-server-error'', ''service-unavailable'', ''expired-provider-token'',
     ''invalid-provider-token'', ''missing-provider-token'']"

lemma all_reasons: "x \<in> set all_reasons"
  by (cases x) (simp_all add: all_reasons_def)

lemma all_keys: "distinct all_keys" "''unexpected'' \<notin> set all_keys" "length all_keys = length all_reasons"
    "distinct all_reasons"
  by code_simp+

lemma mapErrorReason_zip:
  "mapErrorReason rc reason =
    (case map_of (zip (map rc all_reasons) all_keys) reason of Some key \<Rightarrow> key | None \<Rightarrow> ''unexpected'')"
  by (simp only: mapErrorReason_def all_reasons_def all_keys_def list.map zip_Cons_Cons zip_Nil)

lemma mapErrorReason_nth:
  assumes "inj rc" "i < length all_reasons"
  shows "mapErrorReason rc (rc (all_reasons ! i)) = all_keys ! i"
proof -
  have "distinct (map rc all_reasons)"
    using all_keys(4) assms(1) by (simp add: distinct_map inj_on_subset [of rc UNIV])
  then have "map_of (zip (map rc all_reasons) all_keys) (map rc all_reasons ! i) = Some (all_keys ! i)"
    using assms(2) all_keys(3) by (intro map_of_zip_nth) simp_all
  then show ?thesis using assms(2) by (simp add: mapErrorReason_zip)
qed

text \<open>
  The mapping of APNS reasons to the keys of the metrics loses nothing: two different
  reasons of the library have different keys, none of them is the key of an unexpected reason, and
  any other text has that key.
\<close>

lemma mapErrorReason_injective:
  assumes "inj rc"
  shows "(mapErrorReason rc (rc x) = mapErrorReason rc (rc y) \<longleftrightarrow> x = y)
    \<and> (mapErrorReason rc reason = ''unexpected'' \<longleftrightarrow> reason \<notin> range rc)"
proof -
  have nth: "\<exists>i < length all_reasons. x = all_reasons ! i" for x
    using all_reasons [of x] by (auto simp: in_set_conv_nth)
  have "mapErrorReason rc (rc x) \<in> set all_keys" for x
    using nth [of x] mapErrorReason_nth [OF assms] all_keys(3) by auto
  moreover have "mapErrorReason rc reason = ''unexpected''" if "reason \<notin> range rc"
  proof -
    have "map_of (zip (map rc all_reasons) all_keys) reason = None"
      using that by (auto simp: map_of_eq_None_iff dest!: set_zip_leftD)
    then show ?thesis by (simp add: mapErrorReason_zip)
  qed
  moreover have "x = y" if "mapErrorReason rc (rc x) = mapErrorReason rc (rc y)"
    using that nth [of x] nth [of y] mapErrorReason_nth [OF assms] all_keys(1,3)
    by (metis nth_eq_iff_index_eq)
  ultimately show ?thesis using all_keys(2) by (metis rangeE)
qed

text \<open>The reasons as Apple documents them, for the examples.\<close>

fun apple_reason :: "reason \<Rightarrow> string" where
  "apple_reason ReasonPayloadEmpty = ''PayloadEmpty''"
| "apple_reason ReasonPayloadTooLarge = ''PayloadTooLarge''"
| "apple_reason ReasonMissingDeviceToken = ''MissingDeviceToken''"
| "apple_reason ReasonBadDeviceToken = ''BadDeviceToken''"
| "apple_reason ReasonTooManyRequests = ''TooManyRequests''"
| "apple_reason ReasonBadMessageID = ''BadMessageId''"
| "apple_reason ReasonBadExpirationDate = ''BadExpirationDate''"
| "apple_reason ReasonBadPriority = ''BadPriority''"
| "apple_reason ReasonBadTopic = ''BadTopic''"
| "apple_reason ReasonBadCertificate = ''BadCertificate''"
| "apple_reason ReasonBadCertificateEnvironment = ''BadCertificateEnvironment''"
| "apple_reason ReasonForbidden = ''Forbidden''"
| "apple_reason ReasonMissingTopic = ''MissingTopic''"
| "apple_reason ReasonTopicDisallowed = ''TopicDisallowed''"
| "apple_reason ReasonUnregistered = ''Unregistered''"
| "apple_reason ReasonDeviceTokenNotForTopic = ''DeviceTokenNotForTopic''"
| "apple_reason ReasonDuplicateHeaders = ''DuplicateHeaders''"
| "apple_reason ReasonBadPath = ''BadPath''"
| "apple_reason ReasonMethodNotAllowed = ''MethodNotAllowed''"
| "apple_reason ReasonIdleTimeout = ''IdleTimeout''"
| "apple_reason ReasonShutdown = ''Shutdown''"
| "apple_reason ReasonInternalServerError = ''InternalServerError''"
| "apple_reason ReasonServiceUnavailable = ''ServiceUnavailable''"
| "apple_reason ReasonExpiredProviderToken = ''ExpiredProviderToken''"
| "apple_reason ReasonInvalidProviderToken = ''InvalidProviderToken''"
| "apple_reason ReasonMissingProviderToken = ''MissingProviderToken''"

lemma inj_apple_reason: "inj apple_reason"
proof -
  have "distinct (map apple_reason all_reasons)" by code_simp
  then have "inj_on apple_reason (set all_reasons)" by (simp only: distinct_map)
  moreover have "set all_reasons = UNIV" using all_reasons by blast
  ultimately show ?thesis by simp
qed

lemma mapErrorReason_injective_example:
  "mapErrorReason apple_reason ''NoSuchReason'' = ''unexpected''"
proof -
  have "apple_reason x \<noteq> ''NoSuchReason''" for x by (cases x) simp_all
  then have "''NoSuchReason'' \<notin> range apple_reason" by (metis rangeE)
  then show ?thesis using mapErrorReason_injective [OF inj_apple_reason] by blast
qed

section \<open>Metadata\<close>

text \<open>
  The metadata of a message in its payload: where the payload is an object (or
  missing) and its entry \<open>M\<close> is one (or nil), \<open>M\<close> gets exactly the metadata entries it has no
  value for, and everything else of the payload is kept; the order of the entries does not matter.
\<close>

lemma metadata_merged:
  assumes "p_Metadata n = Some md" "distinct (map fst md)" "p_Payload n = GMap p"
    and "map_at p ''M'' = (case old of None \<Rightarrow> GNil | Some m \<Rightarrow> GMap m)"
  shows "\<exists>p' m'. p_Payload (addMetadataToPayload n) = GMap p' \<and> map_at p' ''M'' = GMap m'
    \<and> (\<forall>k. map_at m' k = (if map_at (case old of None \<Rightarrow> [] | Some m \<Rightarrow> m) k = GNil then map_at md k
            else map_at (case old of None \<Rightarrow> [] | Some m \<Rightarrow> m) k))
    \<and> (\<forall>k. k = ''M'' \<or> map_at p' k = map_at p k)
    \<and> p_Metadata (addMetadataToPayload n) = Some md"
  using assms by (cases old) (auto simp: addMetadataToPayload_def add_missing_at)

lemma metadata_merged_example:
  "let n = empty_message\<lparr>p_Metadata := Some [(''id'', GStr ''7'')], p_Payload := GMap [(''aps'', GStr ''hi'')]\<rparr> in
   \<exists>p' m'. p_Payload (addMetadataToPayload n) = GMap p' \<and> map_at p' ''M'' = GMap m'
     \<and> map_at m' ''id'' = GStr ''7'' \<and> map_at p' ''aps'' = GStr ''hi''"
proof -
  let ?n = "empty_message\<lparr>p_Metadata := Some [(''id'', GStr ''7'')], p_Payload := GMap [(''aps'', GStr ''hi'')]\<rparr>"
  from metadata_merged [of ?n "[(''id'', GStr ''7'')]" "[(''aps'', GStr ''hi'')]" None]
  obtain p' m' where "p_Payload (addMetadataToPayload ?n) = GMap p'" "map_at p' ''M'' = GMap m'"
    and m: "\<forall>k. map_at m' k = (if map_at [] k = GNil then map_at [(''id'', GStr ''7'')] k else map_at [] k)"
    and p: "\<forall>k. k = ''M'' \<or> map_at p' k = map_at [(''aps'', GStr ''hi'')] k"
    by (auto simp: map_at_def)
  moreover have "map_at m' ''id'' = GStr ''7''" using m by (simp add: map_at_def)
  moreover have "map_at p' ''aps'' = GStr ''hi''" using p [THEN spec, of "''aps''"] by (simp add: map_at_def)
  ultimately show ?thesis unfolding Let_def by blast
qed

text \<open>
  The metadata of a failed response: its notification's, without the timestamp that
  goes into the field of its own; it asks for the deletion of the token if the reason is one of
  the four that mean a dead token, and is left alone otherwise.
\<close>

lemma failed_response_metadata:
  assumes "n_Metadata (r_Notification r) = Some m"
  shows "\<exists>m'. r_Metadata (failed_response rc r) = Some m' \<and> n_Metadata (r_Notification (failed_response rc r)) = Some m'
    \<and> (\<forall>k. map_at m' k =
        (if k = ''deleteToken'' \<and> r_Reason r \<in> set (map rc bad_token_reasons) then GBool True
         else if k = ''timestamp'' then GNil else map_at m k))
    \<and> r_Timestamp (failed_response rc r) = (case map_at m ''timestamp'' of GInt ts \<Rightarrow> ts | _ \<Rightarrow> r_Timestamp r)
    \<and> r_DeviceToken (failed_response rc r) = r_DeviceToken r \<and> r_Reason (failed_response rc r) = r_Reason r"
  using assms
  by (auto simp: failed_response_def take_metadata_def mark_deleteToken_def Let_def split: gval.split)

definition sample_response :: ResponseWithMetadata where
  "sample_response = \<lparr>r_Sent = False, r_StatusCode = i64 410, r_Reason = ''Unregistered'', r_ApnsID = ''u1'',
     r_Err = None, r_DeviceToken = ''tok'', r_Timestamp = 0, r_Metadata = None, r_Notification =
       \<lparr>n_Topic = ''com.g'', n_DeviceToken = ''tok'', n_Payload = ''{}'', n_ApnsID = ''u1'', n_CollapseID = '''',
        n_Metadata = Some [(''timestamp'', GInt (i64 5)), (''game'', GStr ''g'')], n_SendAttempts = i64 1\<rparr>\<rparr>"

lemma failed_response_metadata_example:
  "\<exists>m'. r_Metadata (failed_response apple_reason sample_response) = Some m'
     \<and> map_at m' ''deleteToken'' = GBool True \<and> map_at m' ''timestamp'' = GNil \<and> map_at m' ''game'' = GStr ''g''"
proof -
  have "n_Metadata (r_Notification sample_response) = Some [(''timestamp'', GInt (i64 5)), (''game'', GStr ''g'')]"
    by (simp add: sample_response_def)
  from failed_response_metadata [OF this, of apple_reason]
  show ?thesis by (auto simp: sample_response_def bad_token_reasons_def map_at_def)
qed


section \<open>Attempts and labels\<close>

lemma unat_nonneg: "0 \<le> int_of x \<Longrightarrow> unat (bits64 x) = nat (int_of x)"
proof -
  assume "0 \<le> int_of x"
  moreover have "uint (bits64 x) = take_bit 64 (sint (bits64 x))"
    using uint_sint [of "bits64 x"] by simp
  moreover have "int_of x < 2 ^ 63" using int_of_range [of x] by (simp add: in_int64_def)
  ultimately have "uint (bits64 x) = int_of x"
    by (simp add: int_of_def take_bit_int_eq_self)
  then show ?thesis by (metis nat_uint_eq)
qed

lemma int_of_Suc: "int_of x < 2 ^ 63 - 1 \<Longrightarrow> int_of (x + i64 1) = int_of x + 1"
proof -
  assume "int_of x < 2 ^ 63 - 1"
  moreover have one: "int_of (i64 1) = 1" by (simp add: in_int64_def)
  ultimately have "in_int64 (int_of x + int_of (i64 1))"
    using int_of_range [of x] by (simp add: in_int64_def)
  then have "int_of (x + i64 1) = int_of x + int_of (i64 1)" by (rule int_of_plus)
  then show ?thesis by (simp only: one)
qed

text \<open>
  Retries are bounded: a retried notification has one attempt more than before and at
  most the configured number, and once it has that many no response retries it again.
\<close>

lemma retry_bounded:
  assumes "0 \<le> int_of (n_SendAttempts (r_Notification r))" "int (h_maxRetryAttempts a) < 2 ^ 63"
  shows "case started (handleAPNSResponse F MJ rc env a r) of
      [] \<Rightarrow> r_Reason r \<noteq> rc ReasonTooManyRequests \<or> int (h_maxRetryAttempts a) \<le> int_of (n_SendAttempts (r_Notification r))
    | n # ns \<Rightarrow> ns = [] \<and> r_Reason r = rc ReasonTooManyRequests
        \<and> int_of (n_SendAttempts n) = int_of (n_SendAttempts (r_Notification r)) + 1
        \<and> int_of (n_SendAttempts n) \<le> int (h_maxRetryAttempts a)"
proof -
  have "started (handleAPNSResponse F MJ rc env a r) = (if is_retried rc a r then [sent_once (r_Notification r)] else [])"
    by (auto simp: handleAPNSResponse_def Let_def)
  then show ?thesis
    using int_of_Suc [of "n_SendAttempts (r_Notification r)"] unat_nonneg [OF assms(1)] assms
    by (auto simp: is_retried_def)
qed

definition sample_handler :: APNSMessageHandler where
  "sample_handler = \<lparr>h_feedbackReporters = [0], h_StatsReporters = [0], h_appName = ''g'', h_ApnsTopic = ''com.g'',
     h_retryInterval = i64 1000000000, h_maxRetryAttempts = 3, h_hasWG = True\<rparr>"

definition sample_env :: env where
  "sample_env = \<lparr>os_Hostname = Some ''host'', uuid_V4 = ''u1'', time_Unix = i64 5, time_UnixNano = i64 5000000000, time_Since = 0\<rparr>"

lemma retry_bounded_example:
  "started (handleAPNSResponse sample_floats (\<lambda>n. Some JNull) apple_reason sample_env sample_handler
      (sample_response\<lparr>r_Reason := ''TooManyRequests'', r_Notification := (r_Notification sample_response)\<lparr>n_SendAttempts := i64 3\<rparr>\<rparr>)) = []"
proof -
  let ?r = "sample_response\<lparr>r_Reason := ''TooManyRequests'',
      r_Notification := (r_Notification sample_response)\<lparr>n_SendAttempts := i64 3\<rparr>\<rparr>"
  have three: "int_of (n_SendAttempts (r_Notification ?r)) = 3" by (simp add: in_int64_def)
  have max: "h_maxRetryAttempts sample_handler = 3" by (simp add: sample_handler_def)
  show ?thesis
    using retry_bounded [where r = ?r and a = sample_handler and F = sample_floats and MJ = "\<lambda>n. Some JNull"
        and rc = apple_reason and env = sample_env] unfolding three max
    by (auto split: list.splits)
qed

end
