(* ===== verification/Apns_Pipeline.thy ===== *)
theory Apns_Pipeline
  imports Apns_Handler
begin

text \<open>
  The APNS pipeline as a state machine: the consumer that counts a message in the wait group and
  sends it (\<^verbatim>\<open>extensions/kafka_consumer.go\<close>), \<open>routeMessages\<close> of \<^verbatim>\<open>pusher/pusher.go\<close>, the push
  queue with its workers (\<^verbatim>\<open>extensions/apns/apns_push_queue.go\<close>), and \<open>HandleResponses\<close> of
  the handler.  A step is what one goroutine does between two channel operations that can block;
  the channels are bounded.  One app is configured; a message of any other game is dropped.
\<close>

section \<open>The push queue\<close>

record apns2_Response =
  res_StatusCode :: int64
  res_Reason :: string
  res_ApnsID :: string
  res_Sent :: bool

definition worker_response :: "ApnsNotification \<Rightarrow> apns2_Response \<Rightarrow> ResponseWithMetadata" where
  "worker_response n res =
     \<lparr>r_Sent = res_Sent res, r_StatusCode = res_StatusCode res, r_Reason = res_Reason res, r_ApnsID = res_ApnsID res,
      r_Err = None, r_DeviceToken = n_DeviceToken n, r_Timestamp = 0, r_Metadata = None, r_Notification = n\<rparr>"

text \<open>
  A worker waits on the push channel, has a notification and waits for a client of the pool, is in the library's
  \<open>Push\<close>, or sends a response.  It puts the client back before it uses it, into the room it has just made, so
  that the pool is as full again as it ever was.
\<close>

datatype worker = Waiting | Taking_client ApnsNotification | Sending ApnsNotification | Replying ResponseWithMetadata

text \<open>What a worker does when \<open>Push\<close> returns: without a response it goes on to the next notification.\<close>

fun pushWorker :: "ApnsNotification \<Rightarrow> apns2_Response option \<Rightarrow> worker" where
  "pushWorker n None = Waiting"
| "pushWorker n (Some res) = Replying (worker_response n res)"

section \<open>The state and its steps\<close>

record 'w pipeline =
  wg :: int
  consumer :: "KafkaMessage option"
  msgChan :: "KafkaMessage list"
  router :: "ApnsNotification option"
  pushChannel :: "ApnsNotification list"
  workers :: "worker list"
  responseChannel :: "ResponseWithMetadata list"
  retrier :: "ApnsNotification option"
  dropped :: nat
  lost :: nat
  world :: 'w

record capacities =
  msgChan_size :: nat
  pushQueueSize :: nat
  responseChannelSize :: nat
  concurrentWorkers :: nat
  connectionPoolSize :: nat

definition initial :: "capacities \<Rightarrow> 'w \<Rightarrow> 'w pipeline" where
  "initial c w = \<lparr>wg = 0, consumer = None, msgChan = [], router = None, pushChannel = [],
     workers = replicate (concurrentWorkers c) Waiting, responseChannel = [], retrier = None,
     dropped = 0, lost = 0, world = w\<rparr>"

abbreviation first_started :: "'n effect list \<Rightarrow> 'n option" where
  "first_started es \<equiv> (case started es of [] \<Rightarrow> None | n # _ \<Rightarrow> Some n)"

text \<open>The steps of everything but the consumer's reading of Kafka.\<close>

inductive pipe_step ::
    "float_ops \<Rightarrow> 'w services \<Rightarrow> (ApnsNotification \<Rightarrow> json option) \<Rightarrow> (reason \<Rightarrow> string) \<Rightarrow> APNSMessageHandler \<Rightarrow> capacities
      \<Rightarrow> 'w pipeline \<Rightarrow> 'w pipeline \<Rightarrow> bool" for F D MJ rc a c where
  consumer_sends: "consumer s = Some m \<Longrightarrow> length (msgChan s) < msgChan_size c
    \<Longrightarrow> pipe_step F D MJ rc a c s (s\<lparr>consumer := None, msgChan := msgChan s @ [m]\<rparr>)"
| route_drops: "router s = None \<Longrightarrow> msgChan s = m # ms \<Longrightarrow> km_Game m \<noteq> h_appName a
    \<Longrightarrow> pipe_step F D MJ rc a c s (s\<lparr>msgChan := ms, dropped := Suc (dropped s)\<rparr>)"
| route_handles: "router s = None \<Longrightarrow> msgChan s = m # ms \<Longrightarrow> km_Game m = h_appName a
    \<Longrightarrow> HandleMessages F D env a m (world s) = (es, w)
    \<Longrightarrow> pipe_step F D MJ rc a c s (s\<lparr>msgChan := ms, wg := wg s - int (dones es), router := first_started es, world := w\<rparr>)"
| router_pushes: "router s = Some n \<Longrightarrow> length (pushChannel s) < pushQueueSize c
    \<Longrightarrow> pipe_step F D MJ rc a c s (s\<lparr>router := None, pushChannel := pushChannel s @ [n]\<rparr>)"
| worker_takes: "i < length (workers s) \<Longrightarrow> workers s ! i = Waiting \<Longrightarrow> pushChannel s = n # ns
    \<Longrightarrow> pipe_step F D MJ rc a c s (s\<lparr>pushChannel := ns, workers := (workers s)[i := Taking_client n]\<rparr>)"
| worker_gets_client: "i < length (workers s) \<Longrightarrow> workers s ! i = Taking_client n \<Longrightarrow> 0 < connectionPoolSize c
    \<Longrightarrow> pipe_step F D MJ rc a c s (s\<lparr>workers := (workers s)[i := Sending n]\<rparr>)"
| worker_sent: "i < length (workers s) \<Longrightarrow> workers s ! i = Sending n
    \<Longrightarrow> pipe_step F D MJ rc a c s (s\<lparr>workers := (workers s)[i := pushWorker n res],
          lost := lost s + (case res of None \<Rightarrow> 1 | Some _ \<Rightarrow> 0)\<rparr>)"
| worker_replies: "i < length (workers s) \<Longrightarrow> workers s ! i = Replying r \<Longrightarrow> length (responseChannel s) < responseChannelSize c
    \<Longrightarrow> pipe_step F D MJ rc a c s (s\<lparr>workers := (workers s)[i := Waiting], responseChannel := responseChannel s @ [r]\<rparr>)"
| response_handled: "retrier s = None \<Longrightarrow> responseChannel s = r # rs \<Longrightarrow> handleAPNSResponse F MJ rc env a r = es
    \<Longrightarrow> pipe_step F D MJ rc a c s (s\<lparr>responseChannel := rs, wg := wg s - int (dones es), retrier := first_started es\<rparr>)"
| retrier_pushes: "retrier s = Some n \<Longrightarrow> length (pushChannel s) < pushQueueSize c
    \<Longrightarrow> pipe_step F D MJ rc a c s (s\<lparr>retrier := None, pushChannel := pushChannel s @ [n]\<rparr>)"

text \<open>Reading a message counts it in the wait group before it is sent to the channel.\<close>

definition receiveMessage_counts :: "KafkaMessage \<Rightarrow> 'w pipeline \<Rightarrow> 'w pipeline" where
  "receiveMessage_counts m s = s\<lparr>consumer := Some m, wg := wg s + 1\<rparr>"

inductive pipe_reach ::
    "float_ops \<Rightarrow> 'w services \<Rightarrow> (ApnsNotification \<Rightarrow> json option) \<Rightarrow> (reason \<Rightarrow> string) \<Rightarrow> APNSMessageHandler \<Rightarrow> capacities
      \<Rightarrow> 'w \<Rightarrow> 'w pipeline \<Rightarrow> bool" for F D MJ rc a c w where
  start: "pipe_reach F D MJ rc a c w (initial c w)"
| read: "pipe_reach F D MJ rc a c w s \<Longrightarrow> consumer s = None \<Longrightarrow> pipe_reach F D MJ rc a c w (receiveMessage_counts m s)"
| step: "pipe_reach F D MJ rc a c w s \<Longrightarrow> pipe_step F D MJ rc a c s t \<Longrightarrow> pipe_reach F D MJ rc a c w t"

section \<open>The load of the pipeline\<close>

text \<open>
  The sum of a weight over everything in the pipeline, by where it is.  With the weight one it
  counts what is in flight; with weights that fall along the way it bounds the steps to come.
\<close>

datatype place = At_router | In_push | At_pool | At_worker | At_reply | In_responses | At_retrier

fun worker_load :: "(place \<Rightarrow> ApnsNotification \<Rightarrow> nat) \<Rightarrow> worker \<Rightarrow> nat" where
  "worker_load f Waiting = 0"
| "worker_load f (Taking_client n) = f At_pool n"
| "worker_load f (Sending n) = f At_worker n"
| "worker_load f (Replying r) = f At_reply (r_Notification r)"

definition load :: "nat \<Rightarrow> nat \<Rightarrow> (place \<Rightarrow> ApnsNotification \<Rightarrow> nat) \<Rightarrow> 'w pipeline \<Rightarrow> nat" where
  "load x y f s =
     (case consumer s of None \<Rightarrow> 0 | Some _ \<Rightarrow> x) + y * length (msgChan s)
     + (case router s of None \<Rightarrow> 0 | Some n \<Rightarrow> f At_router n)
     + sum_list (map (f In_push) (pushChannel s)) + sum_list (map (worker_load f) (workers s))
     + sum_list (map (\<lambda>r. f In_responses (r_Notification r)) (responseChannel s))
     + (case retrier s of None \<Rightarrow> 0 | Some n \<Rightarrow> f At_retrier n)"

definition in_flight :: "'w pipeline \<Rightarrow> nat" where
  "in_flight s = load 1 1 (\<lambda>_ _. 1) s"

lemma HandleMessages_one:
  "h_hasWG a \<Longrightarrow> length (started (fst (HandleMessages F D env a m w))) + dones (fst (HandleMessages F D env a m w)) = 1"
proof -
  assume "h_hasWG a"
  then have "a\<lparr>h_hasWG := True\<rparr> = a" by (cases a) simp
  then show ?thesis using apns.settles [of F D env a m w] by simp
qed

lemma handleAPNSResponse_one:
  "h_hasWG a \<Longrightarrow> length (started (handleAPNSResponse F MJ rc env a r)) + dones (handleAPNSResponse F MJ rc env a r) = 1"
  by (auto simp: handleAPNSResponse_def Let_def)

lemma handleAPNSResponse_started:
  "started (handleAPNSResponse F MJ rc env a r) = (if is_retried rc a r then [sent_once (r_Notification r)] else [])"
  by (auto simp: handleAPNSResponse_def Let_def)

lemma pipe_step_accounts:
  assumes "h_hasWG a" "pipe_step F D MJ rc a c s t"
    "wg s = int (in_flight s + lost s + dropped s)"
  shows "wg t = int (in_flight t + lost t + dropped t)"
  using assms(2)
proof (cases rule: pipe_step.cases)
  case (route_handles m ms env es w)
  have "length (started es) + dones es = 1"
    using HandleMessages_one [OF assms(1), of F D env m "world s"] route_handles by simp
  then consider "started es = []" "dones es = 1" | n where "started es = [n]" "dones es = 0"
    by (cases "started es") auto
  then show ?thesis
    using route_handles assms(3) by cases (simp_all add: in_flight_def load_def)
next
  case (worker_takes i n ns)
  with assms(3) sum_list_update_nat [of i "workers s" "worker_load (\<lambda>_ _. 1)" "Taking_client n"]
  show ?thesis by (simp add: in_flight_def load_def)
next
  case (worker_gets_client i n)
  with assms(3) sum_list_update_nat [of i "workers s" "worker_load (\<lambda>_ _. 1)" "Sending n"]
  show ?thesis by (simp add: in_flight_def load_def)
next
  case (worker_sent i n res)
  with assms(3) sum_list_update_nat [of i "workers s" "worker_load (\<lambda>_ _. 1)" "pushWorker n res"]
  show ?thesis by (cases res) (simp_all add: in_flight_def load_def)
next
  case (worker_replies i r)
  with assms(3) sum_list_update_nat [of i "workers s" "worker_load (\<lambda>_ _. 1)" "Waiting"]
  show ?thesis by (simp add: in_flight_def load_def)
next
  case (response_handled r rs env es)
  have "length (started es) + dones es = 1"
    using handleAPNSResponse_one [OF assms(1), of F MJ rc env r] response_handled by simp
  then consider "started es = []" "dones es = 1" | n where "started es = [n]" "dones es = 0"
    by (cases "started es") auto
  then show ?thesis
    using response_handled assms(3) by cases (simp_all add: in_flight_def load_def)
qed (use assms(3) in \<open>simp_all add: in_flight_def load_def\<close>)

text \<open>
  The wait group in every reachable state is exactly the number of messages in flight, plus those lost because the push
  returned no response, plus those dropped because their game has no handler: no message is settled twice, and
  the messages of the last two kinds hold up every shutdown.
\<close>

lemma pipe_accounts:
  assumes "h_hasWG a"
  shows "pipe_reach F D MJ rc a c w s \<Longrightarrow> wg s = int (in_flight s + lost s + dropped s)"
proof (induction rule: pipe_reach.induct)
  case start
  then show ?case by (simp add: initial_def in_flight_def load_def sum_list_replicate_zero)
next
  case (read s m)
  then show ?case by (simp add: receiveMessage_counts_def in_flight_def load_def)
next
  case (step s t)
  then show ?case using pipe_step_accounts [OF assms] by blast
qed

text \<open>Where nothing is in flight nothing moves.\<close>

lemma idle_worker:
  assumes "in_flight q = 0" "i < length (workers q)"
  shows "workers q ! i = Waiting"
proof -
  have "\<forall>x \<in> set (workers q). worker_load (\<lambda>_ _. 1) x = 0" using assms(1) by (simp add: in_flight_def load_def)
  then have "worker_load (\<lambda>_ _. 1) (workers q ! i) = 0" using assms(2) by simp
  then show ?thesis by (cases "workers q ! i") auto
qed

lemma nothing_moves:
  assumes "in_flight q = 0"
  shows "\<not> pipe_step F D MJ rc a c q q'"
proof
  assume "pipe_step F D MJ rc a c q q'"
  then show False
    using idle_worker [OF assms] assms by (cases rule: pipe_step.cases) (auto simp: in_flight_def load_def)
qed

section \<open>Attempts\<close>

fun worker_all :: "(ApnsNotification \<Rightarrow> bool) \<Rightarrow> worker \<Rightarrow> bool" where
  "worker_all P Waiting = True"
| "worker_all P (Taking_client n) = P n"
| "worker_all P (Sending n) = P n"
| "worker_all P (Replying r) = P (r_Notification r)"

definition everywhere :: "(ApnsNotification \<Rightarrow> bool) \<Rightarrow> 'w pipeline \<Rightarrow> bool" where
  "everywhere P s \<longleftrightarrow> pred_option P (router s) \<and> list_all P (pushChannel s) \<and> list_all (worker_all P) (workers s)
     \<and> list_all (\<lambda>r. P (r_Notification r)) (responseChannel s) \<and> pred_option P (retrier s)"

lemma list_all_nth: "list_all P xs \<Longrightarrow> i < length xs \<Longrightarrow> P (xs ! i)"
  by (simp add: list_all_length)

lemma list_all_update: "list_all P xs \<Longrightarrow> P x \<Longrightarrow> list_all P (xs[i := x])"
  using set_update_subset_insert [of xs i x] by (auto simp: list_all_iff)

lemma everywhere_step:
  assumes "\<And>env m w n. n \<in> set (started (fst (HandleMessages F D env a m w))) \<Longrightarrow> P n"
    and "\<And>r env n. P (r_Notification r) \<Longrightarrow> n \<in> set (started (handleAPNSResponse F MJ rc env a r)) \<Longrightarrow> P n"
    and "pipe_step F D MJ rc a c s t" "everywhere P s"
  shows "everywhere P t"
  using assms(3)
proof (cases rule: pipe_step.cases)
  case (route_handles m ms env es w)
  then have "list_all P (started es)"
    using assms(1) [of _ env m "world s"] by (simp add: list_all_iff)
  then show ?thesis
    using route_handles assms(4) by (cases "started es") (auto simp: everywhere_def)
next
  case (worker_takes i n ns)
  with assms(4) show ?thesis by (simp add: everywhere_def list_all_update)
next
  case (worker_gets_client i n)
  with assms(4) list_all_nth [of "worker_all P" "workers s" i] show ?thesis
    by (simp add: everywhere_def list_all_update)
next
  case (worker_sent i n res)
  with assms(4) list_all_nth [of "worker_all P" "workers s" i] show ?thesis
    by (cases res) (simp_all add: everywhere_def list_all_update worker_response_def)
next
  case (worker_replies i r)
  with assms(4) list_all_nth [of "worker_all P" "workers s" i] show ?thesis
    by (simp add: everywhere_def list_all_update)
next
  case (response_handled r rs env es)
  then have "P (r_Notification r)" using assms(4) by (simp add: everywhere_def)
  then have "list_all P (started es)"
    using assms(2) [of r _ env] response_handled by (auto simp: list_all_iff)
  then show ?thesis
    using response_handled assms(4) by (cases "started es") (auto simp: everywhere_def)
qed (use assms(4) in \<open>simp_all add: everywhere_def\<close>)

lemma everywhere_reach:
  assumes "\<And>env m w n. n \<in> set (started (fst (HandleMessages F D env a m w))) \<Longrightarrow> P n"
    and "\<And>r env n. P (r_Notification r) \<Longrightarrow> n \<in> set (started (handleAPNSResponse F MJ rc env a r)) \<Longrightarrow> P n"
  shows "pipe_reach F D MJ rc a c w s \<Longrightarrow> everywhere P s"
proof (induction rule: pipe_reach.induct)
  case start
  then show ?case by (simp add: everywhere_def initial_def list_all_iff)
next
  case (read s m)
  then show ?case by (simp add: receiveMessage_counts_def everywhere_def)
next
  case (step s t)
  show ?case
    by (rule everywhere_step [OF _ _ step.hyps(2) step.IH]) (fact assms)+
qed

definition attempts_ok :: "APNSMessageHandler \<Rightarrow> ApnsNotification \<Rightarrow> bool" where
  "attempts_ok a n \<longleftrightarrow> 1 \<le> int_of (n_SendAttempts n) \<and> int_of (n_SendAttempts n) \<le> max 1 (int (h_maxRetryAttempts a))"

lemma attempts_new: "n \<in> set (started (fst (HandleMessages F D env a m w))) \<Longrightarrow> n_SendAttempts n = i64 1"
proof -
  have "n_SendAttempts n' = 0" if "buildAndValidateNotification F env a p = Some n'" for p n'
    using that by (auto simp: buildAndValidateNotification_def split: if_splits option.splits)
  moreover have "0 + i64 1 = i64 1" by (simp add: plus_int64_i64 in_int64_def)
  ultimately have "list_all (\<lambda>n. n_SendAttempts n = i64 1) (started (fst (HandleMessages F D env a m w)))"
    by (simp add: HandleMessages_started split: option.split)
  then show "n \<in> set (started (fst (HandleMessages F D env a m w))) \<Longrightarrow> n_SendAttempts n = i64 1"
    by (simp add: list_all_iff)
qed

lemma attempts_retry:
  assumes "int (h_maxRetryAttempts a) < 2 ^ 63" "attempts_ok a (r_Notification r)"
    and "n \<in> set (started (handleAPNSResponse F MJ rc env a r))"
  shows "n = sent_once (r_Notification r)"
    and "int_of (n_SendAttempts n) = int_of (n_SendAttempts (r_Notification r)) + 1"
    and "int_of (n_SendAttempts n) \<le> int (h_maxRetryAttempts a)"
proof -
  show n: "n = sent_once (r_Notification r)"
    using assms(3) by (auto simp: handleAPNSResponse_started split: if_splits)
  have "nat (int_of (n_SendAttempts (r_Notification r))) < h_maxRetryAttempts a"
    using assms(2,3) unat_nonneg [of "n_SendAttempts (r_Notification r)"]
    by (auto simp: handleAPNSResponse_started is_retried_def attempts_ok_def split: if_splits)
  then have less: "int_of (n_SendAttempts (r_Notification r)) < int (h_maxRetryAttempts a)" by linarith
  then show eq: "int_of (n_SendAttempts n) = int_of (n_SendAttempts (r_Notification r)) + 1"
    using int_of_Suc [of "n_SendAttempts (r_Notification r)"] assms(1) n by simp
  show "int_of (n_SendAttempts n) \<le> int (h_maxRetryAttempts a)"
    using less eq by linarith
qed

lemma attempts_ok_new: "n \<in> set (started (fst (HandleMessages F D env a m w))) \<Longrightarrow> attempts_ok a n"
proof -
  assume n: "n \<in> set (started (fst (HandleMessages F D env a m w)))"
  have one: "int_of (i64 1) = 1" by (simp add: in_int64_def)
  show ?thesis using attempts_new [OF n] by (simp add: attempts_ok_def one)
qed

lemma attempts_ok_retry:
  assumes "int (h_maxRetryAttempts a) < 2 ^ 63" "attempts_ok a (r_Notification r)"
    and "n \<in> set (started (handleAPNSResponse F MJ rc env a r))"
  shows "attempts_ok a n"
  using attempts_retry [OF assms] assms(2) by (simp add: attempts_ok_def)

lemma attempts_everywhere:
  assumes "int (h_maxRetryAttempts a) < 2 ^ 63" "pipe_reach F D MJ rc a c w s"
  shows "everywhere (attempts_ok a) s"
  by (rule everywhere_reach [OF attempts_ok_new attempts_ok_retry [OF assms(1)] assms(2)])

text \<open>
  \<^bold>\<open>C37\<close>  However the goroutines interleave, every notification anywhere in the pipeline has been
  attempted at least once and at most as often as the configuration says (once, if it says zero).
\<close>

theorem pipeline_attempts_bounded:
  assumes "int (h_maxRetryAttempts a) < 2 ^ 63" "pipe_reach F D MJ rc a c w s"
  shows "everywhere (\<lambda>n. 1 \<le> int_of (n_SendAttempts n) \<and>
    int_of (n_SendAttempts n) \<le> max 1 (int (h_maxRetryAttempts a))) s"
  using attempts_everywhere [OF assms] unfolding attempts_ok_def .

section \<open>The pipeline drains\<close>

definition attempts_left :: "APNSMessageHandler \<Rightarrow> ApnsNotification \<Rightarrow> nat" where
  "attempts_left a n = nat (int (h_maxRetryAttempts a) - int_of (n_SendAttempts n))"

fun place_weight :: "place \<Rightarrow> nat" where
  "place_weight At_router = 7"
| "place_weight In_push = 6"
| "place_weight At_pool = 5"
| "place_weight At_worker = 4"
| "place_weight At_reply = 3"
| "place_weight In_responses = 2"
| "place_weight At_retrier = 7"

definition weight :: "APNSMessageHandler \<Rightarrow> place \<Rightarrow> ApnsNotification \<Rightarrow> nat" where
  "weight a p n = 10 * attempts_left a n + place_weight p"

definition potential :: "APNSMessageHandler \<Rightarrow> 'w pipeline \<Rightarrow> nat" where
  "potential a s = load (10 * h_maxRetryAttempts a + 9) (10 * h_maxRetryAttempts a + 8) (weight a) s"

lemma potential_decreases:
  assumes "int (h_maxRetryAttempts a) < 2 ^ 63" "everywhere (attempts_ok a) s" "pipe_step F D MJ rc a c s t"
  shows "potential a t < potential a s"
  using assms(3)
proof (cases rule: pipe_step.cases)
  case (route_handles m ms env es w)
  show ?thesis
  proof (cases "started es")
    case Nil
    then show ?thesis using route_handles by (simp add: potential_def load_def)
  next
    case (Cons n ns)
    then have "n_SendAttempts n = i64 1"
      using attempts_new [of n F D env a m "world s"] route_handles by simp
    then have "attempts_left a n \<le> h_maxRetryAttempts a"
      by (simp add: attempts_left_def in_int64_def)
    then show ?thesis
      using route_handles Cons by (simp add: potential_def load_def weight_def)
  qed
next
  case (worker_takes i n ns)
  with sum_list_update_nat [of i "workers s" "worker_load (weight a)" "Taking_client n"]
  show ?thesis by (simp add: potential_def load_def weight_def)
next
  case (worker_gets_client i n)
  with sum_list_update_nat [of i "workers s" "worker_load (weight a)" "Sending n"]
  show ?thesis by (simp add: potential_def load_def weight_def)
next
  case (worker_sent i n res)
  with sum_list_update_nat [of i "workers s" "worker_load (weight a)" "pushWorker n res"]
  show ?thesis by (cases res) (simp_all add: potential_def load_def weight_def worker_response_def)
next
  case (worker_replies i r)
  with sum_list_update_nat [of i "workers s" "worker_load (weight a)" "Waiting"]
  show ?thesis by (simp add: potential_def load_def weight_def)
next
  case (response_handled r rs env es)
  show ?thesis
  proof (cases "started es")
    case Nil
    then show ?thesis using response_handled by (simp add: potential_def load_def weight_def)
  next
    case (Cons n ns)
    have ok: "attempts_ok a (r_Notification r)"
      using assms(2) response_handled by (simp add: everywhere_def)
    have "n \<in> set (started (handleAPNSResponse F MJ rc env a r))"
      using Cons response_handled by simp
    from attempts_retry(2,3) [OF assms(1) ok this]
    have "attempts_left a (r_Notification r) = Suc (attempts_left a n)"
      by (simp add: attempts_left_def)
    then show ?thesis
      using response_handled Cons by (simp add: potential_def load_def weight_def)
  qed
qed (simp_all add: potential_def load_def weight_def)

text \<open>
  Once the consumer stops reading, the pipeline comes to rest: from a reachable state no
  run of its goroutines is longer than the potential of the state, a number read off what is in
  flight and the retries it has left.
\<close>

lemma pipeline_drains:
  assumes "int (h_maxRetryAttempts a) < 2 ^ 63" "pipe_reach F D MJ rc a c w s"
    and "(pipe_step F D MJ rc a c ^^ k) s t"
  shows "k \<le> potential a s"
proof -
  have "pipe_reach F D MJ rc a c w t \<and> k + potential a t \<le> potential a s"
    using assms(3)
  proof (induction k arbitrary: t)
    case 0
    then show ?case using assms(2) by simp
  next
    case (Suc k)
    then obtain u where u: "pipe_reach F D MJ rc a c w u" "k + potential a u \<le> potential a s" "pipe_step F D MJ rc a c u t"
      by (auto elim: relcompp.cases)
    then show ?case
      using potential_decreases [OF assms(1) attempts_everywhere [OF assms(1) u(1)] u(3)] pipe_reach.step [OF u(1,3)]
      by simp
  qed
  then show ?thesis by simp
qed

section \<open>Where the pipeline can come to rest\<close>

text \<open>
  The retry deadlock: the only goroutine that empties the response channel waits to push a
  retried notification into a full push channel, and every worker waits for room for a response.
\<close>

definition retry_deadlock :: "capacities \<Rightarrow> 'w pipeline \<Rightarrow> bool" where
  "retry_deadlock c s \<longleftrightarrow> retrier s \<noteq> None \<and> pushQueueSize c \<le> length (pushChannel s)
     \<and> list_all (\<lambda>x. case x of Replying _ \<Rightarrow> True | _ \<Rightarrow> False) (workers s)
     \<and> responseChannelSize c \<le> length (responseChannel s)"

lemma workers_length: "pipe_reach F D MJ rc a c w s \<Longrightarrow> length (workers s) = concurrentWorkers c"
proof (induction rule: pipe_reach.induct)
  case (step s t)
  from step(2) show ?case by (cases rule: pipe_step.cases) (use step.IH in simp_all)
qed (simp_all add: initial_def receiveMessage_counts_def)

lemma rest_cases:
  assumes "\<And>t. \<not> pipe_step F D MJ rc a c s t"
    and "consumer s \<noteq> None \<Longrightarrow> 0 < msgChan_size c" "0 < pushQueueSize c" "0 < responseChannelSize c" "workers s \<noteq> []"
    and "0 < connectionPoolSize c"
  shows "in_flight s = 0 \<or> retry_deadlock c s"
proof -
  have sending: "workers s ! i \<noteq> Sending n" if "i < length (workers s)" for i n
    using assms(1) worker_sent [of i s n F D MJ rc a c None] that by blast
  have taking: "workers s ! i \<noteq> Taking_client n" if "i < length (workers s)" for i n
    using assms(1,6) worker_gets_client [of i s n c F D MJ rc a] that by blast
  have waiting: "pushChannel s = []" if "i < length (workers s)" "workers s ! i = Waiting" for i
    using assms(1) worker_takes [of i s _ _ F D MJ rc a c] that by (cases "pushChannel s") blast+
  have replying: "responseChannelSize c \<le> length (responseChannel s)" if "i < length (workers s)" "workers s ! i = Replying r" for i r
    using assms(1) worker_replies [of i s r c F D MJ rc a] that by (meson not_le)
  show ?thesis
  proof (cases "retrier s")
    case (Some n)
    then have full: "pushQueueSize c \<le> length (pushChannel s)"
      using assms(1) retrier_pushes [of s n c F D MJ rc a] by (meson not_le)
    then have "pushChannel s \<noteq> []" using assms(3) by auto
    then have all: "\<exists>r. workers s ! i = Replying r" if "i < length (workers s)" for i
      using sending [OF that] taking [OF that] waiting [OF that] by (cases "workers s ! i") auto
    moreover have "0 < length (workers s)" using assms(5) by simp
    ultimately obtain r where "workers s ! 0 = Replying r" by blast
    then have "responseChannelSize c \<le> length (responseChannel s)"
      using replying [of 0 r] \<open>0 < length (workers s)\<close> by blast
    moreover have "list_all (\<lambda>x. case x of Replying _ \<Rightarrow> True | _ \<Rightarrow> False) (workers s)"
      unfolding list_all_length using all by fastforce
    ultimately show ?thesis using Some full by (simp add: retry_deadlock_def)
  next
    case None
    have resp: "responseChannel s = []"
      using assms(1) response_handled [of s _ _ F MJ rc sample_env a _ D c] None
      by (cases "responseChannel s") (simp, metis)
    have idle: "workers s ! i = Waiting" if "i < length (workers s)" for i
      using sending [OF that] taking [OF that] replying [OF that] resp assms(4) by (cases "workers s ! i") auto
    have "0 < length (workers s)" using assms(5) by simp
    then have push: "pushChannel s = []" using waiting idle by blast
    have router: "router s = None"
      using assms(1,3) router_pushes [of s _ c F D MJ rc a] push by (cases "router s") (simp, metis list.size(3))
    have msgs: "msgChan s = []"
      using assms(1) router route_drops [of s _ _ a F D MJ rc c] route_handles [of s _ _ a F D sample_env]
      by (cases "msgChan s") (simp, metis surj_pair)
    have "consumer s = None"
      using assms(1,2) msgs consumer_sends [of s _ c F D MJ rc a] by (cases "consumer s") (simp, metis list.size(3))
    moreover have "sum_list (map (worker_load (\<lambda>_ _. 1)) (workers s)) = 0"
      unfolding sum_list_eq_0_nat using idle by (auto simp: in_set_conv_nth)
    ultimately show ?thesis using None resp push router msgs by (simp add: in_flight_def load_def)
  qed
qed


lemma sum_list_ones: "list_all (\<lambda>x. f x = (1 :: nat)) xs \<Longrightarrow> sum_list (map f xs) = length xs"
  by (induction xs) auto

lemma retry_deadlock_load:
  assumes "retry_deadlock c s"
  shows "pushQueueSize c + length (workers s) + responseChannelSize c < in_flight s"
proof -
  have "list_all (\<lambda>x. worker_load (\<lambda>_ _. 1) x = 1) (workers s)"
    using assms unfolding retry_deadlock_def list_all_iff by (fastforce split: worker.splits)
  then have "sum_list (map (worker_load (\<lambda>_ _. 1)) (workers s)) = length (workers s)"
    by (rule sum_list_ones)
  then show ?thesis
    using assms by (auto simp: retry_deadlock_def in_flight_def load_def sum_list_triv)
qed

text \<open>
  Where the pipeline comes to rest, with at least one worker and room for one in each
  channel: either nothing is in flight, and the wait group counts just what was lost or dropped, so
  that a shutdown succeeds exactly when there is none of either; or it is in the retry deadlock, which
  takes more messages in flight than the push channel, the workers and the response channel hold.
\<close>

lemma pipeline_rest:
  assumes "h_hasWG a" "pipe_reach F D MJ rc a c w s" "\<And>t. \<not> pipe_step F D MJ rc a c s t"
    and "0 < msgChan_size c" "0 < pushQueueSize c" "0 < responseChannelSize c" "0 < concurrentWorkers c"
    and "0 < connectionPoolSize c"
  shows "(in_flight s = 0 \<and> wg s = int (lost s + dropped s)) \<or>
    (retry_deadlock c s \<and> pushQueueSize c + concurrentWorkers c + responseChannelSize c < in_flight s)"
proof -
  have len: "length (workers s) = concurrentWorkers c" by (rule workers_length [OF assms(2)])
  then have "in_flight s = 0 \<or> retry_deadlock c s"
    using assms(7,8) by (intro rest_cases [OF assms(3-6)]) auto
  then show ?thesis
    using retry_deadlock_load [of c s] pipe_accounts [OF assms(1,2)] len by auto
qed

section \<open>The retry deadlock is reachable\<close>

definition small :: capacities where
  "small = \<lparr>msgChan_size = 1, pushQueueSize = 1, responseChannelSize = 1, concurrentWorkers = 1, connectionPoolSize = 1\<rparr>"

definition too_many :: apns2_Response where
  "too_many = \<lparr>res_StatusCode = i64 429, res_Reason = ''TooManyRequests'', res_ApnsID = ''u1'', res_Sent = False\<rparr>"

definition sample_notification :: ApnsNotification where
  "sample_notification =
     hd (started (fst (HandleMessages sample_floats free_services sample_env sample_handler null_message ())))"

lemma sample_effects:
  "started (fst (HandleMessages sample_floats free_services sample_env sample_handler null_message ())) = [sample_notification]"
  "dones (fst (HandleMessages sample_floats free_services sample_env sample_handler null_message ())) = 0"
  "is_retried apple_reason sample_handler (worker_response sample_notification too_many)"
  by code_simp+

abbreviation sample_reach :: "unit pipeline \<Rightarrow> bool" where
  "sample_reach \<equiv> pipe_reach sample_floats free_services (\<lambda>n. Some JNull) apple_reason sample_handler small ()"

abbreviation sample_step :: "unit pipeline \<Rightarrow> unit pipeline \<Rightarrow> bool" where
  "sample_step \<equiv> pipe_step sample_floats free_services (\<lambda>n. Some JNull) apple_reason sample_handler small"

abbreviation throttled :: ResponseWithMetadata where
  "throttled \<equiv> worker_response sample_notification too_many"

text \<open>A message comes in and its notification gets into the push channel.\<close>

lemma comes_in:
  assumes "sample_reach s" "consumer s = None" "msgChan s = []" "router s = None" "pushChannel s = []"
  shows "sample_reach (s\<lparr>pushChannel := [sample_notification], wg := wg s + 1\<rparr>)"
proof -
  let ?s1 = "receiveMessage_counts null_message s"
  let ?s2 = "?s1\<lparr>consumer := None, msgChan := [null_message]\<rparr>"
  have 1: "sample_reach ?s1" using assms by (intro pipe_reach.read)
  have "sample_step ?s1 ?s2"
    using consumer_sends [of ?s1 null_message small] assms by (simp add: receiveMessage_counts_def small_def)
  with 1 have 2: "sample_reach ?s2" by (rule pipe_reach.step)
  obtain es where es: "HandleMessages sample_floats free_services sample_env sample_handler null_message () = (es, ())"
    by (metis old.unit.exhaust surj_pair)
  then have eff: "started es = [sample_notification]" "dones es = 0"
    using sample_effects(1,2) by simp_all
  let ?s3 = "?s2\<lparr>msgChan := [], wg := wg ?s2 - int (dones es), router := first_started es, world := ()\<rparr>"
  have "sample_step ?s2 ?s3"
  proof (rule route_handles)
    show "HandleMessages sample_floats free_services sample_env sample_handler null_message (world ?s2) = (es, ())"
      using es by simp
    show "router ?s2 = None" using assms by (simp add: receiveMessage_counts_def)
  qed (simp_all add: null_message_def sample_handler_def)
  with 2 have 3: "sample_reach ?s3" by (rule pipe_reach.step)
  have "sample_step ?s3 (?s3\<lparr>router := None, pushChannel := pushChannel ?s3 @ [sample_notification]\<rparr>)"
    using assms by (intro router_pushes) (simp_all add: receiveMessage_counts_def small_def eff)
  with 3 have 4: "sample_reach (?s3\<lparr>router := None, pushChannel := pushChannel ?s3 @ [sample_notification]\<rparr>)"
    by (rule pipe_reach.step)
  have "?s3\<lparr>router := None, pushChannel := pushChannel ?s3 @ [sample_notification]\<rparr>
      = s\<lparr>pushChannel := [sample_notification], wg := wg s + 1\<rparr>"
    using assms by (cases s) (simp add: receiveMessage_counts_def eff)
  with 4 show ?thesis by simp
qed

text \<open>The worker sends it, and is told that there are too many requests.\<close>

lemma throttle_steps:
  assumes "workers s = [Waiting]" "pushChannel s = [sample_notification]"
  shows "sample_step s (s\<lparr>pushChannel := [], workers := [Taking_client sample_notification]\<rparr>)" (is "sample_step s ?s0")
    "sample_step (s\<lparr>pushChannel := [], workers := [Taking_client sample_notification]\<rparr>)
       (s\<lparr>pushChannel := [], workers := [Sending sample_notification]\<rparr>)" (is "sample_step _ ?s1")
    "sample_step (s\<lparr>pushChannel := [], workers := [Sending sample_notification]\<rparr>)
       (s\<lparr>pushChannel := [], workers := [Replying throttled]\<rparr>)"
proof -
  show "sample_step s ?s0"
    using worker_takes [of 0 s sample_notification "[]"] assms by simp
  have "sample_step ?s0 (?s0\<lparr>workers := (workers ?s0)[0 := Sending sample_notification]\<rparr>)"
    by (rule worker_gets_client) (simp_all add: small_def)
  then show "sample_step ?s0 ?s1" by simp
  have "sample_step ?s1 (?s1\<lparr>workers := [Replying throttled], lost := lost s + 0\<rparr>)"
    using worker_sent [of 0 ?s1 sample_notification _ _ _ _ _ _ "Some too_many"] by simp
  then show "sample_step ?s1 (s\<lparr>pushChannel := [], workers := [Replying throttled]\<rparr>)" by simp
qed

lemma is_throttled:
  assumes "sample_reach s" "workers s = [Waiting]" "pushChannel s = [sample_notification]"
  shows "sample_reach (s\<lparr>pushChannel := [], workers := [Replying throttled]\<rparr>)"
  by (rule pipe_reach.step [OF pipe_reach.step [OF pipe_reach.step [OF assms(1) throttle_steps(1)] throttle_steps(2)] throttle_steps(3)])
    (fact assms(2,3))+

lemma reply_step:
  assumes "workers s = [Replying throttled]" "responseChannel s = []"
  shows "sample_step s (s\<lparr>workers := [Waiting], responseChannel := [throttled]\<rparr>)"
  using worker_replies [of 0 s throttled small] assms by (simp add: small_def)

lemma replies:
  assumes "sample_reach s" "workers s = [Replying throttled]" "responseChannel s = []"
  shows "sample_reach (s\<lparr>workers := [Waiting], responseChannel := [throttled]\<rparr>)"
  by (rule pipe_reach.step [OF assms(1) reply_step [OF assms(2,3)]])

lemma sample_retry: "started (handleAPNSResponse sample_floats (\<lambda>n. Some JNull) apple_reason sample_env sample_handler throttled)
      = [sent_once sample_notification]"
    "dones (handleAPNSResponse sample_floats (\<lambda>n. Some JNull) apple_reason sample_env sample_handler throttled) = 0"
  using sample_effects(3) by (simp_all add: handleAPNSResponse_def worker_response_def)

lemma retry_step:
  assumes "retrier s = None" "responseChannel s = [throttled]"
  shows "sample_step s (s\<lparr>responseChannel := [], retrier := Some (sent_once sample_notification)\<rparr>)"
  using response_handled [of s throttled "[]" sample_floats "\<lambda>n. Some JNull" apple_reason sample_env sample_handler _
      free_services small, OF assms refl]
  by (simp add: sample_retry)

lemma deadlock_example:
  "\<exists>s. sample_reach s \<and> retry_deadlock small s \<and> in_flight s = 4 \<and> (\<nexists>t. sample_step s t)"
proof -
  let ?s0 = "initial small ()"
  have "sample_reach ?s0" by (rule pipe_reach.start)
  from comes_in [OF this] have "sample_reach (?s0\<lparr>pushChannel := [sample_notification], wg := 1\<rparr>)"
    by (simp add: initial_def)
  from replies [OF is_throttled [OF this]]
  have 1: "sample_reach (?s0\<lparr>responseChannel := [throttled], wg := 1\<rparr>)"
    by (simp add: initial_def small_def)
  have "sample_step (?s0\<lparr>responseChannel := [throttled], wg := 1\<rparr>) (?s0\<lparr>retrier := Some (sent_once sample_notification), wg := 1\<rparr>)"
    using retry_step [of "?s0\<lparr>responseChannel := [throttled], wg := 1\<rparr>"] by (simp add: initial_def)
  with 1 have "sample_reach (?s0\<lparr>retrier := Some (sent_once sample_notification), wg := 1\<rparr>)" by (rule pipe_reach.step)
  from replies [OF is_throttled [OF comes_in [OF this]]]
  have "sample_reach (?s0\<lparr>retrier := Some (sent_once sample_notification), responseChannel := [throttled], wg := 2\<rparr>)"
    by (simp add: initial_def small_def)
  from is_throttled [OF comes_in [OF this]]
  have "sample_reach (?s0\<lparr>retrier := Some (sent_once sample_notification), responseChannel := [throttled],
      workers := [Replying throttled], wg := 3\<rparr>)"
    by (simp add: initial_def small_def)
  from comes_in [OF this]
  have reach: "sample_reach (?s0\<lparr>retrier := Some (sent_once sample_notification), responseChannel := [throttled],
      workers := [Replying throttled], pushChannel := [sample_notification], wg := 4\<rparr>)" (is "sample_reach ?s")
    by (simp add: initial_def)
  moreover have "retry_deadlock small ?s" by (simp add: retry_deadlock_def small_def)
  moreover have "in_flight ?s = 4" by (simp add: in_flight_def load_def initial_def)
  moreover have "\<nexists>t. sample_step ?s t"
  proof
    assume "\<exists>t. sample_step ?s t"
    then obtain t where "sample_step ?s t" by blast
    then show False by (cases rule: pipe_step.cases) (simp_all add: initial_def small_def)
  qed
  ultimately show ?thesis by blast
qed

text \<open>
  The retry deadlock does occur, with one worker, channels for one element and four
  messages that APNS all answers with too many requests: a state in which no goroutine can go on
  while messages are in flight.
\<close>

lemma retry_deadlock_reachable:
  "\<exists>s. sample_reach s \<and> retry_deadlock small s \<and> in_flight s = 4 \<and> (\<nexists>t. sample_step s t)"
  by (rule deadlock_example)

section \<open>The properties at work\<close>

abbreviation one_pushed :: "unit pipeline" where
  "one_pushed \<equiv> (initial small ())\<lparr>pushChannel := [sample_notification], wg := 1\<rparr>"

lemma one_pushed_reach: "sample_reach one_pushed"
  using comes_in [OF pipe_reach.start] by (simp add: initial_def)

lemma sample_handler_facts: "h_hasWG sample_handler" "int (h_maxRetryAttempts sample_handler) < 2 ^ 63"
  by (simp_all add: sample_handler_def)

theorem pipeline_attempts_bounded_witness:
  "int_of (n_SendAttempts sample_notification) \<le> max 1 3"
  using pipeline_attempts_bounded [OF sample_handler_facts(2) one_pushed_reach]
  by (simp add: everywhere_def sample_handler_def)

lemma pipeline_drains_example:
  "1 \<le> potential sample_handler one_pushed"
proof -
  have "sample_step one_pushed (one_pushed\<lparr>pushChannel := [], workers := (workers one_pushed)[0 := Taking_client sample_notification]\<rparr>)"
    by (rule worker_takes) (simp_all add: initial_def small_def)
  then have "(sample_step ^^ 1) one_pushed
      (one_pushed\<lparr>pushChannel := [], workers := (workers one_pushed)[0 := Taking_client sample_notification]\<rparr>)"
    by (simp only: relpowp_1)
  then show ?thesis
    by (rule pipeline_drains [OF sample_handler_facts(2) one_pushed_reach])
qed

lemma pipeline_rest_example:
  "\<exists>s. sample_reach s \<and> in_flight s = 4 \<and> pushQueueSize small + concurrentWorkers small + responseChannelSize small < in_flight s"
proof -
  obtain s where s: "sample_reach s" "in_flight s = 4" "\<And>t. \<not> sample_step s t"
    using deadlock_example by blast
  have "0 < msgChan_size small" "0 < pushQueueSize small" "0 < responseChannelSize small" "0 < concurrentWorkers small"
    "0 < connectionPoolSize small"
    by (simp_all add: small_def)
  from pipeline_rest [OF sample_handler_facts(1) s(1,3) this] s show ?thesis by auto
qed

end
