(* ===== verification/Apns_Close.thy ===== *)
theory Apns_Close
  imports Apns_Pipeline
begin

text \<open>
  Closing the push queue of APNS: \<open>Cleanup\<close> of \<^verbatim>\<open>extensions/apns/apns_message_handler.go\<close>, which calls \<open>Close\<close> of
  \<^verbatim>\<open>extensions/apns/apns_push_queue.go\<close> (and is called by nothing so far).  The pipeline runs on while its two channels are
  closed one after the other.  Who sends on a closed channel panics; who receives from it gets what is left in it,
  and then leaves its loop.
\<close>

section \<open>The steps\<close>

datatype closing_at = Open | Push_closed | Both_closed

record 'w closing =
  cl_pipe :: "'w pipeline"
  cl_at :: closing_at
  cl_handler_returned :: bool
  cl_panicked :: bool

definition closing_initial :: "'w pipeline \<Rightarrow> 'w closing" where
  "closing_initial q = \<lparr>cl_pipe = q, cl_at = Open, cl_handler_returned = False, cl_panicked = False\<rparr>"

text \<open>The two statements of \<open>Close\<close>: first the push channel, then the response channel.\<close>

fun Close :: "closing_at \<Rightarrow> closing_at option" where
  "Close Open = Some Push_closed"
| "Close Push_closed = Some Both_closed"
| "Close Both_closed = None"

definition Cleanup :: "closing_at \<Rightarrow> closing_at option" where
  "Cleanup = Close"

text \<open>Someone stands at a send on a closed channel: the router, the handler of responses, or a worker.\<close>

definition sends :: "'w closing \<Rightarrow> bool" where
  "sends s \<longleftrightarrow> cl_at s \<noteq> Open \<and> (router (cl_pipe s) \<noteq> None \<or> retrier (cl_pipe s) \<noteq> None)
     \<or> cl_at s = Both_closed \<and> list_ex (\<lambda>x. case x of Replying r \<Rightarrow> True | _ \<Rightarrow> False) (workers (cl_pipe s))"

text \<open>The loops over the two channels end when their channel is closed and empty.\<close>

definition HandleResponses_ends :: "'w closing \<Rightarrow> bool" where
  "HandleResponses_ends s \<longleftrightarrow> cl_at s = Both_closed \<and> responseChannel (cl_pipe s) = [] \<and> retrier (cl_pipe s) = None"

definition pushWorker_ends :: "'w closing \<Rightarrow> nat \<Rightarrow> bool" where
  "pushWorker_ends s i \<longleftrightarrow> cl_at s \<noteq> Open \<and> pushChannel (cl_pipe s) = []
     \<and> i < length (workers (cl_pipe s)) \<and> workers (cl_pipe s) ! i = Waiting"

text \<open>A step that sends makes one of the two channels longer, which it cannot once it is closed.\<close>

inductive close_step ::
    "float_ops \<Rightarrow> 'w services \<Rightarrow> (ApnsNotification \<Rightarrow> json option) \<Rightarrow> (reason \<Rightarrow> string) \<Rightarrow> APNSMessageHandler \<Rightarrow> capacities
      \<Rightarrow> 'w closing \<Rightarrow> 'w closing \<Rightarrow> bool" for F D MJ rc a c where
  works: "\<not> cl_panicked s \<Longrightarrow> pipe_step F D MJ rc a c (cl_pipe s) q
    \<Longrightarrow> (cl_at s \<noteq> Open \<longrightarrow> length (pushChannel q) \<le> length (pushChannel (cl_pipe s)))
    \<Longrightarrow> (cl_at s = Both_closed \<longrightarrow> length (responseChannel q) \<le> length (responseChannel (cl_pipe s)))
    \<Longrightarrow> close_step F D MJ rc a c s (s\<lparr>cl_pipe := q\<rparr>)"
| cleans_up: "\<not> cl_panicked s \<Longrightarrow> Cleanup (cl_at s) = Some x \<Longrightarrow> close_step F D MJ rc a c s (s\<lparr>cl_at := x\<rparr>)"
| worker_returns: "\<not> cl_panicked s \<Longrightarrow> pushWorker_ends s i
    \<Longrightarrow> close_step F D MJ rc a c s
          (s\<lparr>cl_pipe := (cl_pipe s)\<lparr>workers := take i (workers (cl_pipe s)) @ drop (Suc i) (workers (cl_pipe s))\<rparr>\<rparr>)"
| handler_returns: "\<not> cl_panicked s \<Longrightarrow> \<not> cl_handler_returned s \<Longrightarrow> HandleResponses_ends s
    \<Longrightarrow> close_step F D MJ rc a c s (s\<lparr>cl_handler_returned := True\<rparr>)"
| send_panics: "\<not> cl_panicked s \<Longrightarrow> sends s \<Longrightarrow> close_step F D MJ rc a c s (s\<lparr>cl_panicked := True\<rparr>)"

section \<open>When closing panics\<close>

text \<open>Something is on its way to APNS or back, or a response waits that will be retried.\<close>

definition unsettled :: "(reason \<Rightarrow> string) \<Rightarrow> APNSMessageHandler \<Rightarrow> 'w pipeline \<Rightarrow> bool" where
  "unsettled rc a q \<longleftrightarrow> pushChannel q \<noteq> [] \<or> \<not> set (workers q) \<subseteq> {Waiting} \<or> retrier q \<noteq> None
     \<or> list_ex (is_retried rc a) (responseChannel q)"

lemma closes_both:
  assumes "\<not> cl_panicked s"
  shows "(close_step F D MJ rc a c)\<^sup>*\<^sup>* s (s\<lparr>cl_at := Both_closed\<rparr>)"
proof -
  have step: "close_step F D MJ rc a c u (u\<lparr>cl_at := x\<rparr>)" if "\<not> cl_panicked u" "Close (cl_at u) = Some x" for u :: "'a closing" and x
    using that by (intro cleans_up) (simp_all add: Cleanup_def)
  show ?thesis
  proof (cases "cl_at s")
    case Open
    have "close_step F D MJ rc a c (s\<lparr>cl_at := Push_closed\<rparr>) (s\<lparr>cl_at := Push_closed, cl_at := Both_closed\<rparr>)"
      by (rule step) (simp_all add: assms)
    with step [OF assms, of Push_closed] Open show ?thesis by (simp add: converse_rtranclp_into_rtranclp)
  next
    case Push_closed
    with step [OF assms, of Both_closed] show ?thesis by auto
  next
    case Both_closed
    then have "s\<lparr>cl_at := Both_closed\<rparr> = s" by simp
    then show ?thesis by simp
  qed
qed

lemma sends_reaches:
  assumes "\<not> cl_panicked s" "sends s"
  shows "\<exists>t. (close_step F D MJ rc a c)\<^sup>*\<^sup>* s t \<and> cl_panicked t"
  using send_panics [OF assms] by (intro exI [of _ "s\<lparr>cl_panicked := True\<rparr>"]) (simp add: r_into_rtranclp)

lemma worker_panics:
  assumes "\<not> cl_panicked s" "cl_at s = Both_closed" "0 < connectionPoolSize c"
    and "i < length (workers (cl_pipe s))" "workers (cl_pipe s) ! i \<noteq> Waiting"
  shows "\<exists>t. (close_step F D MJ rc a c)\<^sup>*\<^sup>* s t \<and> cl_panicked t"
proof -
  let ?panics = "\<lambda>s. \<exists>t. (close_step F D MJ rc a c)\<^sup>*\<^sup>* s t \<and> cl_panicked t"
  have replying: "?panics u" if "\<not> cl_panicked u" "cl_at u = Both_closed" "Replying r \<in> set (workers (cl_pipe u))" for u :: "'a closing" and r
    using that(2,3) by (intro sends_reaches [OF that(1)]) (force simp: sends_def list_ex_iff)
  have sending: "?panics u" if u: "\<not> cl_panicked u" "cl_at u = Both_closed" "i < length (workers (cl_pipe u))"
      "workers (cl_pipe u) ! i = Sending n" for u :: "'a closing" and n
  proof -
    fix res :: apns2_Response
    let ?q = "(cl_pipe u)\<lparr>workers := (workers (cl_pipe u))[i := pushWorker n (Some res)],
        lost := lost (cl_pipe u) + (case Some res of None \<Rightarrow> 1 | Some _ \<Rightarrow> 0)\<rparr>"
    have "close_step F D MJ rc a c u (u\<lparr>cl_pipe := ?q\<rparr>)"
      by (rule works [OF u(1) worker_sent [OF u(3,4)]]) simp_all
    moreover have "?panics (u\<lparr>cl_pipe := ?q\<rparr>)"
      by (rule replying) (use u set_update_memI [OF u(3)] in simp_all)
    ultimately show ?thesis by (meson converse_rtranclp_into_rtranclp)
  qed
  show ?thesis
  proof (cases "workers (cl_pipe s) ! i")
    case (Taking_client n)
    let ?u = "s\<lparr>cl_pipe := (cl_pipe s)\<lparr>workers := (workers (cl_pipe s))[i := Sending n]\<rparr>\<rparr>"
    have "close_step F D MJ rc a c s ?u"
      by (rule works [OF assms(1) worker_gets_client [OF assms(4) Taking_client assms(3)]]) simp_all
    moreover have "?panics ?u" by (rule sending [where n = n]) (use assms in simp_all)
    ultimately show ?thesis by (meson converse_rtranclp_into_rtranclp)
  next
    case (Sending n)
    then show ?thesis by (rule sending [OF assms(1,2,4)])
  next
    case (Replying r)
    then show ?thesis using replying [OF assms(1,2)] nth_mem [OF assms(4)] by metis
  qed (use assms(5) in simp)
qed

lemma retry_panics:
  assumes "\<not> cl_panicked s" "cl_at s = Both_closed" "retrier (cl_pipe s) = None" "list_ex (is_retried rc a) (responseChannel (cl_pipe s))"
  shows "\<exists>t. (close_step F D MJ rc a c)\<^sup>*\<^sup>* s t \<and> cl_panicked t"
  using assms
proof (induction "responseChannel (cl_pipe s)" arbitrary: s)
  case (Cons r rs)
  fix env
  let ?es = "handleAPNSResponse F MJ rc env a r"
  let ?t = "s\<lparr>cl_pipe := (cl_pipe s)\<lparr>responseChannel := rs, wg := wg (cl_pipe s) - int (dones ?es), retrier := first_started ?es\<rparr>\<rparr>"
  have step: "close_step F D MJ rc a c s ?t"
    by (rule works [OF Cons.prems(1) response_handled [OF Cons.prems(3) Cons.hyps(2) [symmetric] refl]])
      (simp_all add: Cons.hyps(2) [symmetric])
  have "\<exists>t. (close_step F D MJ rc a c)\<^sup>*\<^sup>* ?t t \<and> cl_panicked t"
  proof (cases "is_retried rc a r")
    case True
    then have "retrier (cl_pipe ?t) \<noteq> None" by (simp add: handleAPNSResponse_started)
    then show ?thesis using Cons.prems(1,2) by (intro sends_reaches) (simp_all add: sends_def)
  next
    case False
    then have "retrier (cl_pipe ?t) = None" by (simp add: handleAPNSResponse_started)
    moreover have "list_ex (is_retried rc a) rs" using Cons.prems(4) False by (simp add: Cons.hyps(2) [symmetric])
    ultimately show ?thesis using Cons.prems(1,2) by (intro Cons.hyps(1)) simp_all
  qed
  with step show ?case by (meson converse_rtranclp_into_rtranclp)
qed (simp add: Nil)

lemma unsettled_panics:
  assumes "\<not> cl_panicked s" "cl_at s = Both_closed" "0 < connectionPoolSize c" "workers (cl_pipe s) \<noteq> []"
    and "unsettled rc a (cl_pipe s)"
  shows "\<exists>t. (close_step F D MJ rc a c)\<^sup>*\<^sup>* s t \<and> cl_panicked t"
proof -
  let ?q = "cl_pipe s"
  consider "retrier ?q \<noteq> None" | x where "x \<in> set (workers ?q)" "x \<noteq> Waiting"
    | n ns where "pushChannel ?q = n # ns" "set (workers ?q) \<subseteq> {Waiting}"
    | "retrier ?q = None" "list_ex (is_retried rc a) (responseChannel ?q)"
    using assms(5) by (cases "pushChannel ?q") (auto simp: unsettled_def)
  then show ?thesis
  proof cases
    case 1
    then show ?thesis using assms(1,2) by (intro sends_reaches) (simp_all add: sends_def)
  next
    case (2 x)
    then obtain i where "i < length (workers ?q)" "workers ?q ! i \<noteq> Waiting" unfolding in_set_conv_nth by blast
    then show ?thesis by (rule worker_panics [OF assms(1-3)])
  next
    case (3 n ns)
    have 0: "0 < length (workers ?q)" using assms(4) by simp
    then have "workers ?q ! 0 = Waiting" using 3(2) nth_mem by blast
    note takes = worker_takes [OF 0 this 3(1), of F D MJ rc a c]
    let ?t = "s\<lparr>cl_pipe := ?q\<lparr>pushChannel := ns, workers := (workers ?q)[0 := Taking_client n]\<rparr>\<rparr>"
    have "close_step F D MJ rc a c s ?t" by (rule works [OF assms(1) takes]) (simp_all add: 3(1))
    moreover have "\<exists>t. (close_step F D MJ rc a c)\<^sup>*\<^sup>* ?t t \<and> cl_panicked t"
      by (rule worker_panics [where i = 0]) (use assms 0 in simp_all)
    ultimately show ?thesis by (meson converse_rtranclp_into_rtranclp)
  next
    case 4
    then show ?thesis by (rule retry_panics [OF assms(1,2)])
  qed
qed

section \<open>When closing is safe\<close>

text \<open>Nothing is in front of the queue, and nothing is unsettled: all that can still be done is to settle the responses left.\<close>

definition settled :: "(reason \<Rightarrow> string) \<Rightarrow> APNSMessageHandler \<Rightarrow> 'w closing \<Rightarrow> bool" where
  "settled rc a s \<longleftrightarrow> consumer (cl_pipe s) = None \<and> msgChan (cl_pipe s) = [] \<and> router (cl_pipe s) = None
     \<and> \<not> unsettled rc a (cl_pipe s) \<and> \<not> cl_panicked s"

definition closing_left :: "'w closing \<Rightarrow> nat" where
  "closing_left s = length (workers (cl_pipe s)) + length (responseChannel (cl_pipe s)) + of_bool (\<not> cl_handler_returned s)
     + (case cl_at s of Open \<Rightarrow> 2 | Push_closed \<Rightarrow> 1 | Both_closed \<Rightarrow> 0)"

lemma Close_next: "Close x = Some y \<longleftrightarrow> (x = Open \<and> y = Push_closed) \<or> (x = Push_closed \<and> y = Both_closed)"
  by (cases x) auto

lemma settled_pipe:
  assumes "settled rc a s" "h_hasWG a" "pipe_step F D MJ rc a c (cl_pipe s) q"
  shows "\<exists>r. responseChannel (cl_pipe s) = r # responseChannel q \<and> q = (cl_pipe s)\<lparr>responseChannel := responseChannel q, wg := wg (cl_pipe s) - 1\<rparr>"
  using assms(3)
proof (cases rule: pipe_step.cases)
  case (response_handled r rs env es)
  have "\<not> is_retried rc a r" using assms(1) response_handled(3) by (simp add: settled_def unsettled_def)
  then have "started es = []" "dones es = 1"
    using handleAPNSResponse_one [OF assms(2), of F MJ rc env r]
    by (simp_all add: response_handled(4) [symmetric] handleAPNSResponse_started)
  then show ?thesis
    using response_handled assms(1) by (intro exI [of _ r]) (simp add: settled_def unsettled_def)
qed (use assms(1) nth_mem in \<open>fastforce simp: settled_def unsettled_def\<close>)+

lemma settled_step:
  assumes "settled rc a s" "h_hasWG a" "close_step F D MJ rc a c s t"
  shows "settled rc a t \<and> Suc (closing_left t) = closing_left s
    \<and> wg (cl_pipe t) - int (length (responseChannel (cl_pipe t))) = wg (cl_pipe s) - int (length (responseChannel (cl_pipe s)))"
  using assms(3)
proof (cases rule: close_step.cases)
  case (works q)
  obtain r where "responseChannel (cl_pipe s) = r # responseChannel q"
    "q = (cl_pipe s)\<lparr>responseChannel := responseChannel q, wg := wg (cl_pipe s) - 1\<rparr>"
    using settled_pipe [OF assms(1,2) works(3)] by blast
  then obtain rs where rs: "responseChannel (cl_pipe s) = r # rs" "q = (cl_pipe s)\<lparr>responseChannel := rs, wg := wg (cl_pipe s) - 1\<rparr>"
    by blast
  show ?thesis using assms(1) unfolding works(1) rs(2) by (simp add: settled_def unsettled_def closing_left_def rs(1))
next
  case (cleans_up x)
  then show ?thesis using assms(1) by (auto simp: Cleanup_def Close_next settled_def closing_left_def)
next
  case (worker_returns i)
  then have i: "i < length (workers (cl_pipe s))" by (simp add: pushWorker_ends_def)
  have "set (take i (workers (cl_pipe s)) @ drop (Suc i) (workers (cl_pipe s))) \<subseteq> set (workers (cl_pipe s))"
    by (auto dest: in_set_takeD in_set_dropD)
  then show ?thesis using assms(1) i unfolding worker_returns(1) by (auto simp: settled_def unsettled_def closing_left_def)
next
  case send_panics
  then have "list_ex (\<lambda>x. case x of Replying r \<Rightarrow> True | _ \<Rightarrow> False) (workers (cl_pipe s))"
    using assms(1) by (auto simp: settled_def unsettled_def sends_def)
  then show ?thesis using assms(1) by (auto simp: settled_def unsettled_def list_ex_iff)
qed (use assms(1) in \<open>auto simp: settled_def closing_left_def\<close>)

lemma settled_run:
  assumes "settled rc a s" "h_hasWG a"
  shows "(close_step F D MJ rc a c ^^ k) s t \<Longrightarrow> settled rc a t \<and> k + closing_left t = closing_left s
    \<and> wg (cl_pipe t) - int (length (responseChannel (cl_pipe t))) = wg (cl_pipe s) - int (length (responseChannel (cl_pipe s)))"
proof (induction k arbitrary: t)
  case (Suc k)
  then obtain u where u: "(close_step F D MJ rc a c ^^ k) s u" "close_step F D MJ rc a c u t" by (auto elim: relcompp.cases)
  from Suc.IH [OF u(1)] settled_step [OF _ assms(2) u(2)] show ?case by fastforce
qed (use assms(1) in simp)

text \<open>Where nothing can go on, the channels are closed and empty, and all goroutines of the queue and the handler have returned.\<close>

lemma settled_end:
  assumes "settled rc a s" "h_hasWG a" "\<And>t. \<not> close_step F D MJ rc a c s t"
  shows "cl_at s = Both_closed \<and> workers (cl_pipe s) = [] \<and> responseChannel (cl_pipe s) = [] \<and> cl_handler_returned s"
proof -
  note alive = assms(1) [unfolded settled_def unsettled_def]
  have at: "cl_at s = Both_closed"
    using cleans_up [of s _ F D MJ rc a c] assms(3) alive by (cases "cl_at s") (auto simp: Cleanup_def)
  have resp: "responseChannel (cl_pipe s) = []"
  proof (rule ccontr)
    assume "responseChannel (cl_pipe s) \<noteq> []"
    then obtain r rs where r: "responseChannel (cl_pipe s) = r # rs" by (cases "responseChannel (cl_pipe s)") auto
    fix env
    have "retrier (cl_pipe s) = None" using alive by simp
    note works [OF _ response_handled [OF this r refl, of F D MJ rc a c env]]
    with assms(3) alive r show False by simp
  qed
  have "workers (cl_pipe s) = []"
  proof (rule ccontr)
    assume w: "workers (cl_pipe s) \<noteq> []"
    then have "workers (cl_pipe s) ! 0 = Waiting" using alive nth_mem [of 0 "workers (cl_pipe s)"] by blast
    then show False
      using worker_returns [of s 0 F D MJ rc a c] assms(3) alive at w by (simp add: pushWorker_ends_def)
  qed
  moreover have "cl_handler_returned s"
    using handler_returns [of s F D MJ rc a c] assms(3) alive at resp by (auto simp: HandleResponses_ends_def)
  ultimately show ?thesis using at resp by simp
qed

text \<open>
  \<^bold>\<open>C17\<close>  Cleaning up an APNS handler when nothing is in front of its queue any more: if a notification is in the queue, with
  a worker, or waits to be retried, or a response is there that will be retried, then a goroutine can send on a closed
  channel, and the program panics.  Otherwise it never does, whatever the goroutines do: after a bounded number of steps both
  channels are closed and empty, the workers and the handler of responses have returned, and each response that was left
  has been settled by one \<open>Done\<close>.
\<close>

theorem cleanup_of_queue:
  assumes "h_hasWG a" "0 < connectionPoolSize c" "workers q \<noteq> []" "consumer q = None" "msgChan q = []" "router q = None"
  shows "if unsettled rc a q
    then \<exists>t. (close_step F D MJ rc a c)\<^sup>*\<^sup>* (closing_initial q) t \<and> cl_panicked t
    else \<forall>k t. (close_step F D MJ rc a c ^^ k) (closing_initial q) t \<longrightarrow> \<not> cl_panicked t
      \<and> k \<le> length (workers q) + length (responseChannel q) + 3
      \<and> ((\<exists>u. close_step F D MJ rc a c t u)
         \<or> cl_at t = Both_closed \<and> workers (cl_pipe t) = [] \<and> responseChannel (cl_pipe t) = [] \<and> cl_handler_returned t
           \<and> wg (cl_pipe t) = wg q - int (length (responseChannel q)))"
proof (cases "unsettled rc a q")
  case True
  let ?s = "(closing_initial q)\<lparr>cl_at := Both_closed\<rparr>"
  have "(close_step F D MJ rc a c)\<^sup>*\<^sup>* (closing_initial q) ?s" by (rule closes_both) (simp add: closing_initial_def)
  moreover have "\<exists>t. (close_step F D MJ rc a c)\<^sup>*\<^sup>* ?s t \<and> cl_panicked t"
    by (rule unsettled_panics) (use assms True in \<open>simp_all add: closing_initial_def\<close>)
  ultimately show ?thesis using True by (meson rtranclp_trans)
next
  case False
  let ?s = "closing_initial q"
  have settled: "settled rc a ?s" using assms(4-6) False by (simp add: settled_def closing_initial_def)
  have left: "closing_left ?s = length (workers q) + length (responseChannel q) + 3"
    by (simp add: closing_left_def closing_initial_def)
  have "\<not> cl_panicked t \<and> k \<le> length (workers q) + length (responseChannel q) + 3
      \<and> ((\<exists>u. close_step F D MJ rc a c t u)
         \<or> cl_at t = Both_closed \<and> workers (cl_pipe t) = [] \<and> responseChannel (cl_pipe t) = [] \<and> cl_handler_returned t
           \<and> wg (cl_pipe t) = wg q - int (length (responseChannel q)))"
    if "(close_step F D MJ rc a c ^^ k) ?s t" for k t
    using settled_run [OF settled assms(1) that] settled_end [of rc a t F D MJ c] assms(1) left
    by (auto simp: settled_def closing_initial_def)
  with False show ?thesis by simp
qed

text \<open>After a shutdown that leaves nothing in flight a clean-up would be safe.\<close>

lemma idle_settled:
  assumes "in_flight q = 0"
  shows "\<not> unsettled rc a q"
proof -
  have "x = Waiting" if "x \<in> set (workers q)" for x
    using that idle_worker [OF assms] unfolding in_set_conv_nth by blast
  moreover have "pushChannel q = []" "retrier q = None" "responseChannel q = []"
    using assms by (auto simp: in_flight_def load_def split: option.splits)
  ultimately show ?thesis by (auto simp: unsettled_def)
qed

definition answered :: "unit pipeline" where
  "answered = (initial small ())\<lparr>wg := 1, responseChannel :=
     [worker_response sample_notification \<lparr>res_StatusCode = i64 200, res_Reason = '''', res_ApnsID = ''u1'', res_Sent = True\<rparr>]\<rparr>"

theorem cleanup_of_queue_witness:
  "(\<exists>t. (close_step sample_floats free_services (\<lambda>n. Some JNull) apple_reason sample_handler small)\<^sup>*\<^sup>*
      (closing_initial one_pushed) t \<and> cl_panicked t)
    \<and> (\<nexists>t. (close_step sample_floats free_services (\<lambda>n. Some JNull) apple_reason sample_handler small ^^ 5) (closing_initial answered) t
        \<and> cl_panicked t)"
proof
  have 1: "0 < connectionPoolSize small" "workers one_pushed \<noteq> []" "consumer one_pushed = None" "msgChan one_pushed = []"
    "router one_pushed = None" "unsettled apple_reason sample_handler one_pushed"
    by (simp_all add: small_def initial_def unsettled_def)
  show "\<exists>t. (close_step sample_floats free_services (\<lambda>n. Some JNull) apple_reason sample_handler small)\<^sup>*\<^sup>*
      (closing_initial one_pushed) t \<and> cl_panicked t"
    using cleanup_of_queue [OF sample_handler_facts(1) 1(1-5), of apple_reason sample_floats free_services "\<lambda>n. Some JNull"] 1(6) by simp
  have 2: "workers answered \<noteq> []" "consumer answered = None" "msgChan answered = []" "router answered = None"
    "\<not> unsettled apple_reason sample_handler answered"
    by (simp_all add: small_def initial_def unsettled_def answered_def worker_response_def is_retried_def)
  show "\<nexists>t. (close_step sample_floats free_services (\<lambda>n. Some JNull) apple_reason sample_handler small ^^ 5) (closing_initial answered) t
        \<and> cl_panicked t"
    using cleanup_of_queue [OF sample_handler_facts(1) 1(1) 2(1-4), of apple_reason sample_floats free_services "\<lambda>n. Some JNull"] 2(5) by simp
qed

end
