(* ===== verification/Fcm_Client.thy ===== *)
theory Fcm_Client
  imports Effects
begin

text \<open>
  The client of Firebase: the messages of \<^verbatim>\<open>interfaces/client.go\<close>, their translation into the
  library's messages in \<^verbatim>\<open>extensions/firebase/client/firebase.go\<close>, and the translation of the
  library's errors in \<^verbatim>\<open>extensions/firebase/client/errors.go\<close>.  The structures of the library
  are given by the fields the code fills; its tests of errors are a parameter.
\<close>

section \<open>Messages\<close>

record fcm_Notification =
  fn_Title :: string
  fn_Body :: string
  fn_Sound :: string
  fn_ClickAction :: string
  fn_BodyLocKey :: string
  fn_BodyLocArgs :: string
  fn_TitleLocKey :: string
  fn_TitleLocArgs :: string
  fn_ImageUrl :: string
  fn_Icon :: string
  fn_Tag :: string
  fn_Color :: string
  fn_Badge :: string

record fcm_Message =
  m_To :: string
  m_MessageID :: string
  m_MessageType :: string
  m_CollapseKey :: string
  m_Priority :: string
  m_ContentAvailable :: bool
  m_TimeToLive :: "64 word option"
  m_DeliveryReceiptRequested :: bool
  m_DryRun :: bool
  m_Data :: "gmap option"
  m_Notification :: "fcm_Notification option"
  m_Platform :: string

section \<open>The library's messages\<close>

record messaging_Notification =
  mn_Title :: string
  mn_Body :: string
  mn_ImageURL :: string

record AndroidNotification =
  an_Title :: string
  an_Body :: string
  an_Icon :: string
  an_Color :: string
  an_Sound :: string
  an_Tag :: string
  an_ClickAction :: string
  an_BodyLocKey :: string
  an_TitleLocKey :: string
  an_BodyLocArgs :: "string list"
  an_TitleLocArgs :: "string list"

record AndroidConfig =
  ac_CollapseKey :: string
  ac_Priority :: string
  ac_TTL :: "int64 option"
  ac_Notification :: AndroidNotification

record ApsAlert =
  al_Title :: string
  al_Body :: string
  al_LocKey :: string
  al_LocArgs :: "string list"
  al_TitleLocKey :: string
  al_TitleLocArgs :: "string list"

record Aps =
  aps_Alert :: "ApsAlert option"
  aps_Badge :: "int64 option"
  aps_Sound :: string
  aps_ContentAvailable :: bool

record APNSConfig =
  apns_Headers :: "(string \<times> string) list"
  apns_Aps :: Aps

record messaging_Message =
  fb_Token :: string
  fb_Data :: "(string \<times> string) list option"
  fb_Notification :: "messaging_Notification option"
  fb_Android :: "AndroidConfig option"
  fb_APNS :: "APNSConfig option"

section \<open>Building a message\<close>

definition time_Second :: int64 where
  "time_Second = i64 1000000000"

fun toMapString :: "gmap \<Rightarrow> (string \<times> string) list" where
  "toMapString [] = []"
| "toMapString (kv # m) = (case snd kv of GStr s \<Rightarrow> [(fst kv, s)] | _ \<Rightarrow> []) @ toMapString m"

definition buildAndroidMessage :: "fcm_Message \<Rightarrow> messaging_Message" where
  "buildAndroidMessage message =
     (let firebaseMessage = \<lparr>fb_Token = m_To message, fb_Data = map_option toMapString (m_Data message),
            fb_Notification = None, fb_Android = None, fb_APNS = None\<rparr> in
      case m_Notification message of
        None \<Rightarrow> firebaseMessage
      | Some n \<Rightarrow> firebaseMessage
          \<lparr>fb_Notification := Some \<lparr>mn_Title = fn_Title n, mn_Body = fn_Body n, mn_ImageURL = fn_ImageUrl n\<rparr>,
           fb_Android := Some
             \<lparr>ac_CollapseKey = m_CollapseKey message, ac_Priority = m_Priority message,
              ac_TTL = (case m_TimeToLive message of None \<Rightarrow> None
                | Some ttl \<Rightarrow> (let secs = Int64 ttl in Some (secs * time_Second))),
              ac_Notification =
                \<lparr>an_Title = fn_Title n, an_Body = fn_Body n, an_Icon = fn_Icon n, an_Color = fn_Color n,
                 an_Sound = fn_Sound n, an_Tag = fn_Tag n, an_ClickAction = fn_ClickAction n,
                 an_BodyLocKey = fn_BodyLocKey n, an_TitleLocKey = fn_TitleLocKey n,
                 an_BodyLocArgs = (if fn_BodyLocArgs n \<noteq> '''' then [fn_BodyLocArgs n] else []),
                 an_TitleLocArgs = (if fn_TitleLocArgs n \<noteq> '''' then [fn_TitleLocArgs n] else [])\<rparr>\<rparr>\<rparr>)"

definition apnsPushType :: "fcm_Message \<Rightarrow> string" where
  "apnsPushType message =
     (if m_Notification message = None \<and> m_ContentAvailable message then ''background'' else ''alert'')"

text \<open>
  The clock is given in nanoseconds since 1970.  The expiration is the whole seconds of the clock
  plus the time to live, as a wrapping product of nanoseconds.
\<close>

definition expiration :: "int \<Rightarrow> 64 word \<Rightarrow> int64" where
  "expiration now ttl = i64 ((now + int_of (Int64 ttl * time_Second)) div 1000000000)"

definition ios_headers :: "int \<Rightarrow> fcm_Message \<Rightarrow> (string \<times> string) list" where
  "ios_headers now message =
     (let pushType = apnsPushType message;
          h = [(''apns-push-type'', pushType)];
          h = (if m_CollapseKey message \<noteq> '''' then map_set ''apns-collapse-id'' (m_CollapseKey message) h else h);
          h = (if pushType = ''background'' then map_set ''apns-priority'' ''5'' h
               else if m_Priority message \<noteq> '''' then map_set ''apns-priority'' (m_Priority message) h else h)
      in case m_TimeToLive message of None \<Rightarrow> h
         | Some ttl \<Rightarrow> map_set ''apns-expiration'' (FormatInt (expiration now ttl)) h)"

definition ios_aps :: "fcm_Message \<Rightarrow> Aps" where
  "ios_aps message =
     (case m_Notification message of
        None \<Rightarrow> \<lparr>aps_Alert = None, aps_Badge = None, aps_Sound = '''', aps_ContentAvailable = m_ContentAvailable message\<rparr>
      | Some n \<Rightarrow>
          \<lparr>aps_Alert = Some
             \<lparr>al_Title = fn_Title n, al_Body = fn_Body n, al_LocKey = fn_BodyLocKey n,
              al_LocArgs = (if fn_BodyLocArgs n \<noteq> '''' then [fn_BodyLocArgs n] else []),
              al_TitleLocKey = fn_TitleLocKey n,
              al_TitleLocArgs = (if fn_TitleLocArgs n \<noteq> '''' then [fn_TitleLocArgs n] else [])\<rparr>,
           aps_Badge = (if fn_Badge n \<noteq> '''' then Atoi (fn_Badge n) else None),
           aps_Sound = fn_Sound n, aps_ContentAvailable = m_ContentAvailable message\<rparr>)"

definition buildIOSMessage :: "int \<Rightarrow> fcm_Message \<Rightarrow> messaging_Message" where
  "buildIOSMessage now message =
     \<lparr>fb_Token = m_To message, fb_Data = map_option toMapString (m_Data message),
      fb_Notification = map_option (\<lambda>n. \<lparr>mn_Title = fn_Title n, mn_Body = fn_Body n, mn_ImageURL = fn_ImageUrl n\<rparr>)
        (m_Notification message),
      fb_Android = None,
      fb_APNS = Some \<lparr>apns_Headers = ios_headers now message, apns_Aps = ios_aps message\<rparr>\<rparr>"

definition toFirebaseMessage :: "int \<Rightarrow> fcm_Message \<Rightarrow> messaging_Message" where
  "toFirebaseMessage now message =
     (if m_Platform message = ''ios'' then buildIOSMessage now message else buildAndroidMessage message)"

section \<open>Errors and sending\<close>

record 'e messaging_errors =
  IsInvalidArgument :: "'e \<Rightarrow> bool"
  IsUnregistered :: "'e \<Rightarrow> bool"
  IsSenderIDMismatch :: "'e \<Rightarrow> bool"
  IsQuotaExceeded :: "'e \<Rightarrow> bool"
  IsUnavailable :: "'e \<Rightarrow> bool"
  IsInternal :: "'e \<Rightarrow> bool"
  IsThirdPartyAuthError :: "'e \<Rightarrow> bool"
  Error :: "'e \<Rightarrow> string"

definition translateError :: "'e messaging_errors \<Rightarrow> 'e \<Rightarrow> PushError" where
  "translateError E err =
     (if IsInvalidArgument E err then NewPushError ''INVALID_JSON'' (Error E err)
      else if IsUnregistered E err then NewPushError ''DEVICE_UNREGISTERED'' (Error E err)
      else if IsSenderIDMismatch E err then NewPushError ''SENDER_ID_MISMATCH'' (Error E err)
      else if IsQuotaExceeded E err then NewPushError ''DEVICE_MESSAGE_RATE_EXCEEDED'' (Error E err)
      else if IsUnavailable E err then NewPushError ''UNAVAILABLE'' (Error E err)
      else if IsInternal E err then NewPushError ''INTERNAL_SERVER_ERROR'' (Error E err)
      else if IsThirdPartyAuthError E err then NewPushError ''THIRD_PARTY_AUTH_ERROR'' (Error E err)
      else NewPushError ''UNKNOWN'' (Error E err))"

text \<open>Sending, with the library's \<open>Send\<close> as a parameter that answers an error or none.\<close>

definition SendPush ::
    "'e messaging_errors \<Rightarrow> (messaging_Message \<Rightarrow> 'e option) \<Rightarrow> int \<Rightarrow> fcm_Message \<Rightarrow> PushError option" where
  "SendPush E send now msg = map_option (translateError E) (send (toFirebaseMessage now msg))"

text \<open>
  The project of the credentials.  A project that is no string makes the type assertion panic.
\<close>

datatype project = Project string | Project_error | Project_panic

definition getProjectIDFromJson :: "float_ops \<Rightarrow> string \<Rightarrow> project" where
  "getProjectIDFromJson F s =
     (case parse_json s of
        None \<Rightarrow> Project_error
      | Some j \<Rightarrow>
        (case dec_map F (\<lambda>m. m) (\<lambda>x m. x) j None of
           (_, False) \<Rightarrow> Project_error
         | (data, True) \<Rightarrow>
           (case map_of (case data of None \<Rightarrow> [] | Some m \<Rightarrow> m) ''project_id'' of
              None \<Rightarrow> Project_error
            | Some (GStr p) \<Rightarrow> Project p
            | Some _ \<Rightarrow> Project_panic)))"

section \<open>Properties\<close>

lemma toMapString_keys: "fst ` set (toMapString m) \<subseteq> fst ` set m"
  by (induction m) (auto split: gval.splits)

lemma toMapString_at:
  "distinct (map fst m) \<Longrightarrow> map_of (toMapString m) k = (case map_of m k of Some (GStr s) \<Rightarrow> Some s | _ \<Rightarrow> None)"
proof (induction m)
  case (Cons kv m)
  have "map_of (toMapString m) (fst kv) = None"
    using Cons.prems toMapString_keys [of m] by (auto simp: map_of_eq_None_iff)
  then show ?case
    using Cons by (cases kv) (auto split: gval.splits option.splits)
qed simp

text \<open>
  The data of a message reaches Firebase as exactly its entries that are strings, on either
  platform: numbers, booleans and objects are left out, and the token is the one the message is for.
\<close>

lemma toFirebaseMessage_data:
  assumes "m_Data message = Some data" "distinct (map fst data)"
  shows "\<exists>d. fb_Data (toFirebaseMessage now message) = Some d
    \<and> (\<forall>k. map_of d k = (case map_of data k of Some (GStr s) \<Rightarrow> Some s | _ \<Rightarrow> None))
    \<and> fb_Token (toFirebaseMessage now message) = m_To message"
  using assms
  by (auto simp: toFirebaseMessage_def buildIOSMessage_def buildAndroidMessage_def Let_def toMapString_at split: option.split)

definition sample_message :: fcm_Message where
  "sample_message = \<lparr>m_To = ''tok'', m_MessageID = '''', m_MessageType = '''', m_CollapseKey = '''',
     m_Priority = ''high'', m_ContentAvailable = True, m_TimeToLive = Some 60, m_DeliveryReceiptRequested = False,
     m_DryRun = False, m_Data = Some [(''a'', GStr ''x''), (''b'', GBool True)], m_Notification = None, m_Platform = ''gcm''\<rparr>"

lemma toFirebaseMessage_data_example:
  "\<exists>d. fb_Data (toFirebaseMessage 0 sample_message) = Some d \<and> map_of d ''a'' = Some ''x'' \<and> map_of d ''b'' = None"
  using toFirebaseMessage_data [of sample_message "[(''a'', GStr ''x''), (''b'', GBool True)]" 0]
  by (auto simp: sample_message_def)

lemma map_of_map_set [simp]: "map_of (map_set k v m) k' = (if k' = k then Some v else map_of m k')"
  by (simp add: update_conv')

lemma ios_headers_at:
  "map_of (ios_headers now message) ''apns-push-type'' = Some (apnsPushType message)"
  "map_of (ios_headers now message) ''apns-priority'' =
    (if apnsPushType message = ''background'' then Some ''5''
     else if m_Priority message = '''' then None else Some (m_Priority message))"
  "map_of (ios_headers now message) ''apns-collapse-id'' =
    (if m_CollapseKey message = '''' then None else Some (m_CollapseKey message))"
  by (simp_all add: ios_headers_def Let_def split: option.split)

lemma ios_aps_at:
  "aps_Alert (ios_aps message) = None \<longleftrightarrow> m_Notification message = None"
  "aps_ContentAvailable (ios_aps message) = m_ContentAvailable message"
  by (simp_all add: ios_aps_def split: option.split)

text \<open>
  The APNS headers of a message for iOS agree with its payload, as APNS demands: the push
  type is background exactly when the payload has no alert and is marked as available content, and then
  the priority is 5 whatever the message asks for; otherwise it is an alert with the priority of the
  message, if it has one.
\<close>

lemma ios_headers_consistent:
  "let h = map_of (ios_headers now message); aps = ios_aps message in
   (h ''apns-push-type'' = Some ''background'' \<longleftrightarrow> aps_Alert aps = None \<and> aps_ContentAvailable aps)
   \<and> h ''apns-push-type'' \<in> {Some ''background'', Some ''alert''}
   \<and> h ''apns-priority'' = (if h ''apns-push-type'' = Some ''background'' then Some ''5''
        else if m_Priority message = '''' then None else Some (m_Priority message))
   \<and> h ''apns-collapse-id'' = (if m_CollapseKey message = '''' then None else Some (m_CollapseKey message))"
  unfolding Let_def ios_headers_at ios_aps_at by (simp add: apnsPushType_def)

lemma ttl_product: "int_of (Int64 ttl * time_Second) = 1000000000 * int (unat ttl) \<longleftrightarrow> unat ttl \<le> 9223372036"
proof
  assume "int_of (Int64 ttl * time_Second) = 1000000000 * int (unat ttl)"
  moreover have "int_of (Int64 ttl * time_Second) < 9223372036854775808"
    using int_of_range [of "Int64 ttl * time_Second"] by (simp add: in_int64_def)
  ultimately show "unat ttl \<le> 9223372036" by linarith
next
  assume le: "unat ttl \<le> 9223372036"
  define r where r: "r = int (unat ttl)"
  have range: "0 \<le> r" "r \<le> 9223372036" unfolding r using le by linarith+
  have "Int64 ttl = i64 r" by (simp add: i64_def r)
  moreover have "in_int64 r" "in_int64 (r * 1000000000)" "in_int64 1000000000"
    using range by (simp_all add: in_int64_def)
  ultimately have "int_of (Int64 ttl * time_Second) = 1000000000 * r"
    by (simp add: time_Second_def int_of_times)
  then show "int_of (Int64 ttl * time_Second) = 1000000000 * int (unat ttl)" by (simp only: r)
qed

text \<open>
  The time to live of an Android message is the number of seconds asked for, as long as
  that is at most 9223372036; beyond, the product wraps around, and it never is.  Without a
  notification the message has no Android part, and so neither time to live nor priority.
\<close>

lemma android_ttl_exact:
  assumes "m_Notification message = Some n" "m_TimeToLive message = Some ttl"
  shows "(\<exists>c t. fb_Android (buildAndroidMessage message) = Some c \<and> ac_TTL c = Some t
      \<and> (int_of t = 1000000000 * int (unat ttl) \<longleftrightarrow> unat ttl \<le> 9223372036))
    \<and> fb_Android (buildAndroidMessage (message\<lparr>m_Notification := None\<rparr>)) = None"
  using assms ttl_product [of ttl] by (simp add: buildAndroidMessage_def)

definition sample_alert :: fcm_Notification where
  "sample_alert = \<lparr>fn_Title = ''t'', fn_Body = ''b'', fn_Sound = '''', fn_ClickAction = '''', fn_BodyLocKey = '''',
     fn_BodyLocArgs = '''', fn_TitleLocKey = '''', fn_TitleLocArgs = '''', fn_ImageUrl = '''', fn_Icon = '''',
     fn_Tag = '''', fn_Color = '''', fn_Badge = '''' \<rparr>"

lemma android_ttl_exact_example:
  "\<exists>c t. fb_Android (buildAndroidMessage (sample_message\<lparr>m_Notification := Some sample_alert\<rparr>)) = Some c
     \<and> ac_TTL c = Some t \<and> int_of t = 60000000000"
  using android_ttl_exact [of "sample_message\<lparr>m_Notification := Some sample_alert\<rparr>" sample_alert 60]
  by (simp add: sample_message_def)

text \<open>
  The keys of translated errors: a token is reported as unregistered exactly when the
  library says so and does not call the request invalid, and the key of a bad registration, which the
  feedback broker also looks for, is never produced.
\<close>

lemma translateError_keys:
  "(Key (translateError E err) = ''DEVICE_UNREGISTERED'' \<longleftrightarrow> IsUnregistered E err \<and> \<not> IsInvalidArgument E err)
   \<and> Key (translateError E err) \<noteq> ''BAD_REGISTRATION''
   \<and> Description (translateError E err) = Error E err"
  by (simp add: translateError_def NewPushError_def)

end
