(* ===== verification/Fcm_Handler.thy ===== *)
theory Fcm_Handler
  imports Fcm_Client Rate_Limiter
begin

text \<open>
  The FCM message handler, \<^verbatim>\<open>extensions/firebase/message_handler.go\<close>, with
  \<^verbatim>\<open>feedback_response.go\<close>.  As for APNS, a function is given as the list of its effects;
  \<open>Start\<close> hands a message over to a new goroutine, once the handler has got a token of its
  concurrency control.
\<close>

section \<open>Data\<close>

record kafkaFCMMessage =
  k_Message :: fcm_Message
  k_Metadata :: "gmap option"
  k_PushExpiry :: int64

record FeedbackResponse =
  fr_From :: string
  fr_Error :: string
  fr_ErrorDescription :: string

record messageHandler =
  f_app :: string
  f_feedbackReporters :: "reporter list"
  f_statsReporters :: "reporter list"
  f_hasWG :: bool

record fcm_env =
  f_UnixNano :: int64
  f_time_Since :: int64

section \<open>Reading a message\<close>

definition dec_uint_ptr :: "(64 word option \<Rightarrow> 's \<Rightarrow> 's) \<Rightarrow> 's decoder" where
  "dec_uint_ptr put j s =
     (case j of
        JNum x \<Rightarrow> (case read_nat x of
            Some n \<Rightarrow> if n < 2 ^ 64 then (put (Some (of_nat n)) s, True) else (put (Some 0) s, False)
          | None \<Rightarrow> (put (Some 0) s, False))
      | JNull \<Rightarrow> (put None s, True)
      | _ \<Rightarrow> (put (Some 0) s, False))"

definition empty_notification :: fcm_Notification where
  "empty_notification = \<lparr>fn_Title = '''', fn_Body = '''', fn_Sound = '''', fn_ClickAction = '''', fn_BodyLocKey = '''',
     fn_BodyLocArgs = '''', fn_TitleLocKey = '''', fn_TitleLocArgs = '''', fn_ImageUrl = '''', fn_Icon = '''',
     fn_Tag = '''', fn_Color = '''', fn_Badge = ''''\<rparr>"

definition notification_fields :: "(string \<times> fcm_Notification decoder) list" where
  "notification_fields =
     [(''title'', dec_string (\<lambda>x s. s\<lparr>fn_Title := x\<rparr>)),
      (''body'', dec_string (\<lambda>x s. s\<lparr>fn_Body := x\<rparr>)),
      (''sound'', dec_string (\<lambda>x s. s\<lparr>fn_Sound := x\<rparr>)),
      (''click_action'', dec_string (\<lambda>x s. s\<lparr>fn_ClickAction := x\<rparr>)),
      (''body_loc_key'', dec_string (\<lambda>x s. s\<lparr>fn_BodyLocKey := x\<rparr>)),
      (''body_loc_args'', dec_string (\<lambda>x s. s\<lparr>fn_BodyLocArgs := x\<rparr>)),
      (''title_loc_key'', dec_string (\<lambda>x s. s\<lparr>fn_TitleLocKey := x\<rparr>)),
      (''title_loc_args'', dec_string (\<lambda>x s. s\<lparr>fn_TitleLocArgs := x\<rparr>)),
      (''image_url'', dec_string (\<lambda>x s. s\<lparr>fn_ImageUrl := x\<rparr>)),
      (''icon'', dec_string (\<lambda>x s. s\<lparr>fn_Icon := x\<rparr>)),
      (''tag'', dec_string (\<lambda>x s. s\<lparr>fn_Tag := x\<rparr>)),
      (''color'', dec_string (\<lambda>x s. s\<lparr>fn_Color := x\<rparr>)),
      (''badge'', dec_string (\<lambda>x s. s\<lparr>fn_Badge := x\<rparr>))]"

text \<open>A pointer to a struct: nil for null, otherwise the struct it has or a new one is filled.\<close>

definition dec_notification :: "fcm_Message decoder" where
  "dec_notification j m =
     (case j of
        JNull \<Rightarrow> (m\<lparr>m_Notification := None\<rparr>, True)
      | _ \<Rightarrow>
        (let n = (case m_Notification m of None \<Rightarrow> empty_notification | Some n \<Rightarrow> n);
             (n', ok) = decode_struct notification_fields j n in
         (m\<lparr>m_Notification := Some n'\<rparr>, ok)))"

definition message_fields :: "float_ops \<Rightarrow> (string \<times> fcm_Message decoder) list" where
  "message_fields F =
     [(''to'', dec_string (\<lambda>x m. m\<lparr>m_To := x\<rparr>)),
      (''message_id'', dec_string (\<lambda>x m. m\<lparr>m_MessageID := x\<rparr>)),
      (''message_type'', dec_string (\<lambda>x m. m\<lparr>m_MessageType := x\<rparr>)),
      (''collapse_key'', dec_string (\<lambda>x m. m\<lparr>m_CollapseKey := x\<rparr>)),
      (''priority'', dec_string (\<lambda>x m. m\<lparr>m_Priority := x\<rparr>)),
      (''content_available'', dec_bool (\<lambda>x m. m\<lparr>m_ContentAvailable := x\<rparr>)),
      (''time_to_live'', dec_uint_ptr (\<lambda>x m. m\<lparr>m_TimeToLive := x\<rparr>)),
      (''delivery_receipt_requested'', dec_bool (\<lambda>x m. m\<lparr>m_DeliveryReceiptRequested := x\<rparr>)),
      (''dry_run'', dec_bool (\<lambda>x m. m\<lparr>m_DryRun := x\<rparr>)),
      (''data'', dec_map F m_Data (\<lambda>x m. m\<lparr>m_Data := x\<rparr>)),
      (''notification'', dec_notification)]"

text \<open>The fields of the embedded message are fields of the whole.\<close>

definition lift_decoder :: "fcm_Message decoder \<Rightarrow> kafkaFCMMessage decoder" where
  "lift_decoder d j k = (case d j (k_Message k) of (m, ok) \<Rightarrow> (k\<lparr>k_Message := m\<rparr>, ok))"

definition kafka_fields :: "float_ops \<Rightarrow> (string \<times> kafkaFCMMessage decoder) list" where
  "kafka_fields F =
     map (\<lambda>(name, d). (name, lift_decoder d)) (message_fields F)
     @ [(''metadata'', dec_map F k_Metadata (\<lambda>x k. k\<lparr>k_Metadata := x\<rparr>)),
        (''push_expiry'', dec_int64 (\<lambda>x k. k\<lparr>k_PushExpiry := x\<rparr>))]"

definition empty_kafka_message :: kafkaFCMMessage where
  "empty_kafka_message =
     \<lparr>k_Message = \<lparr>m_To = '''', m_MessageID = '''', m_MessageType = '''', m_CollapseKey = '''', m_Priority = '''',
        m_ContentAvailable = False, m_TimeToLive = None, m_DeliveryReceiptRequested = False, m_DryRun = False,
        m_Data = None, m_Notification = None, m_Platform = ''''\<rparr>,
      k_Metadata = None, k_PushExpiry = 0\<rparr>"

definition parse_fcm :: "float_ops \<Rightarrow> string \<Rightarrow> kafkaFCMMessage option" where
  "parse_fcm F value =
     (case parse_json value of
        None \<Rightarrow> None
      | Some j \<Rightarrow>
        (case decode_struct (kafka_fields F) j empty_kafka_message of (km, ok) \<Rightarrow> if ok then Some km else None))"

section \<open>Handling a message\<close>

text \<open>A struct is written without the fields that are empty.\<close>

definition omit_empty :: "(string \<times> string) list \<Rightarrow> (string \<times> json) list" where
  "omit_empty fs = map (\<lambda>f. (fst f, JStr (snd f))) (filter (\<lambda>f. snd f \<noteq> '''') fs)"

definition notification_json :: "fcm_Notification \<Rightarrow> json" where
  "notification_json n = JObj (omit_empty
     [(''title'', fn_Title n), (''body'', fn_Body n), (''sound'', fn_Sound n), (''click_action'', fn_ClickAction n),
      (''body_loc_key'', fn_BodyLocKey n), (''body_loc_args'', fn_BodyLocArgs n),
      (''title_loc_key'', fn_TitleLocKey n), (''title_loc_args'', fn_TitleLocArgs n), (''image_url'', fn_ImageUrl n),
      (''icon'', fn_Icon n), (''tag'', fn_Tag n), (''color'', fn_Color n), (''badge'', fn_Badge n)])"

definition fcm_createDedupContentFromPayload :: "float_ops \<Rightarrow> kafkaFCMMessage \<Rightarrow> string option" where
  "fcm_createDedupContentFromPayload F km =
     (let notification = (case m_Notification (k_Message km) of None \<Rightarrow> []
            | Some n \<Rightarrow> [(''notification'', notification_json n)]) in
      case m_Data (k_Message km) of
        None \<Rightarrow> Some (render (JObj notification))
      | Some d \<Rightarrow> map_option (\<lambda>j. render (JObj ((''data'', j) # notification))) (of_gval F (GMap d)))"

definition add_metadata :: "kafkaFCMMessage \<Rightarrow> fcm_Message" where
  "add_metadata km =
     (case k_Metadata km of
        None \<Rightarrow> k_Message km
      | Some md \<Rightarrow> (k_Message km)\<lparr>m_Data := Some (add_missing md
          (case m_Data (k_Message km) of None \<Rightarrow> [] | Some d \<Rightarrow> d))\<rparr>)"

type_synonym fcm_effect = "(fcm_Message \<times> string) effect"

definition fcm_waitGroupDone :: "messageHandler \<Rightarrow> fcm_effect list" where
  "fcm_waitGroupDone h = (if f_hasWG h then [Done] else [])"

definition reportLatency :: "messageHandler \<Rightarrow> int64 \<Rightarrow> string \<Rightarrow> fcm_effect list" where
  "reportLatency h latency platform =
     stats (to_reporters (f_statsReporters h)
       (ReportSendNotificationLatency latency (f_app h) platform [''client'', ''fcm'']))"

definition reportRateLimitReached :: "messageHandler \<Rightarrow> string \<Rightarrow> string \<Rightarrow> fcm_effect list" where
  "reportRateLimitReached h game platform =
     stats (to_reporters (f_statsReporters h) (NotificationRateLimitReached game platform))"

definition fcm_check_duplicate ::
    "float_ops \<Rightarrow> 'w services \<Rightarrow> messageHandler \<Rightarrow> kafkaFCMMessage \<Rightarrow> string \<Rightarrow> 'w \<Rightarrow> fcm_effect list \<times> 'w" where
  "fcm_check_duplicate F D h km platform w =
     (case fcm_createDedupContentFromPayload F km of
        None \<Rightarrow> ([], w)
      | Some dedupMsg \<Rightarrow>
        (let (unique, w') = svc_IsUnique D (m_To (k_Message km)) dedupMsg (f_app h) platform w in
         (if unique then [] else stats (StatsReporterDuplicateMessageDetected (f_statsReporters h) (f_app h) platform), w')))"

definition fcm_platform :: "KafkaMessage \<Rightarrow> string" where
  "fcm_platform msg = (if km_Platform msg = '''' then ''gcm'' else km_Platform msg)"

definition fcm_expired :: "fcm_env \<Rightarrow> kafkaFCMMessage \<Rightarrow> bool" where
  "fcm_expired env km \<longleftrightarrow> 0 < k_PushExpiry km \<and> k_PushExpiry km < MakeTimestamp (f_UnixNano env)"

definition fcm_HandleMessages ::
    "float_ops \<Rightarrow> 'w services \<Rightarrow> fcm_env \<Rightarrow> messageHandler \<Rightarrow> KafkaMessage \<Rightarrow> 'w \<Rightarrow> fcm_effect list \<times> 'w" where
  "fcm_HandleMessages F D env h msg w =
     (case parse_fcm F (km_Value msg) of
        None \<Rightarrow> (fcm_waitGroupDone h, w)
      | Some km \<Rightarrow>
        (let platform = fcm_platform msg;
             km = km\<lparr>k_Message := (k_Message km)\<lparr>m_Platform := platform\<rparr>\<rparr> in
         if fcm_expired env km then (fcm_waitGroupDone h, w)
         else
           (let (ev1, w1) = fcm_check_duplicate F D h km platform w;
                (allowed, ev2, w2) = svc_Allow D (m_To (k_Message km)) (km_Game msg) platform w1;
                evs = ev1 @ stats ev2 in
            if \<not> allowed then (evs @ reportRateLimitReached h (km_Game msg) platform @ fcm_waitGroupDone h, w2)
            else (evs @ [Start (add_metadata km, km_Topic msg)] @ reportLatency h (f_time_Since env) platform, w2))))"

section \<open>Sending and the response\<close>

datatype send_error = Pusher_error PushError | Other_error string

fun translateToPushError :: "send_error \<Rightarrow> PushError" where
  "translateToPushError (Pusher_error e) = e"
| "translateToPushError (Other_error s) = NewPushError ''unknown'' s"

definition reportFirebaseLatency :: "messageHandler \<Rightarrow> int64 \<Rightarrow> fcm_effect list" where
  "reportFirebaseLatency h latency = stats (to_reporters (f_statsReporters h) (ReportFirebaseLatency latency (f_app h) []))"

definition handleNotificationSent :: "messageHandler \<Rightarrow> string \<Rightarrow> string \<Rightarrow> fcm_effect list" where
  "handleNotificationSent h topic platform =
     stats (to_reporters (f_statsReporters h) (HandleNotificationSent (f_app h) platform topic))"

definition handleNotificationAck :: "messageHandler \<Rightarrow> string \<Rightarrow> fcm_effect list" where
  "handleNotificationAck h platform =
     stats (to_reporters (f_statsReporters h) (HandleNotificationSuccess (f_app h) platform))"

definition FeedbackResponse_json :: "FeedbackResponse \<Rightarrow> json" where
  "FeedbackResponse_json f = JObj (omit_empty
     [(''from'', fr_From f), (''error'', fr_Error f), (''error_description'', fr_ErrorDescription f)])"

definition handleNotificationFailure :: "messageHandler \<Rightarrow> fcm_Message \<Rightarrow> string \<Rightarrow> send_error \<Rightarrow> fcm_effect list" where
  "handleNotificationFailure h message platform err =
     (let pushError = translateToPushError err in
      stats (to_reporters (f_statsReporters h) (HandleNotificationFailure (f_app h) platform pushError))
      @ to_feedback_reporters (f_feedbackReporters h) (f_app h) platform
          (render (FeedbackResponse_json
            \<lparr>fr_From = m_To message, fr_Error = Key pushError, fr_ErrorDescription = Description pushError\<rparr>)))"

text \<open>The goroutine of a message, after the client has answered and before it sends the response.\<close>

definition after_SendPush :: "messageHandler \<Rightarrow> fcm_env \<Rightarrow> fcm_Message \<times> string \<Rightarrow> fcm_effect list" where
  "after_SendPush h env mt = reportFirebaseLatency h (f_time_Since env) @ handleNotificationSent h (snd mt) (m_Platform (fst mt))"

text \<open>One turn of the loop of \<open>HandleResponses\<close>.\<close>

definition handle_response :: "messageHandler \<Rightarrow> fcm_Message \<times> send_error option \<Rightarrow> fcm_effect list" where
  "handle_response h response =
     (case snd response of
        Some err \<Rightarrow> handleNotificationFailure h (fst response) (m_Platform (fst response)) err
      | None \<Rightarrow> handleNotificationAck h (m_Platform (fst response)))
     @ fcm_waitGroupDone h"

definition sendToFeedbackReporters :: "messageHandler \<Rightarrow> json option \<Rightarrow> string \<Rightarrow> fcm_effect list" where
  "sendToFeedbackReporters h res platform =
     (case res of None \<Rightarrow> [] | Some j \<Rightarrow> to_feedback_reporters (f_feedbackReporters h) (f_app h) platform (render j))"

section \<open>Effects of the pieces\<close>

lemma fcm_effects [simp]:
  "started (fcm_waitGroupDone h) = []" "dones (fcm_waitGroupDone h) = of_bool (f_hasWG h)"
  "stat_calls (fcm_waitGroupDone h) = []" "feedbacks (fcm_waitGroupDone h) = []"
  "started (reportLatency h l p) = []" "dones (reportLatency h l p) = 0" "feedbacks (reportLatency h l p) = []"
  "started (reportRateLimitReached h g p) = []" "dones (reportRateLimitReached h g p) = 0"
  "feedbacks (reportRateLimitReached h g p) = []"
  "started (fst (fcm_check_duplicate F D h km p w)) = []" "dones (fst (fcm_check_duplicate F D h km p w)) = 0"
  "feedbacks (fst (fcm_check_duplicate F D h km p w)) = []"
  by (auto simp: fcm_waitGroupDone_def reportLatency_def reportRateLimitReached_def fcm_check_duplicate_def
      broadcast_defs split: option.split prod.split)

definition fcm_allowed :: "float_ops \<Rightarrow> 'w services \<Rightarrow> messageHandler \<Rightarrow> KafkaMessage \<Rightarrow> kafkaFCMMessage \<Rightarrow> 'w \<Rightarrow> bool" where
  "fcm_allowed F D h msg km w \<longleftrightarrow> fst (svc_Allow D (m_To (k_Message km)) (km_Game msg) (fcm_platform msg)
     (snd (fcm_check_duplicate F D h km (fcm_platform msg) w)))"

abbreviation with_platform :: "KafkaMessage \<Rightarrow> kafkaFCMMessage \<Rightarrow> kafkaFCMMessage" where
  "with_platform msg km \<equiv> km\<lparr>k_Message := (k_Message km)\<lparr>m_Platform := fcm_platform msg\<rparr>\<rparr>"

lemma fcm_HandleMessages_started:
  "started (fst (fcm_HandleMessages F D env h msg w)) =
    (case parse_fcm F (km_Value msg) of
       None \<Rightarrow> []
     | Some km \<Rightarrow> if \<not> fcm_expired env km \<and> fcm_allowed F D h msg (with_platform msg km) w
         then [(add_metadata (with_platform msg km), km_Topic msg)] else [])"
  "dones (fst (fcm_HandleMessages F D env h msg w)) =
    of_bool (f_hasWG h) * (1 - length (started (fst (fcm_HandleMessages F D env h msg w))))"
  by (auto simp: fcm_HandleMessages_def fcm_allowed_def fcm_expired_def Let_def case_prod_beta split: option.splits)

lemma fcm_HandleMessages_settles:
  "length (started (fst (fcm_HandleMessages F D env (h\<lparr>f_hasWG := True\<rparr>) msg w)))
    + dones (fst (fcm_HandleMessages F D env (h\<lparr>f_hasWG := True\<rparr>) msg w)) = 1"
  by (simp add: fcm_HandleMessages_started split: option.splits)

interpretation fcm: message_handler "fcm_HandleMessages F D env (h\<lparr>f_hasWG := True\<rparr>)" for F D env h
  by unfold_locales (rule fcm_HandleMessages_settles)

text \<open>
  \<^bold>\<open>C19\<close>  The fate of a message given to the FCM handler: it is handed to a goroutine, exactly
  once, if it can be parsed, has not expired and the limiter lets its device through, for the platform
  of its topic (gcm if that says none); otherwise it is settled by one \<open>Done\<close>.
\<close>

theorem fcm_HandleMessages_fate:
  "case parse_fcm F (km_Value msg) of
     None \<Rightarrow> fst (fcm_HandleMessages F D env h msg w) = fcm_waitGroupDone h
   | Some km \<Rightarrow>
      if 0 < k_PushExpiry km \<and> k_PushExpiry km < MakeTimestamp (f_UnixNano env)
      then fst (fcm_HandleMessages F D env h msg w) = fcm_waitGroupDone h
        \<and> snd (fcm_HandleMessages F D env h msg w) = w
      else if fcm_allowed F D h msg (with_platform msg km) w
      then started (fst (fcm_HandleMessages F D env h msg w)) = [(add_metadata (with_platform msg km), km_Topic msg)]
        \<and> dones (fst (fcm_HandleMessages F D env h msg w)) = 0
      else started (fst (fcm_HandleMessages F D env h msg w)) = []
        \<and> dones (fst (fcm_HandleMessages F D env h msg w)) = of_bool (f_hasWG h)"
proof (cases "parse_fcm F (km_Value msg)")
  case None
  then show ?thesis by (simp add: fcm_HandleMessages_def)
next
  case (Some km)
  have "fcm_expired env (with_platform msg km) = fcm_expired env km"
    by (simp add: fcm_expired_def)
  then show ?thesis
    using Some by (auto simp: fcm_HandleMessages_started) (auto simp: fcm_HandleMessages_def fcm_expired_def Let_def)
qed

lemma add_metadata_fields [simp]:
  "m_To (add_metadata km) = m_To (k_Message km)" "m_Platform (add_metadata km) = m_Platform (k_Message km)"
  "m_Notification (add_metadata km) = m_Notification (k_Message km)"
  by (simp_all add: add_metadata_def split: option.split)

text \<open>
  The data a message is sent with: its own entries, and of its metadata those it has no
  value for; and the token, the platform and the notification are those of the message.
\<close>

lemma fcm_metadata_merged:
  assumes "k_Metadata km = Some md" "distinct (map fst md)"
  shows "\<exists>d. m_Data (add_metadata km) = Some d
    \<and> (\<forall>k. map_at d k = (let own = map_at (case m_Data (k_Message km) of None \<Rightarrow> [] | Some d \<Rightarrow> d) k in
          if own = GNil then map_at md k else own))
    \<and> m_To (add_metadata km) = m_To (k_Message km) \<and> m_Platform (add_metadata km) = m_Platform (k_Message km)
    \<and> m_Notification (add_metadata km) = m_Notification (k_Message km)"
  using assms by (simp add: Let_def) (simp add: add_metadata_def add_missing_at split: option.split)

definition sample_kafka_message :: kafkaFCMMessage where
  "sample_kafka_message = \<lparr>k_Message = sample_message, k_Metadata = Some [(''a'', GStr ''y''), (''c'', GStr ''z'')], k_PushExpiry = 0\<rparr>"

lemma fcm_metadata_merged_example:
  "\<exists>d. m_Data (add_metadata sample_kafka_message) = Some d \<and> map_at d ''a'' = GStr ''x'' \<and> map_at d ''c'' = GStr ''z''"
proof -
  have md: "k_Metadata sample_kafka_message = Some [(''a'', GStr ''y''), (''c'', GStr ''z'')]"
    and d: "m_Data (k_Message sample_kafka_message) = Some [(''a'', GStr ''x''), (''b'', GBool True)]"
    by (simp_all add: sample_kafka_message_def sample_message_def)
  from fcm_metadata_merged [OF md] obtain d' where d': "m_Data (add_metadata sample_kafka_message) = Some d'"
    and at: "\<And>k. map_at d' k = (let own = map_at [(''a'', GStr ''x''), (''b'', GBool True)] k in
          if own = GNil then map_at [(''a'', GStr ''y''), (''c'', GStr ''z'')] k else own)"
    unfolding d by auto
  have "map_at d' ''a'' = GStr ''x'' \<and> map_at d' ''c'' = GStr ''z''"
    unfolding at by (simp add: Let_def map_at_def)
  with d' show ?thesis by blast
qed

text \<open>
  \<^bold>\<open>C20\<close>  A response settles its message by one \<open>Done\<close> and starts nothing; a success is
  acknowledged and sends no feedback, a failure is reported with its key and sent to every feedback
  reporter, with the token the message was for.
\<close>

theorem handle_response_fate:
  "let es = handle_response h (m, err) in
   started es = [] \<and> dones es = of_bool (f_hasWG h) \<and>
   (case err of
      None \<Rightarrow> stat_calls es = map (\<lambda>s. (s, HandleNotificationSuccess (f_app h) (m_Platform m))) (f_statsReporters h)
        \<and> feedbacks es = []
    | Some e \<Rightarrow>
        stat_calls es = map (\<lambda>s. (s, HandleNotificationFailure (f_app h) (m_Platform m) (translateToPushError e))) (f_statsReporters h)
        \<and> feedbacks es = map (\<lambda>s. (s, f_app h, m_Platform m, render (JObj (omit_empty
            [(''from'', m_To m), (''error'', Key (translateToPushError e)),
             (''error_description'', Description (translateToPushError e))])))) (f_feedbackReporters h))"
  by (simp add: handle_response_def handleNotificationFailure_def handleNotificationAck_def to_reporters_map
      FeedbackResponse_json_def Let_def split: option.split)

end
