(* ===== verification/Broker.thy ===== *)
theory Broker
  imports Apns_Handler Fcm_Handler
begin

text \<open>
  The way of a feedback: \<open>SendFeedback\<close> of \<^verbatim>\<open>extensions/kafka_producer.go\<close>, the message the
  consumer of \<^verbatim>\<open>feedback/kafka_consumer.go\<close> makes of it (\<^verbatim>\<open>feedback/queue.go\<close>), and the
  broker of \<^verbatim>\<open>feedback/broker.go\<close>, which picks out the tokens to delete.  Parameters: the APNS
  reasons, and how the library \<^verbatim>\<open>go-gcm\<close> reads the fields \<open>From\<close> and \<open>Error\<close> of a message.
\<close>

section \<open>Producer and consumer\<close>

record feedback_message =
  fm_Topic :: string
  fm_Value :: string

definition SendFeedback_message :: "string \<Rightarrow> string \<Rightarrow> string \<Rightarrow> feedback_message" where
  "SendFeedback_message game platform feedback =
     \<lparr>fm_Topic = ''push-'' @ game @ ''-'' @ platform @ ''-feedbacks'', fm_Value = feedback\<rparr>"

record QueueMessage =
  q_Game :: string
  q_Platform :: string
  q_Value :: string

text \<open>\<open>None\<close> is the panic on a topic the parser cannot read, after the wait group was counted up.\<close>

definition receiveMessage :: "feedback_message \<Rightarrow> QueueMessage option" where
  "receiveMessage m =
     (case GetGameAndPlatformFromTopic (fm_Topic m) of
        None \<Rightarrow> None
      | Some parsedTopic \<Rightarrow> Some \<lparr>q_Game = Game parsedTopic, q_Platform = Platform parsedTopic, q_Value = fm_Value m\<rparr>)"

section \<open>The broker\<close>

record InvalidToken =
  Token :: string
  it_Game :: string
  it_Platform :: string

definition APNSPlatform :: string where "APNSPlatform = ''apns''"
definition GCMPlatform :: string where "GCMPlatform = ''gcm''"

text \<open>
  The two fields of a response the broker looks at.  A value of the wrong type, in these or in any
  other field, is logged and leaves the rest as decoded; a text that is no JSON leaves all empty.
\<close>

record apns_feedback =
  af_Reason :: string
  af_DeviceToken :: string

definition apns_feedback_fields :: "(string \<times> apns_feedback decoder) list" where
  "apns_feedback_fields =
     [(''Reason'', dec_string (\<lambda>x s. s\<lparr>af_Reason := x\<rparr>)),
      (''DeviceToken'', dec_string (\<lambda>x s. s\<lparr>af_DeviceToken := x\<rparr>))]"

text \<open>
  How the libraries read what is theirs: the fields \<open>From\<close> and \<open>Error\<close> of a message of \<^verbatim>\<open>go-gcm\<close>, and whether the decoding
  of an object into a notification of \<^verbatim>\<open>apns2\<close> comes to an error of a decoding method (that of a time, say).  Other than a
  value of the wrong type, such an error ends the decoding of the whole response.
\<close>

record feedback_readers =
  CCSMessage :: "json \<Rightarrow> string \<times> string"
  Notification_fails :: "(string \<times> json) list \<Rightarrow> bool"

definition decoded_part :: "feedback_readers \<Rightarrow> json \<Rightarrow> json" where
  "decoded_part lib j =
     (case j of
        JObj kvs \<Rightarrow> JObj (takeWhile (\<lambda>kv. \<not> (fold_name (fst kv) = fold_name ''Notification''
           \<and> (case snd kv of JObj n \<Rightarrow> Notification_fails lib n | _ \<Rightarrow> False))) kvs)
      | _ \<Rightarrow> j)"

definition decode_apns_feedback :: "feedback_readers \<Rightarrow> string \<Rightarrow> apns_feedback" where
  "decode_apns_feedback lib value =
     (let empty = \<lparr>af_Reason = '''', af_DeviceToken = ''''\<rparr> in
      case parse_json value of
        None \<Rightarrow> empty
      | Some j \<Rightarrow> fst (decode_struct apns_feedback_fields (decoded_part lib j) empty))"

definition routeAPNSMessage :: "(reason \<Rightarrow> string) \<Rightarrow> bool \<Rightarrow> apns_feedback \<Rightarrow> string \<Rightarrow> InvalidToken list" where
  "routeAPNSMessage rc InvalidTokenEnabled msg game =
     (if af_Reason msg \<in> {rc ReasonBadDeviceToken, rc ReasonUnregistered, rc ReasonTopicDisallowed, rc ReasonDeviceTokenNotForTopic}
      then (if InvalidTokenEnabled then [\<lparr>Token = af_DeviceToken msg, it_Game = game, it_Platform = APNSPlatform\<rparr>] else [])
      else [])"

text \<open>A message of the library by its fields \<open>From\<close> and \<open>Error\<close>, empty where the text is no JSON.\<close>

definition decode_gcm_feedback :: "feedback_readers \<Rightarrow> string \<Rightarrow> string \<times> string" where
  "decode_gcm_feedback lib value = (case parse_json value of None \<Rightarrow> ('''', '''') | Some j \<Rightarrow> CCSMessage lib j)"

definition routeGCMMessage :: "bool \<Rightarrow> string \<times> string \<Rightarrow> string \<Rightarrow> InvalidToken list" where
  "routeGCMMessage InvalidTokenEnabled msg game =
     (if snd msg = ''DEVICE_UNREGISTERED'' \<or> snd msg = ''BAD_REGISTRATION''
      then (if InvalidTokenEnabled then [\<lparr>Token = fst msg, it_Game = game, it_Platform = GCMPlatform\<rparr>] else [])
      else [])"

definition confirmMessage :: "bool \<Rightarrow> InvalidToken effect list" where
  "confirmMessage hasWG = (if hasWG then [Done] else [])"

text \<open>One message of the broker's loop: the tokens sent on, then the confirmation.\<close>

definition processMessage ::
    "(reason \<Rightarrow> string) \<Rightarrow> feedback_readers \<Rightarrow> bool \<Rightarrow> bool \<Rightarrow> QueueMessage \<Rightarrow> InvalidToken effect list" where
  "processMessage rc lib enabled hasWG msg =
     map Start
       (if q_Platform msg = APNSPlatform then routeAPNSMessage rc enabled (decode_apns_feedback lib (q_Value msg)) (q_Game msg)
        else if q_Platform msg = GCMPlatform then routeGCMMessage enabled (decode_gcm_feedback lib (q_Value msg)) (q_Game msg)
        else [])
     @ confirmMessage hasWG"

section \<open>Properties of the broker\<close>

lemma effects_Start [simp]:
  "started (map Start xs) = xs" "dones (map Start xs) = 0"
  by (induction xs) auto

lemma confirm_effects [simp]:
  "started (confirmMessage b) = []" "dones (confirmMessage b) = of_bool b"
  by (simp_all add: confirmMessage_def)

text \<open>
  The broker confirms every message exactly once, whatever is in it, and sends on at
  most one token: of an APNS feedback the device token, if the reason is one of the four that mean a
  dead token; of a gcm feedback the sender, if the error is one of two; of any other platform, which
  includes the iOS messages sent through Firebase, never any.
\<close>

lemma broker_routes:
  "dones (processMessage rc lib enabled hasWG msg) = of_bool hasWG
   \<and> started (processMessage rc lib enabled hasWG msg) =
      (let f = decode_apns_feedback lib (q_Value msg); (from, error) = decode_gcm_feedback lib (q_Value msg) in
       if enabled \<and> q_Platform msg = ''apns'' \<and> af_Reason f \<in> rc ` set bad_token_reasons
       then [\<lparr>Token = af_DeviceToken f, it_Game = q_Game msg, it_Platform = ''apns''\<rparr>]
       else if enabled \<and> q_Platform msg = ''gcm'' \<and> error \<in> {''DEVICE_UNREGISTERED'', ''BAD_REGISTRATION''}
       then [\<lparr>Token = from, it_Game = q_Game msg, it_Platform = ''gcm''\<rparr>]
       else [])"
  by (auto simp: processMessage_def routeAPNSMessage_def routeGCMMessage_def bad_token_reasons_def APNSPlatform_def
      GCMPlatform_def Let_def split: prod.split)

section \<open>From the handlers to the broker\<close>

text \<open>The topic a feedback is produced to is read back as its game and platform.\<close>

lemma feedback_topic:
  assumes "game_ok g" "p \<in> set platforms"
  shows "receiveMessage (SendFeedback_message g p v) = Some \<lparr>q_Game = g, q_Platform = p, q_Value = v\<rparr>"
proof -
  have "no_platform (p @ ''-feedbacks'')"
    using assms(2) by (auto simp: platforms_def tail_platform_def is_sep_def)
  moreover have "is_sep CHR ''-''" by (simp add: is_sep_def)
  ultimately have "reads_as (''push-'' @ g @ CHR ''-'' # p @ ''-feedbacks'') g p"
    unfolding reads_as_def using assms by blast
  then have "GetGameAndPlatformFromTopic (''push-'' @ g @ CHR ''-'' # p @ ''-feedbacks'') = Some \<lparr>Platform = p, Game = g\<rparr>"
    unfolding GetGameAndPlatform_Some_iff using reading_longest \<open>no_platform (p @ ''-feedbacks'')\<close> by simp
  then show ?thesis
    by (simp add: receiveMessage_def SendFeedback_message_def)
qed

lemma decode_response:
  assumes "response_json F MJ r = Some j" "json_ok j"
  shows "decode_apns_feedback lib (render j) = \<lparr>af_Reason = r_Reason r, af_DeviceToken = r_DeviceToken r\<rparr>"
proof -
  obtain md n where j: "j = JObj
        ([(''Sent'', JBool (r_Sent r)), (''StatusCode'', JNum (FormatInt (r_StatusCode r))),
          (''Reason'', JStr (r_Reason r)), (''ApnsID'', JStr (r_ApnsID r)), (''Err'', PushError_json (r_Err r)),
          (''DeviceToken'', JStr (r_DeviceToken r)), (''timestamp'', JNum (FormatInt (r_Timestamp r)))]
         @ md @ [(''Notification'', n)])"
    and md: "fst ` set md \<subseteq> {''metadata''}"
    using assms(1) unfolding response_json_def
    by (auto simp: Let_def split: option.splits list.splits)
  have part: "\<exists>n'. decoded_part lib j = JObj
        ([(''Sent'', JBool (r_Sent r)), (''StatusCode'', JNum (FormatInt (r_StatusCode r))),
          (''Reason'', JStr (r_Reason r)), (''ApnsID'', JStr (r_ApnsID r)), (''Err'', PushError_json (r_Err r)),
          (''DeviceToken'', JStr (r_DeviceToken r)), (''timestamp'', JNum (FormatInt (r_Timestamp r)))]
         @ md @ n') \<and> fst ` set n' \<subseteq> {''Notification''}"
  proof -
    let ?P = "\<lambda>kv. \<not> (fold_name (fst kv) = fold_name ''Notification''
           \<and> (case snd kv of JObj n \<Rightarrow> Notification_fails lib n | _ \<Rightarrow> False))"
    have other: "fold_name k \<noteq> fold_name ''Notification''"
      if "k \<in> {''Sent'', ''StatusCode'', ''Reason'', ''ApnsID'', ''Err'', ''DeviceToken'', ''timestamp'', ''metadata''}" for k
      using that by auto
    have "takeWhile ?P (md @ [(''Notification'', n)]) = md @ takeWhile ?P [(''Notification'', n)]"
      by (rule takeWhile_append2) (use md other in fastforce)
    then have "decoded_part lib j = JObj
        ([(''Sent'', JBool (r_Sent r)), (''StatusCode'', JNum (FormatInt (r_StatusCode r))),
          (''Reason'', JStr (r_Reason r)), (''ApnsID'', JStr (r_ApnsID r)), (''Err'', PushError_json (r_Err r)),
          (''DeviceToken'', JStr (r_DeviceToken r)), (''timestamp'', JNum (FormatInt (r_Timestamp r)))]
         @ md @ takeWhile ?P [(''Notification'', n)])"
      using other unfolding j decoded_part_def by simp
    then show ?thesis by (intro exI conjI) (assumption, auto)
  qed
  then obtain n' where part: "decoded_part lib j = JObj
        ([(''Sent'', JBool (r_Sent r)), (''StatusCode'', JNum (FormatInt (r_StatusCode r))),
          (''Reason'', JStr (r_Reason r)), (''ApnsID'', JStr (r_ApnsID r)), (''Err'', PushError_json (r_Err r)),
          (''DeviceToken'', JStr (r_DeviceToken r)), (''timestamp'', JNum (FormatInt (r_Timestamp r)))]
         @ md @ n')" and n': "fst ` set n' \<subseteq> {''Notification''}" by blast
  have skip: "decode_fields apns_feedback_fields (md @ rest) s = decode_fields apns_feedback_fields rest s" for rest s
    using md by (induction md arbitrary: s) (auto simp: field_decoder_def apns_feedback_fields_def)
  have unread: "field_decoder apns_feedback_fields k = None"
    if "k \<in> {''Sent'', ''StatusCode'', ''ApnsID'', ''Err'', ''timestamp'', ''Notification''}" for k
    using that by (auto simp: field_decoder_def apns_feedback_fields_def)
  have rest: "decode_fields apns_feedback_fields n' s = (s, True)" for s
    using n' unread by (induction n' arbitrary: s) auto
  have read: "field_decoder apns_feedback_fields ''Reason'' = Some (dec_string (\<lambda>x s. s\<lparr>af_Reason := x\<rparr>))"
    "field_decoder apns_feedback_fields ''DeviceToken'' = Some (dec_string (\<lambda>x s. s\<lparr>af_DeviceToken := x\<rparr>))"
    by (simp_all add: field_decoder_def apns_feedback_fields_def)
  have "fst (decode_struct apns_feedback_fields (decoded_part lib j) \<lparr>af_Reason = '''', af_DeviceToken = ''''\<rparr>)
      = \<lparr>af_Reason = r_Reason r, af_DeviceToken = r_DeviceToken r\<rparr>"
    unfolding part decode_struct_def
    by (simp add: unread read skip rest dec_string_def)
  then show ?thesis
    by (simp add: decode_apns_feedback_def parse_json_render [OF assms(2)])
qed

lemma failed_response_fields [simp]:
  "r_DeviceToken (failed_response rc r) = r_DeviceToken r" "r_Reason (failed_response rc r) = r_Reason r"
  by (simp_all add: failed_response_def take_metadata_def mark_deleteToken_def Let_def split: option.split gval.split)

text \<open>
  From APNS to the broker: if a response settles its message as a failure, and the feedback can be written (and is made
  of valid text), then every feedback reporter gets one feedback, and once that has gone through Kafka the broker sends
  on the device token of the response under the name of the app, if the reason means a dead token, and no token otherwise.
\<close>

lemma apns_feedback_read:
  assumes "\<not> is_retried rc a r" "r_Reason r \<noteq> ''''" "game_ok (h_appName a)"
    and "response_json F MJ (failed_response rc r) = Some j" "json_ok j"
  shows "feedbacks (handleAPNSResponse F MJ rc env a r) = map (\<lambda>s. (s, h_appName a, ''apns'', render j)) (h_feedbackReporters a)
    \<and> (\<exists>msg. receiveMessage (SendFeedback_message (h_appName a) ''apns'' (render j)) = Some msg
        \<and> started (processMessage rc lib True hasWG msg) =
            (if r_Reason r \<in> rc ` set bad_token_reasons
             then [\<lparr>Token = r_DeviceToken r, it_Game = h_appName a, it_Platform = ''apns''\<rparr>] else []))"
proof
  show "feedbacks (handleAPNSResponse F MJ rc env a r) = map (\<lambda>s. (s, h_appName a, ''apns'', render j)) (h_feedbackReporters a)"
    using assms(1,2,4) by (simp add: handleAPNSResponse_def Let_def)
  have "''apns'' \<in> set platforms" by (simp add: platforms_def)
  from feedback_topic [OF assms(3) this]
  show "\<exists>msg. receiveMessage (SendFeedback_message (h_appName a) ''apns'' (render j)) = Some msg
        \<and> started (processMessage rc lib True hasWG msg) =
            (if r_Reason r \<in> rc ` set bad_token_reasons
             then [\<lparr>Token = r_DeviceToken r, it_Game = h_appName a, it_Platform = ''apns''\<rparr>] else [])"
    by (auto simp: processMessage_def routeAPNSMessage_def APNSPlatform_def bad_token_reasons_def decode_response [OF assms(4,5)])
qed

definition bad_token_json :: json where
  "bad_token_json = the (response_json sample_floats (\<lambda>n. Some JNull) (failed_response apple_reason sample_response))"

lemma bad_token_facts:
  "\<not> is_retried apple_reason sample_handler sample_response" "r_Reason sample_response \<noteq> ''''"
  "game_ok (h_appName sample_handler)"
  "response_json sample_floats (\<lambda>n. Some JNull) (failed_response apple_reason sample_response) = Some bad_token_json"
  "json_ok bad_token_json"
  by code_simp+

lemma bad_token_fields:
  "r_Reason sample_response \<in> apple_reason ` set bad_token_reasons"
  "r_DeviceToken sample_response = ''tok''" "h_appName sample_handler = ''g''"
  by (simp_all add: sample_response_def bad_token_reasons_def sample_handler_def)

text \<open>
  What the library \<^verbatim>\<open>go-gcm\<close> documents of its message, for the objects made here: the fields
  \<open>From\<close> and \<open>Error\<close> are the strings named \<open>from\<close> and \<open>error\<close>, empty where they are missing.
\<close>

definition string_field :: "(string \<times> json) list \<Rightarrow> string \<Rightarrow> string" where
  "string_field kvs k = (case map_of kvs k of Some (JStr s) \<Rightarrow> s | _ \<Rightarrow> '''')"

definition ccs_documented :: "feedback_readers \<Rightarrow> bool" where
  "ccs_documented lib \<longleftrightarrow> (\<forall>kvs. distinct (map fst kvs) \<and> fst ` set kvs \<subseteq> {''from'', ''error'', ''error_description''}
     \<longrightarrow> CCSMessage lib (JObj kvs) = (string_field kvs ''from'', string_field kvs ''error''))"

lemma feedback_response_ccs:
  assumes "ccs_documented lib"
  shows "CCSMessage lib (FeedbackResponse_json f) = (fr_From f, fr_Error f)"
proof -
  let ?kvs = "omit_empty [(''from'', fr_From f), (''error'', fr_Error f), (''error_description'', fr_ErrorDescription f)]"
  have "distinct (map fst ?kvs)" "fst ` set ?kvs \<subseteq> {''from'', ''error'', ''error_description''}"
    by (auto simp: omit_empty_def)
  then have "CCSMessage lib (JObj ?kvs) = (string_field ?kvs ''from'', string_field ?kvs ''error'')"
    using assms unfolding ccs_documented_def by blast
  then show ?thesis
    by (simp add: FeedbackResponse_json_def) (simp add: omit_empty_def string_field_def)
qed

lemma feedback_response_ok:
  "utf8 (fr_From f) \<Longrightarrow> utf8 (fr_Error f) \<Longrightarrow> utf8 (fr_ErrorDescription f) \<Longrightarrow> json_ok (FeedbackResponse_json f)"
  by (simp add: FeedbackResponse_json_def omit_empty_def)

lemma fcm_feedback_read:
  assumes "ccs_documented lib" "game_ok (f_app h)" "m_Platform m = ''gcm'' \<or> m_Platform m = ''ios''"
    and "utf8 (m_To m)" "utf8 (Key (translateToPushError e))" "utf8 (Description (translateToPushError e))"
  shows "\<exists>v msg. feedbacks (handle_response h (m, Some e)) = map (\<lambda>s. (s, f_app h, m_Platform m, v)) (f_feedbackReporters h)
    \<and> receiveMessage (SendFeedback_message (f_app h) (m_Platform m) v) = Some msg
    \<and> started (processMessage rc lib True hasWG msg) =
        (if m_Platform m = ''gcm'' \<and> Key (translateToPushError e) \<in> {''DEVICE_UNREGISTERED'', ''BAD_REGISTRATION''}
         then [\<lparr>Token = m_To m, it_Game = f_app h, it_Platform = ''gcm''\<rparr>] else [])"
proof -
  let ?f = "\<lparr>fr_From = m_To m, fr_Error = Key (translateToPushError e), fr_ErrorDescription = Description (translateToPushError e)\<rparr>"
  let ?msg = "\<lparr>q_Game = f_app h, q_Platform = m_Platform m, q_Value = render (FeedbackResponse_json ?f)\<rparr>"
  have "m_Platform m \<in> set platforms" using assms(3) by (auto simp: platforms_def)
  from feedback_topic [OF assms(2) this]
  have recv: "receiveMessage (SendFeedback_message (f_app h) (m_Platform m) (render (FeedbackResponse_json ?f))) = Some ?msg" .
  have decode: "decode_gcm_feedback lib (render (FeedbackResponse_json ?f)) = (m_To m, Key (translateToPushError e))"
    using parse_json_render [OF feedback_response_ok [of ?f]] assms(4-6) feedback_response_ccs [OF assms(1), of ?f]
    by (simp add: decode_gcm_feedback_def)
  have "feedbacks (handle_response h (m, Some e))
      = map (\<lambda>s. (s, f_app h, m_Platform m, render (FeedbackResponse_json ?f))) (f_feedbackReporters h)"
    by (simp add: handle_response_def handleNotificationFailure_def Let_def)
  moreover have "started (processMessage rc lib True hasWG ?msg) =
        (if m_Platform m = ''gcm'' \<and> Key (translateToPushError e) \<in> {''DEVICE_UNREGISTERED'', ''BAD_REGISTRATION''}
         then [\<lparr>Token = m_To m, it_Game = f_app h, it_Platform = ''gcm''\<rparr>] else [])"
    using assms(3) by (auto simp: processMessage_def APNSPlatform_def GCMPlatform_def decode routeGCMMessage_def)
  ultimately show ?thesis using recv by blast
qed

text \<open>
  \<^bold>\<open>C38\<close>  From FCM to the broker: a failed send makes one feedback for every feedback reporter, and
  once it has gone through Kafka the broker sends on the token of the message if the platform is gcm
  and the key of the error says that the token is dead; for a message to an iOS device no token is ever
  sent on, whatever the error.
\<close>

theorem fcm_feedback_to_broker:
  assumes "ccs_documented lib" "game_ok (f_app h)" "m_Platform m = ''gcm'' \<or> m_Platform m = ''ios''"
    and "utf8 (m_To m)" "utf8 (Key (translateToPushError e))" "utf8 (Description (translateToPushError e))"
  shows "\<exists>v msg. feedbacks (handle_response h (m, Some e)) = map (\<lambda>s. (s, f_app h, m_Platform m, v)) (f_feedbackReporters h)
    \<and> receiveMessage (SendFeedback_message (f_app h) (m_Platform m) v) = Some msg
    \<and> started (processMessage rc lib True hasWG msg) =
        (if m_Platform m = ''gcm'' \<and> Key (translateToPushError e) \<in> {''DEVICE_UNREGISTERED'', ''BAD_REGISTRATION''}
         then [\<lparr>Token = m_To m, it_Game = f_app h, it_Platform = ''gcm''\<rparr>] else [])"
  by (rule fcm_feedback_read [OF assms])

text \<open>Readers for the examples, where the time a notification expires at is to be a string.\<close>

definition sample_readers :: feedback_readers where
  "sample_readers =
     \<lparr>CCSMessage = (\<lambda>j. case j of JObj kvs \<Rightarrow> (string_field kvs ''from'', string_field kvs ''error'') | _ \<Rightarrow> ('''', '''')),
      Notification_fails = list_ex (\<lambda>(k, v). fold_name k = ''EXPIRATION'' \<and> (case v of JStr s \<Rightarrow> False | JNull \<Rightarrow> False | _ \<Rightarrow> True))\<rparr>"

lemma sample_readers_documented: "ccs_documented sample_readers"
  by (simp add: ccs_documented_def sample_readers_def)

theorem fcm_feedback_to_broker_witness:
  "\<exists>v msg. receiveMessage (SendFeedback_message ''g'' ''gcm'' v) = Some msg
    \<and> started (processMessage apple_reason sample_readers True True msg) = [\<lparr>Token = ''tok'', it_Game = ''g'', it_Platform = ''gcm''\<rparr>]"
proof -
  let ?h = "\<lparr>f_app = ''g'', f_feedbackReporters = [0], f_statsReporters = [], f_hasWG = True\<rparr>"
  let ?e = "Pusher_error \<lparr>Key = ''DEVICE_UNREGISTERED'', Description = ''gone''\<rparr>"
  have "game_ok (f_app ?h)" "utf8 (m_To sample_message)" "utf8 (Key (translateToPushError ?e))"
    "utf8 (Description (translateToPushError ?e))"
    by code_simp+
  moreover have "m_Platform sample_message = ''gcm''" "m_To sample_message = ''tok''"
    by (simp_all add: sample_message_def)
  ultimately show ?thesis
    using fcm_feedback_to_broker [OF sample_readers_documented, of ?h sample_message ?e apple_reason True] by auto
qed

end
