(* ===== verification/Invalid_Token.thy ===== *)
theory Invalid_Token
  imports Broker
begin

text \<open>
  The handler of invalid tokens, \<^verbatim>\<open>feedback/invalid_token.go\<close>: the buffer, the grouping by
  platform and game, and the deletion.  The database is the parameter \<open>exec\<close>: the number of rows a
  query affects, or an error.  The loop is a run over a list of events.
\<close>

section \<open>Deleting the tokens of a game\<close>

datatype exec_result = Rows int | Exec_error string

type_synonym exec = "string \<Rightarrow> string list \<Rightarrow> exec_result"

definition no_rows :: string where "no_rows = ''pg: no rows in result set''"

text \<open>The loop that writes the placeholders: index, number of tokens, tokens left.\<close>

fun write_placeholders :: "nat \<Rightarrow> nat \<Rightarrow> string list \<Rightarrow> string" where
  "write_placeholders j n [] = ''''"
| "write_placeholders j n (token # tokens) =
    ''?'' @ show_nat j @ (if j + 1 = n then '')'' else '', '') @ write_placeholders (j + 1) n tokens"

definition delete_query :: "string list \<Rightarrow> string \<Rightarrow> string \<Rightarrow> string" where
  "delete_query tokens game platform =
     ''DELETE FROM '' @ game @ ''_'' @ platform @ '' WHERE token IN ('' @ write_placeholders 0 (length tokens) tokens @ '';''"

type_synonym metrics = "stat_event list"

definition metric_count :: "reporter list \<Rightarrow> string \<Rightarrow> int \<Rightarrow> string \<Rightarrow> string \<Rightarrow> metrics" where
  "metric_count rs metric v game platform = to_reporters rs (ReportMetricCount metric (i64 v) game platform)"

text \<open>The query with its parameters, the metrics, and the error returned.\<close>

definition deleteTokensFromGame ::
    "exec \<Rightarrow> reporter list \<Rightarrow> string list \<Rightarrow> string \<Rightarrow> string \<Rightarrow> (string \<times> string list) \<times> metrics \<times> string option" where
  "deleteTokensFromGame exec rs tokens game platform =
     (let query = delete_query tokens game platform; n = int (length tokens) in
      ((query, tokens),
       case exec query tokens of
         Exec_error err \<Rightarrow>
           if err \<noteq> no_rows then (metric_count rs ''tokens_delete_error'' n game platform, Some err)
           else (metric_count rs ''tokens_delete_nonexistent'' n game platform, None)
       | Rows k \<Rightarrow>
           ((if k < n then metric_count rs ''tokens_delete_nonexistent'' (n - k) game platform else [])
             @ metric_count rs ''tokens_delete_success'' k game platform, None)))"

section \<open>Grouping\<close>

text \<open>
  A map of maps of lists.  A platform that is not one of the two has the nil map, and
  assigning to it panics: \<open>None\<close>.
\<close>

type_synonym token_groups = "(string \<times> (string \<times> string list) list) list"

definition add_token :: "InvalidToken \<Rightarrow> token_groups \<Rightarrow> token_groups option" where
  "add_token t m =
     (case map_of m (it_Platform t) of
        None \<Rightarrow> None
      | Some games \<Rightarrow> Some (map_set (it_Platform t)
          (map_set (it_Game t) ((case map_of games (it_Game t) of None \<Rightarrow> [] | Some ts \<Rightarrow> ts) @ [Token t]) games) m))"

fun split_from :: "token_groups \<Rightarrow> InvalidToken list \<Rightarrow> token_groups option" where
  "split_from m [] = Some m"
| "split_from m (t # ts) = (case add_token t m of None \<Rightarrow> None | Some m' \<Rightarrow> split_from m' ts)"

definition splitTokens :: "InvalidToken list \<Rightarrow> token_groups option" where
  "splitTokens tokens = split_from [(APNSPlatform, []), (GCMPlatform, [])] tokens"

text \<open>The calls of \<open>deleteTokensFromGame\<close>, as platform, game and tokens, in one of the orders of the two maps.\<close>

definition deletions :: "token_groups \<Rightarrow> (string \<times> string \<times> string list) list" where
  "deletions m = concat (map (\<lambda>pg. map (\<lambda>gt. (fst pg, fst gt, snd gt)) (snd pg)) m)"

definition deleteTokens :: "InvalidToken list \<Rightarrow> (string \<times> string \<times> string list) list option" where
  "deleteTokens tokens = map_option deletions (splitTokens tokens)"

section \<open>The buffer\<close>

record InvalidTokenHandler =
  flushTime :: int64
  Buffer :: "InvalidToken list"
  bufferSize :: int64

text \<open>\<open>time.NewTicker\<close>, with which the loop begins, panics when its time is not above zero.\<close>

definition NewTicker_panics :: "int64 \<Rightarrow> bool" where
  "NewTicker_panics d \<longleftrightarrow> d \<le> 0"

datatype event = Token_in InvalidToken | Flush_tick

text \<open>One turn of the loop: the tokens that are deleted, if the buffer is flushed, and the new buffer.\<close>

fun processEvent :: "event \<Rightarrow> InvalidTokenHandler \<Rightarrow> InvalidToken list option \<times> InvalidTokenHandler" where
  "processEvent (Token_in tk) i =
     (let i = i\<lparr>Buffer := Buffer i @ [tk]\<rparr> in
      if bufferSize i \<le> i64 (int (length (Buffer i))) then (Some (Buffer i), i\<lparr>Buffer := []\<rparr>) else (None, i))"
| "processEvent Flush_tick i = (Some (Buffer i), i\<lparr>Buffer := []\<rparr>)"

fun processMessages :: "event list \<Rightarrow> InvalidTokenHandler \<Rightarrow> InvalidToken list list \<times> InvalidTokenHandler" where
  "processMessages [] i = ([], i)"
| "processMessages (e # es) i =
    (let (b, i') = processEvent e i; (bs, i'') = processMessages es i' in
     ((case b of None \<Rightarrow> [] | Some b \<Rightarrow> [b]) @ bs, i''))"

section \<open>The query\<close>

lemma write_placeholders_eq:
  "tokens \<noteq> [] \<Longrightarrow> n = j + length tokens \<Longrightarrow> write_placeholders j n tokens =
    concat (map (\<lambda>i. ''?'' @ show_nat i @ '', '') [j ..< n - 1]) @ ''?'' @ show_nat (n - 1) @ '')''"
proof (induction tokens arbitrary: j)
  case (Cons t ts)
  show ?case
  proof (cases ts)
    case Nil
    then show ?thesis using Cons.prems by simp
  next
    case (Cons t' ts')
    then have "write_placeholders (j + 1) n ts =
        concat (map (\<lambda>i. ''?'' @ show_nat i @ '', '') [j + 1 ..< n - 1]) @ ''?'' @ show_nat (n - 1) @ '')''"
      using Cons.IH [of "j + 1"] Cons.prems by simp
    moreover have "j < n - 1" using Cons Cons.prems by simp
    then have "[j ..< n - 1] = j # [j + 1 ..< n - 1]" by (simp add: upt_conv_Cons)
    ultimately show ?thesis using Cons Cons.prems by simp
  qed
qed simp

text \<open>
  The query of a deletion: it has one placeholder for every token, numbered in order and
  separated by commas, in parentheses, it is for the table of the game and the platform, and the
  parameters are exactly the tokens.
\<close>

lemma delete_query_wellformed:
  assumes "tokens \<noteq> []"
  shows "fst (deleteTokensFromGame exec rs tokens game platform) =
    (''DELETE FROM '' @ game @ ''_'' @ platform @ '' WHERE token IN (''
       @ concat (map (\<lambda>i. ''?'' @ show_nat i @ '', '') [0 ..< length tokens - 1])
       @ ''?'' @ show_nat (length tokens - 1) @ '');'', tokens)"
  using write_placeholders_eq [OF assms, of "length tokens" 0]
  by (simp add: deleteTokensFromGame_def delete_query_def Let_def)

lemma delete_query_wellformed_example:
  "fst (deleteTokensFromGame (\<lambda>q p. Rows 0) [] [''a'', ''b''] ''g'' ''gcm'')
    = (''DELETE FROM g_gcm WHERE token IN (?0, ?1);'', [''a'', ''b''])"
proof -
  have "show_nat 0 = ''0''" "show_nat 1 = ''1''" by code_simp+
  then show ?thesis
    using delete_query_wellformed [of "[''a'', ''b'']" "\<lambda>q p. Rows 0" "[]" "''g''" "''gcm''"] by simp
qed

section \<open>The groups\<close>

definition group_of :: "token_groups \<Rightarrow> string \<Rightarrow> string \<Rightarrow> string list" where
  "group_of m p g = (case map_of m p of None \<Rightarrow> [] | Some games \<Rightarrow> (case map_of games g of None \<Rightarrow> [] | Some ts \<Rightarrow> ts))"

definition groups_ok :: "token_groups \<Rightarrow> bool" where
  "groups_ok m \<longleftrightarrow> map fst m = [''apns'', ''gcm''] \<and>
     (\<forall>pg \<in> set m. distinct (map fst (snd pg)) \<and> (\<forall>gt \<in> set (snd pg). snd gt \<noteq> []))"

lemma map_fst_set_present: "k \<in> set (map fst m) \<Longrightarrow> map fst (map_set k v m) = map fst m"
  by (induction m) auto

lemma in_map_set: "x \<in> set (map_set k v m) \<Longrightarrow> x = (k, v) \<or> x \<in> set m"
  by (induction m) (auto split: if_splits)

lemma add_token_groups:
  assumes "groups_ok m" "it_Platform t \<in> {''apns'', ''gcm''}"
  shows "\<exists>m'. add_token t m = Some m' \<and> groups_ok m' \<and>
    (\<forall>p g. group_of m' p g = group_of m p g @ (if p = it_Platform t \<and> g = it_Game t then [Token t] else []))"
proof -
  have keys: "map fst m = [''apns'', ''gcm'']" using assms(1) by (simp add: groups_ok_def)
  then have "it_Platform t \<in> set (map fst m)" using assms(2) by auto
  then obtain games where games: "map_of m (it_Platform t) = Some games"
    by (metis map_of_eq_None_iff not_None_eq set_map)
  then have mem: "(it_Platform t, games) \<in> set m" by (rule map_of_SomeD)
  then have ok: "distinct (map fst games)" "\<forall>gt \<in> set games. snd gt \<noteq> []"
    using assms(1) by (auto simp: groups_ok_def)
  define ts where "ts = (case map_of games (it_Game t) of None \<Rightarrow> [] | Some ts \<Rightarrow> ts) @ [Token t]"
  define games' where "games' = map_set (it_Game t) ts games"
  have "distinct (map fst games')" unfolding games'_def by (rule distinct_update [OF ok(1)])
  moreover have "snd gt \<noteq> []" if "gt \<in> set games'" for gt
    using that ok(2) in_map_set [of gt "it_Game t" ts games] by (auto simp: games'_def ts_def)
  moreover have "set (map_set (it_Platform t) games' m) \<subseteq> insert (it_Platform t, games') (set m)"
    by (auto dest: in_map_set)
  moreover have "map fst (map_set (it_Platform t) games' m) = map fst m"
    using \<open>it_Platform t \<in> set (map fst m)\<close> by (rule map_fst_set_present)
  ultimately have "groups_ok (map_set (it_Platform t) games' m)"
    using assms(1) unfolding groups_ok_def by (auto dest!: subsetD)
  moreover have "add_token t m = Some (map_set (it_Platform t) games' m)"
    by (simp add: add_token_def games games'_def ts_def)
  moreover have "group_of (map_set (it_Platform t) games' m) p g
      = group_of m p g @ (if p = it_Platform t \<and> g = it_Game t then [Token t] else [])" for p g
    using games by (auto simp: group_of_def games'_def ts_def update_conv' split: option.split)
  ultimately show ?thesis by blast
qed

lemma split_from_groups:
  "groups_ok m \<Longrightarrow> \<forall>t \<in> set ts. it_Platform t \<in> {''apns'', ''gcm''} \<Longrightarrow>
    \<exists>m'. split_from m ts = Some m' \<and> groups_ok m' \<and>
      (\<forall>p g. group_of m' p g = group_of m p g @ map Token (filter (\<lambda>t. it_Platform t = p \<and> it_Game t = g) ts))"
proof (induction ts arbitrary: m)
  case (Cons t ts)
  then obtain m1 where m1: "add_token t m = Some m1" "groups_ok m1"
    "\<And>p g. group_of m1 p g = group_of m p g @ (if p = it_Platform t \<and> g = it_Game t then [Token t] else [])"
    using add_token_groups [of m t] by auto
  from Cons.IH [OF m1(2)] Cons.prems(2) obtain m' where "split_from m1 ts = Some m'" "groups_ok m'"
    "\<And>p g. group_of m' p g = group_of m1 p g @ map Token (filter (\<lambda>t. it_Platform t = p \<and> it_Game t = g) ts)"
    by auto
  with m1 show ?case by auto
qed simp

lemma deleteTokens_grouped:
  assumes "\<forall>t \<in> set tokens. it_Platform t \<in> {''apns'', ''gcm''}"
  shows "\<exists>ds. deleteTokens tokens = Some ds
    \<and> distinct (map (\<lambda>d. (fst d, fst (snd d))) ds)
    \<and> (\<forall>p g ts. (p, g, ts) \<in> set ds \<longleftrightarrow>
         ts = map Token (filter (\<lambda>t. it_Platform t = p \<and> it_Game t = g) tokens) \<and> ts \<noteq> [])"
proof -
  have "groups_ok [(APNSPlatform, []), (GCMPlatform, [])]"
    by (simp add: groups_ok_def APNSPlatform_def GCMPlatform_def)
  from split_from_groups [OF this assms] obtain m where m: "splitTokens tokens = Some m" "groups_ok m"
    and groups: "\<And>p g. group_of m p g = map Token (filter (\<lambda>t. it_Platform t = p \<and> it_Game t = g) tokens)"
    by (auto simp: splitTokens_def group_of_def)
  obtain A G where AG: "m = [(''apns'', A), (''gcm'', G)]"
    using m(2) by (auto simp: groups_ok_def)
  then have ok: "distinct (map fst A)" "distinct (map fst G)" "\<forall>gt \<in> set A. snd gt \<noteq> []" "\<forall>gt \<in> set G. snd gt \<noteq> []"
    using m(2) by (auto simp: groups_ok_def)
  have ds: "deleteTokens tokens = Some (map (\<lambda>gt. (''apns'', fst gt, snd gt)) A @ map (\<lambda>gt. (''gcm'', fst gt, snd gt)) G)"
    (is "_ = Some ?ds")
    by (simp add: deleteTokens_def m(1) deletions_def AG)
  have "distinct (map (\<lambda>d. (fst d, fst (snd d))) ?ds)"
    using ok(1,2) by (auto simp: distinct_map inj_on_def)
  moreover have "(p, g, ts) \<in> set ?ds \<longleftrightarrow> ts = group_of m p g \<and> ts \<noteq> []" for p g ts
  proof -
    have "(g, ts) \<in> set A \<longleftrightarrow> map_of A g = Some ts" "(g, ts) \<in> set G \<longleftrightarrow> map_of G g = Some ts"
      using ok(1,2) by auto
    then have "(p, g, ts) \<in> set ?ds \<longleftrightarrow> (p = ''apns'' \<and> map_of A g = Some ts) \<or> (p = ''gcm'' \<and> map_of G g = Some ts)"
      by force
    moreover have "ts \<noteq> []" if "map_of A g = Some ts \<or> map_of G g = Some ts"
      using that ok(3,4) by (auto dest!: map_of_SomeD)
    ultimately show ?thesis by (auto simp: group_of_def AG split: option.splits)
  qed
  ultimately show ?thesis using ds groups by auto
qed

text \<open>
  \<^bold>\<open>C33\<close>  Grouping a buffer whose tokens come from the broker, which knows only two platforms:
  it does not panic, every group a query is made for has a token, no two queries are for the same table,
  and the tokens of a table are exactly those of its game and platform, in the order they came.
\<close>

theorem deleteTokens_groups:
  assumes "\<forall>t \<in> set tokens. it_Platform t \<in> {''apns'', ''gcm''}"
  shows "\<exists>ds. deleteTokens tokens = Some ds
    \<and> distinct (map (\<lambda>d. (fst d, fst (snd d))) ds)
    \<and> (\<forall>p g ts. (p, g, ts) \<in> set ds \<longleftrightarrow>
         ts = map Token (filter (\<lambda>t. it_Platform t = p \<and> it_Game t = g) tokens) \<and> ts \<noteq> [])"
  using assms by (rule deleteTokens_grouped)

theorem deleteTokens_groups_witness:
  "\<exists>ds. deleteTokens [\<lparr>Token = ''a'', it_Game = ''g'', it_Platform = ''gcm''\<rparr>, \<lparr>Token = ''b'', it_Game = ''g'', it_Platform = ''apns''\<rparr>] = Some ds
     \<and> (''gcm'', ''g'', [''a'']) \<in> set ds"
  using deleteTokens_groups [of "[\<lparr>Token = ''a'', it_Game = ''g'', it_Platform = ''gcm''\<rparr>, \<lparr>Token = ''b'', it_Game = ''g'', it_Platform = ''apns''\<rparr>]"]
  by auto

section \<open>The buffer over a run\<close>

fun tokens_in :: "event list \<Rightarrow> InvalidToken list" where
  "tokens_in [] = []"
| "tokens_in (Token_in t # es) = t # tokens_in es"
| "tokens_in (Flush_tick # es) = tokens_in es"

lemma processMessages_tokens:
  "concat (fst (processMessages es i)) @ Buffer (snd (processMessages es i)) = Buffer i @ tokens_in es
   \<and> bufferSize (snd (processMessages es i)) = bufferSize i"
proof (induction es arbitrary: i)
  case (Cons e es)
  show ?case
    using Cons.IH [of "snd (processEvent e i)"] by (cases e) (auto simp: Let_def case_prod_beta split: if_splits)
qed simp

lemma processMessages_bounded:
  assumes "0 < int_of (bufferSize i)" "int (length (Buffer i)) < int_of (bufferSize i)"
  shows "int (length (Buffer (snd (processMessages es i)))) < int_of (bufferSize i)"
  using assms
proof (induction es arbitrary: i)
  case (Cons e es)
  have "int_of (i64 (int (length (Buffer i) + 1))) = int (length (Buffer i) + 1)"
    using Cons.prems int_of_range [of "bufferSize i"] by (simp add: in_int64_def)
  then have "int (length (Buffer (snd (processEvent e i)))) < int_of (bufferSize i)"
    "bufferSize (snd (processEvent e i)) = bufferSize i"
    using Cons.prems by (cases e; auto simp: Let_def less_eq_int64_def)+
  then show ?case
    using Cons.IH [of "snd (processEvent e i)"] Cons.prems by (simp add: case_prod_beta Let_def)
qed simp

lemma processMessages_append:
  "processMessages (es @ es') i =
    (fst (processMessages es i) @ fst (processMessages es' (snd (processMessages es i))),
     snd (processMessages es' (snd (processMessages es i))))"
  by (induction es arbitrary: i) (simp_all add: Let_def case_prod_beta)

text \<open>A flush leaves no token of the buffer behind.\<close>

lemma flushed:
  "Flush_tick \<in> set es \<Longrightarrow> t \<in> set (Buffer i) \<Longrightarrow> \<exists>b \<in> set (fst (processMessages es i)). t \<in> set b"
proof (induction es arbitrary: i)
  case (Cons e es)
  then show ?case
    by (cases e) (auto simp: Let_def case_prod_beta)
qed simp

lemma token_flushed:
  assumes "Flush_tick \<in> set es'"
  shows "\<exists>b \<in> set (fst (processMessages (es @ Token_in t # es') i)). t \<in> set b"
proof -
  let ?i = "snd (processMessages es i)"
  have "\<exists>b \<in> set (fst (processMessages (Token_in t # es') ?i)). t \<in> set b"
    using flushed [OF assms, of t "?i\<lparr>Buffer := Buffer ?i @ [t]\<rparr>"] by (auto simp: Let_def case_prod_beta)
  then show ?thesis by (auto simp: processMessages_append)
qed

lemma batched_tokens:
  "b \<in> set (fst (processMessages es i)) \<Longrightarrow> u \<in> set b \<Longrightarrow> u \<in> set (Buffer i) \<union> set (tokens_in es)"
proof -
  assume "b \<in> set (fst (processMessages es i))" "u \<in> set b"
  then have "u \<in> set (concat (fst (processMessages es i)) @ Buffer (snd (processMessages es i)))" by auto
  then show ?thesis by (simp only: processMessages_tokens [THEN conjunct1]) simp
qed

lemma tokens_in_append [simp]: "tokens_in (es @ es') = tokens_in es @ tokens_in es'"
  by (induction es rule: tokens_in.induct) auto

text \<open>
  \<^bold>\<open>C32\<close>  The buffer over any run of the loop: every token that came in is in exactly one of the
  batches that were deleted or still in the buffer, in the order they came, and the buffer never holds as
  many tokens as its size.  What is in the buffer when the handler is stopped is not deleted.
\<close>

theorem invalid_token_buffer:
  assumes "Buffer i = []" "0 < int_of (bufferSize i)"
  shows "concat (fst (processMessages es i)) @ Buffer (snd (processMessages es i)) = tokens_in es
    \<and> int (length (Buffer (snd (processMessages es i)))) < int_of (bufferSize i)"
  using processMessages_tokens [of es i] processMessages_bounded [of i es] assms by simp

theorem invalid_token_buffer_witness:
  "let t = (\<lambda>s. \<lparr>Token = s, it_Game = ''g'', it_Platform = ''gcm''\<rparr>); i = \<lparr>flushTime = i64 5000000000, Buffer = [], bufferSize = i64 2\<rparr>;
       es = [Token_in (t ''a''), Token_in (t ''b''), Token_in (t ''c'')] in
   concat (fst (processMessages es i)) @ Buffer (snd (processMessages es i)) = [t ''a'', t ''b'', t ''c'']"
  unfolding Let_def
  using invalid_token_buffer [of "\<lparr>flushTime = i64 5000000000, Buffer = [], bufferSize = i64 2\<rparr>" "[Token_in \<lparr>Token = ''a'', it_Game = ''g'', it_Platform = ''gcm''\<rparr>,
      Token_in \<lparr>Token = ''b'', it_Game = ''g'', it_Platform = ''gcm''\<rparr>, Token_in \<lparr>Token = ''c'', it_Game = ''g'', it_Platform = ''gcm''\<rparr>]"]
  by (simp add: in_int64_def del: processMessages.simps)

end
