(* ===== verification/Token_Store.thy ===== *)
theory Token_Store
  imports Invalid_Token
begin

text \<open>
  The handler of invalid tokens together with the database its queries change: a database is a state
  and what each query answers in it.  The specification deletes every token at once; the handler, which
  buffers them, is shown to refine it.
\<close>

section \<open>Deleting on a database\<close>

type_synonym 'd db = "string \<Rightarrow> string list \<Rightarrow> 'd \<Rightarrow> exec_result \<times> 'd"

text \<open>\<open>deleteTokensFromGame\<close> with the query it makes run on the database.\<close>

definition deleteFromGame_on :: "'d db \<Rightarrow> reporter list \<Rightarrow> string list \<Rightarrow> string \<Rightarrow> string \<Rightarrow> 'd \<Rightarrow> metrics \<times> 'd" where
  "deleteFromGame_on db rs tokens game platform d =
     (let (res, d') = db (delete_query tokens game platform) tokens d in
      (fst (snd (deleteTokensFromGame (\<lambda>_ _. res) rs tokens game platform)), d'))"

text \<open>The two loops of \<open>deleteTokens\<close>; an error of one group does not keep the others from being deleted.\<close>

fun run_deletions :: "'d db \<Rightarrow> reporter list \<Rightarrow> (string \<times> string \<times> string list) list \<Rightarrow> 'd \<Rightarrow> metrics \<times> 'd" where
  "run_deletions db rs [] d = ([], d)"
| "run_deletions db rs ((platform, game, tks) # gs) d =
    (let (ev, d) = deleteFromGame_on db rs tks game platform d; (evs, d) = run_deletions db rs gs d in (ev @ evs, d))"

definition deleteTokens_on :: "'d db \<Rightarrow> reporter list \<Rightarrow> InvalidToken list \<Rightarrow> 'd \<Rightarrow> (metrics \<times> 'd) option" where
  "deleteTokens_on db rs tokens d = map_option (\<lambda>gs. run_deletions db rs gs d) (deleteTokens tokens)"

text \<open>A turn of the handler's loop on the database; \<open>None\<close> is a panic.\<close>

definition handler_turn ::
    "'d db \<Rightarrow> reporter list \<Rightarrow> event \<Rightarrow> InvalidTokenHandler \<times> 'd \<Rightarrow> (metrics \<times> InvalidTokenHandler \<times> 'd) option" where
  "handler_turn db rs e s =
     (case processEvent e (fst s) of
        (None, i) \<Rightarrow> Some ([], i, snd s)
      | (Some batch, i) \<Rightarrow> map_option (\<lambda>(ev, d). (ev, i, d)) (deleteTokens_on db rs batch (snd s)))"

fun handler_run ::
    "'d db \<Rightarrow> reporter list \<Rightarrow> event list \<Rightarrow> InvalidTokenHandler \<times> 'd \<Rightarrow> (metrics \<times> InvalidTokenHandler \<times> 'd) option" where
  "handler_run db rs [] s = Some ([], s)"
| "handler_run db rs (e # es) s =
    (case handler_turn db rs e s of
       None \<Rightarrow> None
     | Some (ev, s') \<Rightarrow> map_option (\<lambda>(evs, s''). (ev @ evs, s'')) (handler_run db rs es s'))"

section \<open>What the database is asked for and refuses\<close>

definition table_name :: "string \<Rightarrow> string \<Rightarrow> string" where
  "table_name game platform = game @ ''_'' @ platform"

text \<open>
  The tokens of the queries that the database answers with an error, whichever it is: those of a list of deletions, of a turn of the
  handler, and of a run.  The code does not try them again.
\<close>

fun refused :: "'d db \<Rightarrow> (string \<times> string \<times> string list) list \<Rightarrow> 'd \<Rightarrow> InvalidToken list" where
  "refused db [] d = []"
| "refused db ((platform, game, tks) # gs) d =
    (case db (delete_query tks game platform) tks d of
       (Exec_error e, d') \<Rightarrow> map (\<lambda>u. \<lparr>Token = u, it_Game = game, it_Platform = platform\<rparr>) tks @ refused db gs d'
     | (Rows k, d') \<Rightarrow> refused db gs d')"

definition turn_refused :: "'d db \<Rightarrow> event \<Rightarrow> InvalidTokenHandler \<times> 'd \<Rightarrow> InvalidToken list" where
  "turn_refused db e s =
     (case fst (processEvent e (fst s)) of
        None \<Rightarrow> []
      | Some batch \<Rightarrow> (case deleteTokens batch of None \<Rightarrow> [] | Some gs \<Rightarrow> refused db gs (snd s)))"

fun run_refused :: "'d db \<Rightarrow> reporter list \<Rightarrow> event list \<Rightarrow> InvalidTokenHandler \<times> 'd \<Rightarrow> InvalidToken list" where
  "run_refused db rs [] s = []"
| "run_refused db rs (e # es) s =
    turn_refused db e s @ (case handler_turn db rs e s of None \<Rightarrow> [] | Some (ev, s') \<Rightarrow> run_refused db rs es s')"

text \<open>The batches of a turn.\<close>

fun batch_list :: "InvalidToken list option \<Rightarrow> InvalidToken list list" where
  "batch_list None = []"
| "batch_list (Some b) = [b]"

lemma processEvent_tokens:
  "concat (batch_list (fst (processEvent e i))) @ Buffer (snd (processEvent e i)) = Buffer i @ tokens_in [e]"
  by (cases e) (auto simp: Let_def)

lemma batch_subset: "fst (processEvent e i) = Some b \<Longrightarrow> set b \<subseteq> set (Buffer i @ tokens_in [e])"
  by (cases e) (auto simp: Let_def split: if_splits)

lemma processEvent_flushTime [simp]: "flushTime (snd (processEvent e i)) = flushTime i"
  by (cases e) (auto simp: Let_def)

section \<open>What a database promises\<close>

text \<open>
  \<open>names n\<close> is the table that the unquoted name \<open>n\<close> refers to, and \<open>rows d table\<close> is the set of tokens in a
  table.  A query of the handler has a token for each of its placeholders and a table name without spaces.  It never
  changes another table.  If it is answered with a number of rows, which may be more than the tokens when several rows have
  the same one, then these tokens are out of the table.  If it is answered with an error, be it because there is no such table, because the
  connection broke or any other, then some of them may be out or none; nothing else is.  The state may hold whatever decides
  between these.  Nobody else writes the tables.
\<close>

definition delete_documented :: "'d db \<Rightarrow> ('d \<Rightarrow> string \<Rightarrow> string set) \<Rightarrow> (string \<Rightarrow> string) \<Rightarrow> bool" where
  "delete_documented db rows names \<longleftrightarrow>
     (\<forall>g p tks d. tks \<noteq> [] \<and> CHR '' '' \<notin> set (table_name g p) \<longrightarrow>
       (case db (delete_query tks g p) tks d of (res, d') \<Rightarrow>
          (\<forall>table. table \<noteq> names (table_name g p) \<longrightarrow> rows d' table = rows d table)
          \<and> (let table = names (table_name g p) in
             case res of
               Rows k \<Rightarrow> rows d' table = rows d table - set tks
             | Exec_error e \<Rightarrow> rows d table - set tks \<subseteq> rows d' table \<and> rows d' table \<subseteq> rows d table)))"

text \<open>The table a token is in, the tokens of a table in a list, and what the broker's tokens are like.\<close>

definition table_of :: "(string \<Rightarrow> string) \<Rightarrow> InvalidToken \<Rightarrow> string" where
  "table_of names t = names (table_name (it_Game t) (it_Platform t))"

definition tokens_of :: "(string \<Rightarrow> string) \<Rightarrow> string \<Rightarrow> InvalidToken list \<Rightarrow> string set" where
  "tokens_of names table ts = {Token t | t. t \<in> set ts \<and> table_of names t = table}"

definition token_ok :: "InvalidToken \<Rightarrow> bool" where
  "token_ok t \<longleftrightarrow> it_Platform t \<in> {''apns'', ''gcm''} \<and> CHR '' '' \<notin> set (it_Game t)"

lemma tokens_of_append [simp]: "tokens_of names table (ts @ ts') = tokens_of names table ts \<union> tokens_of names table ts'"
  and tokens_of_Nil [simp]: "tokens_of names table [] = {}"
  by (auto simp: tokens_of_def)

lemma tokens_of_Cons: "tokens_of names table (t # ts) = (if table_of names t = table then {Token t} else {}) \<union> tokens_of names table ts"
  by (auto simp: tokens_of_def)

lemma tokens_of_mono: "set ts \<subseteq> set ts' \<Longrightarrow> tokens_of names table ts \<subseteq> tokens_of names table ts'"
  by (auto simp: tokens_of_def)

text \<open>The change of the tables by a deletion of tokens of which some were refused.\<close>

definition takes_out ::
    "(string \<Rightarrow> string) \<Rightarrow> InvalidToken list \<Rightarrow> InvalidToken list \<Rightarrow> (string \<Rightarrow> string set) \<Rightarrow> (string \<Rightarrow> string set) \<Rightarrow> bool" where
  "takes_out names ts lost T T' \<longleftrightarrow>
     (\<forall>table. T table - tokens_of names table ts \<subseteq> T' table \<and> T' table \<subseteq> T table
        \<and> T' table \<inter> tokens_of names table ts \<subseteq> tokens_of names table lost)"

lemma takes_out_Nil [simp]: "takes_out names [] [] T T"
  by (simp add: takes_out_def)

lemma takes_out_trans:
  assumes "takes_out names ts lost T T'" "takes_out names ts' lost' T' T''"
  shows "takes_out names (ts @ ts') (lost @ lost') T T''"
  unfolding takes_out_def
proof (intro allI conjI)
  fix table
  note one = assms(1) [unfolded takes_out_def, rule_format, of table]
  note two = assms(2) [unfolded takes_out_def, rule_format, of table]
  show "T table - tokens_of names table (ts @ ts') \<subseteq> T'' table" using one two by auto
  show "T'' table \<subseteq> T table" using one two by auto
  show "T'' table \<inter> tokens_of names table (ts @ ts') \<subseteq> tokens_of names table (lost @ lost')"
    using one two by auto
qed

lemma takes_out_cong:
  assumes "takes_out names ts lost T T'" "set ts = set ts'"
  shows "takes_out names ts' lost T T'"
  using assms unfolding takes_out_def tokens_of_def by simp

abbreviation group_tokens :: "string \<times> string \<times> string list \<Rightarrow> InvalidToken list" where
  "group_tokens \<equiv> \<lambda>(p, g, tks). map (\<lambda>u. \<lparr>Token = u, it_Game = g, it_Platform = p\<rparr>) tks"

lemma tokens_of_group:
  "tokens_of names table (map (\<lambda>u. \<lparr>Token = u, it_Game = g, it_Platform = p\<rparr>) tks) = (if table = names (table_name g p) then set tks else {})"
  by (force simp: tokens_of_def table_of_def)

lemma query_takes_out:
  assumes "delete_documented db rows names" "tks \<noteq> []" "CHR '' '' \<notin> set (table_name g p)"
    and "db (delete_query tks g p) tks d = (res, d')"
  shows "takes_out names (group_tokens (p, g, tks)) (case res of Rows k \<Rightarrow> [] | Exec_error e \<Rightarrow> group_tokens (p, g, tks)) (rows d) (rows d')"
proof -
  have spec: "(\<forall>table. table \<noteq> names (table_name g p) \<longrightarrow> rows d' table = rows d table)
      \<and> (let table = names (table_name g p) in
         case res of Rows k \<Rightarrow> rows d' table = rows d table - set tks
         | Exec_error e \<Rightarrow> rows d table - set tks \<subseteq> rows d' table \<and> rows d' table \<subseteq> rows d table)"
    using assms(1) [unfolded delete_documented_def, rule_format, of tks g p d] assms(2-4) by simp
  then show ?thesis
    unfolding takes_out_def prod.case tokens_of_group by (cases res) (auto simp: Let_def tokens_of_group)
qed

lemma run_deletions_takes_out:
  assumes "delete_documented db rows names"
  shows "\<forall>(p, g, tks) \<in> set gs. tks \<noteq> [] \<and> CHR '' '' \<notin> set (table_name g p) \<Longrightarrow>
    takes_out names (concat (map group_tokens gs)) (refused db gs d) (rows d) (rows (snd (run_deletions db rs gs d)))"
proof (induction gs arbitrary: d)
  case (Cons x gs)
  obtain p g tks where x: "x = (p, g, tks)" by (cases x)
  obtain res d' where q: "db (delete_query tks g p) tks d = (res, d')" by (cases "db (delete_query tks g p) tks d")
  have "takes_out names (group_tokens x) (case res of Rows k \<Rightarrow> [] | Exec_error e \<Rightarrow> group_tokens x) (rows d) (rows d')"
    unfolding x by (rule query_takes_out [OF assms _ _ q]) (use Cons.prems x in auto)
  moreover have "takes_out names (concat (map group_tokens gs)) (refused db gs d') (rows d') (rows (snd (run_deletions db rs gs d')))"
    using Cons by auto
  moreover have "refused db (x # gs) d = (case res of Rows k \<Rightarrow> [] | Exec_error e \<Rightarrow> group_tokens x) @ refused db gs d'"
    by (simp add: x q split: exec_result.split)
  moreover have "snd (run_deletions db rs (x # gs) d) = snd (run_deletions db rs gs d')"
    by (simp add: x q Let_def case_prod_beta deleteFromGame_on_def)
  ultimately show ?case using takes_out_trans by simp
qed simp

lemma refused_asked: "set (refused db gs d) \<subseteq> set (concat (map group_tokens gs))"
proof (induction gs arbitrary: d)
  case (Cons x gs)
  obtain p g tks where x: "x = (p, g, tks)" by (cases x)
  obtain res d' where q: "db (delete_query tks g p) tks d = (res, d')" by (cases "db (delete_query tks g p) tks d")
  show ?case using Cons [of d'] by (cases res) (auto simp: x q)
qed simp

text \<open>A batch of the broker's tokens.\<close>

lemma batch_deleted:
  assumes "\<forall>t \<in> set batch. token_ok t"
  obtains gs where "deleteTokens batch = Some gs" "set (concat (map group_tokens gs)) = set batch"
    "\<forall>(p, g, tks) \<in> set gs. tks \<noteq> [] \<and> CHR '' '' \<notin> set (table_name g p)"
proof -
  obtain gs where gs: "deleteTokens batch = Some gs"
    and groups: "\<And>p g ts. (p, g, ts) \<in> set gs \<longleftrightarrow>
         ts = map Token (filter (\<lambda>t. it_Platform t = p \<and> it_Game t = g) batch) \<and> ts \<noteq> []"
    using deleteTokens_grouped [of batch] assms by (auto simp: token_ok_def)
  have tokens: "set (group_tokens (p, g, map Token (filter (\<lambda>t. it_Platform t = p \<and> it_Game t = g) batch)))
      = {t \<in> set batch. it_Platform t = p \<and> it_Game t = g}" for p g
  proof -
    have same: "\<lparr>Token = Token t, it_Game = it_Game t, it_Platform = it_Platform t\<rparr> = t" for t by (cases t) simp
    show ?thesis by (auto simp: image_iff same) (metis same)
  qed
  have in_group: "x = (p, g, map Token (filter (\<lambda>t. it_Platform t = p \<and> it_Game t = g) batch))
      \<and> filter (\<lambda>t. it_Platform t = p \<and> it_Game t = g) batch \<noteq> []"
    if "x \<in> set gs" "p = fst x" "g = fst (snd x)" for x p g
    using that groups [of p g "snd (snd x)"] by (auto simp: prod_eq_iff)
  have some: "\<exists>t \<in> set batch. it_Platform t = fst x \<and> it_Game t = fst (snd x)" if "x \<in> set gs" for x
    using in_group [OF that refl refl] by (auto simp: filter_empty_conv)
  have "set (group_tokens x) = {t \<in> set batch. it_Platform t = fst x \<and> it_Game t = fst (snd x)}" if "x \<in> set gs" for x
    using tokens [of "fst x" "fst (snd x)"] in_group [OF that refl refl] by metis
  then have "set (concat (map group_tokens gs)) \<subseteq> set batch" by auto
  moreover have "t \<in> set (concat (map group_tokens gs))" if "t \<in> set batch" for t
  proof -
    let ?ts = "map Token (filter (\<lambda>s. it_Platform s = it_Platform t \<and> it_Game s = it_Game t) batch)"
    have t: "t \<in> set (group_tokens (it_Platform t, it_Game t, ?ts))" unfolding tokens using that by simp
    have "?ts \<noteq> []" using that by (auto simp: filter_empty_conv)
    then have "(it_Platform t, it_Game t, ?ts) \<in> set gs" unfolding groups by simp
    with t show ?thesis unfolding set_concat set_map by blast
  qed
  moreover have "tks \<noteq> [] \<and> CHR '' '' \<notin> set (table_name g p)" if "(p, g, tks) \<in> set gs" for p g tks
    using that groups [of p g tks] some [OF that] assms by (auto simp: token_ok_def table_name_def)
  ultimately show thesis using that [OF gs] by blast
qed

section \<open>A turn and a run\<close>

lemma handler_turn_fst: "handler_turn db rs e s = Some (ev, s') \<Longrightarrow> fst s' = snd (processEvent e (fst s))"
  by (auto simp: handler_turn_def split: prod.splits option.splits)

lemma handler_turn_total:
  assumes "\<forall>t \<in> set (Buffer (fst s) @ tokens_in [e]). token_ok t"
  obtains ev s' where "handler_turn db rs e s = Some (ev, s')"
proof -
  obtain b i where turn: "processEvent e (fst s) = (b, i)" by (cases "processEvent e (fst s)")
  have "\<exists>x. handler_turn db rs e s = Some x"
  proof (cases b)
    case (Some batch)
    have "set batch \<subseteq> set (Buffer (fst s) @ tokens_in [e])"
      by (rule batch_subset) (simp add: turn Some)
    then have "\<forall>t \<in> set batch. token_ok t" using assms by blast
    then show ?thesis by (rule batch_deleted) (simp add: handler_turn_def turn Some deleteTokens_on_def case_prod_beta)
  qed (simp add: handler_turn_def turn)
  then show thesis using that by auto
qed

lemma handler_turn_takes_out:
  assumes "delete_documented db rows names" "\<forall>t \<in> set (Buffer (fst s) @ tokens_in [e]). token_ok t"
    and "handler_turn db rs e s = Some (ev, s')"
  shows "takes_out names (concat (batch_list (fst (processEvent e (fst s))))) (turn_refused db e s) (rows (snd s)) (rows (snd s'))"
    "set (turn_refused db e s) \<subseteq> set (concat (batch_list (fst (processEvent e (fst s)))))"
proof -
  obtain b i where turn: "processEvent e (fst s) = (b, i)" by (cases "processEvent e (fst s)")
  have "takes_out names (concat (batch_list b)) (turn_refused db e s) (rows (snd s)) (rows (snd s'))
    \<and> set (turn_refused db e s) \<subseteq> set (concat (batch_list b))"
  proof (cases b)
    case None
    then show ?thesis using assms(3) by (auto simp: handler_turn_def turn turn_refused_def)
  next
    case (Some batch)
    have "set batch \<subseteq> set (Buffer (fst s) @ tokens_in [e])"
      by (rule batch_subset) (simp add: turn Some)
    then have "\<forall>t \<in> set batch. token_ok t" using assms(2) by blast
    then obtain gs where gs: "deleteTokens batch = Some gs" "set (concat (map group_tokens gs)) = set batch"
      "\<forall>(p, g, tks) \<in> set gs. tks \<noteq> [] \<and> CHR '' '' \<notin> set (table_name g p)" by (rule batch_deleted)
    have "snd s' = snd (run_deletions db rs gs (snd s))" "turn_refused db e s = refused db gs (snd s)"
      using assms(3) by (auto simp: handler_turn_def turn turn_refused_def Some gs(1) deleteTokens_on_def split: prod.splits)
    then show ?thesis
      using takes_out_cong [OF run_deletions_takes_out [OF assms(1) gs(3)] gs(2)] refused_asked [of db gs "snd s"] gs(2) Some
      by simp
  qed
  then show "takes_out names (concat (batch_list (fst (processEvent e (fst s))))) (turn_refused db e s) (rows (snd s)) (rows (snd s'))"
    "set (turn_refused db e s) \<subseteq> set (concat (batch_list (fst (processEvent e (fst s)))))" by (simp_all add: turn)
qed

lemma turn_tokens_ok:
  assumes "\<forall>t \<in> set (Buffer i @ tokens_in [e]). token_ok t"
  shows "\<forall>t \<in> set (Buffer (snd (processEvent e i))). token_ok t"
proof -
  have "set (Buffer (snd (processEvent e i))) \<subseteq> set (Buffer i @ tokens_in [e])"
    by (simp only: processEvent_tokens [symmetric]) auto
  then show ?thesis using assms by blast
qed

lemma handler_run_takes_out:
  assumes "delete_documented db rows names"
  shows "\<forall>t \<in> set (Buffer (fst s) @ tokens_in es). token_ok t \<Longrightarrow>
    \<exists>evs s'. handler_run db rs es s = Some (evs, s') \<and> fst s' = snd (processMessages es (fst s))
      \<and> takes_out names (concat (fst (processMessages es (fst s)))) (run_refused db rs es s) (rows (snd s)) (rows (snd s'))"
proof (induction es arbitrary: s)
  case (Cons e es)
  have ok: "\<forall>t \<in> set (Buffer (fst s) @ tokens_in [e]). token_ok t" "\<forall>t \<in> set (tokens_in es). token_ok t"
    using Cons.prems tokens_in_append [of "[e]" es] by auto
  obtain ev s1 where s1: "handler_turn db rs e s = Some (ev, s1)" by (rule handler_turn_total [OF ok(1)])
  note fst_s1 = handler_turn_fst [OF s1]
  have "\<forall>t \<in> set (Buffer (fst s1) @ tokens_in es). token_ok t"
    using turn_tokens_ok [OF ok(1)] ok(2) by (auto simp: fst_s1)
  from Cons.IH [OF this] obtain evs s' where s': "handler_run db rs es s1 = Some (evs, s')"
    "fst s' = snd (processMessages es (fst s1))"
    "takes_out names (concat (fst (processMessages es (fst s1)))) (run_refused db rs es s1) (rows (snd s1)) (rows (snd s'))"
    by blast
  have "takes_out names (concat (batch_list (fst (processEvent e (fst s)))) @ concat (fst (processMessages es (fst s1))))
      (turn_refused db e s @ run_refused db rs es s1) (rows (snd s)) (rows (snd s'))"
    by (rule takes_out_trans [OF handler_turn_takes_out(1) [OF assms ok(1) s1] s'(3)])
  moreover have "concat (fst (processMessages (e # es) (fst s)))
      = concat (batch_list (fst (processEvent e (fst s)))) @ concat (fst (processMessages es (fst s1)))"
    "snd (processMessages (e # es) (fst s)) = snd (processMessages es (fst s1))"
    by (auto simp: fst_s1 case_prod_beta Let_def split: option.split)
  ultimately show ?case using s1 s' by simp
qed simp

section \<open>The handler refines the specification\<close>

fun delete_at_once :: "(string \<Rightarrow> string) \<Rightarrow> event \<Rightarrow> (string \<Rightarrow> string set) \<Rightarrow> string \<Rightarrow> string set" where
  "delete_at_once names (Token_in t) tables = tables(table_of names t := tables (table_of names t) - {Token t})"
| "delete_at_once names Flush_tick tables = tables"

text \<open>The tables a state stands for: those of the database without what the buffer will delete.\<close>

definition abstract_tables ::
    "('d \<Rightarrow> string \<Rightarrow> string set) \<Rightarrow> (string \<Rightarrow> string) \<Rightarrow> InvalidTokenHandler \<times> 'd \<Rightarrow> string \<Rightarrow> string set" where
  "abstract_tables rows names s table = rows (snd s) table - tokens_of names table (Buffer (fst s))"

lemma delete_all_at_once: "fold (delete_at_once names) es T table = T table - tokens_of names table (tokens_in es)"
proof (induction es arbitrary: T)
  case (Cons e es)
  then show ?case by (cases e) (auto simp: tokens_of_Cons)
qed simp

text \<open>
  \<^bold>\<open>C23\<close>  The buffering handler refines immediate deletion: over any run with tokens of the broker's
  platforms, whatever the database answers, the handler does not panic, and the tables of the database without what is still in
  its buffer are those that deleting each token at once would have made, but for tokens that the database
  refused to delete, answering an error.
\<close>

theorem handler_refines_deletion:
  assumes "delete_documented db rows names" "\<forall>t \<in> set (Buffer (fst s)). token_ok t"
    and "\<forall>t \<in> set (tokens_in es). token_ok t"
  shows "\<exists>evs s'. handler_run db rs es s = Some (evs, s')
    \<and> (\<forall>table. fold (delete_at_once names) es (abstract_tables rows names s) table \<subseteq> abstract_tables rows names s' table
        \<and> abstract_tables rows names s' table
            \<subseteq> fold (delete_at_once names) es (abstract_tables rows names s) table
              \<union> tokens_of names table (run_refused db rs es s))"
proof -
  have "\<forall>t \<in> set (Buffer (fst s) @ tokens_in es). token_ok t" using assms(2,3) by auto
  from handler_run_takes_out [OF assms(1) this, of rs]
  obtain evs s' where s': "handler_run db rs es s = Some (evs, s')" "fst s' = snd (processMessages es (fst s))"
    and out: "takes_out names (concat (fst (processMessages es (fst s)))) (run_refused db rs es s) (rows (snd s)) (rows (snd s'))"
    by blast
  have spec: "fold (delete_at_once names) es (abstract_tables rows names s) table
      = rows (snd s) table - tokens_of names table (concat (fst (processMessages es (fst s))) @ Buffer (fst s'))" for table
    unfolding delete_all_at_once abstract_tables_def s'(2) processMessages_tokens [THEN conjunct1] by auto
  have "fold (delete_at_once names) es (abstract_tables rows names s) table \<subseteq> abstract_tables rows names s' table
      \<and> abstract_tables rows names s' table \<subseteq> fold (delete_at_once names) es (abstract_tables rows names s) table
          \<union> tokens_of names table (run_refused db rs es s)" for table
    using out [unfolded takes_out_def, rule_format, of table] unfolding spec abstract_tables_def [of rows names s'] by auto
  then show ?thesis using s'(1) by blast
qed

section \<open>Databases\<close>

text \<open>A database in memory: the table is read off the query, and its rows are deleted.\<close>

definition memory_table :: "string \<Rightarrow> string" where
  "memory_table query = takeWhile (\<lambda>c. c \<noteq> CHR '' '') (drop (length ''DELETE FROM '') query)"

definition memory_db :: "(string \<times> string) list db" where
  "memory_db query tks d =
     (let t = memory_table query in
      (Rows (int (length (filter (\<lambda>r. fst r = t \<and> snd r \<in> set tks) d))), filter (\<lambda>r. \<not> (fst r = t \<and> snd r \<in> set tks)) d))"

definition memory_rows :: "(string \<times> string) list \<Rightarrow> string \<Rightarrow> string set" where
  "memory_rows d table = {u. (table, u) \<in> set d}"

lemma memory_table_query:
  "CHR '' '' \<notin> set (table_name g p) \<Longrightarrow> memory_table (delete_query tks g p) = table_name g p"
  by (simp add: memory_table_def delete_query_def table_name_def takeWhile_append)

lemma memory_db_documented: "delete_documented memory_db memory_rows id"
  by (auto simp: delete_documented_def memory_db_def memory_rows_def memory_table_query Let_def)

lemma memory_never_refuses: "turn_refused memory_db e s = []"
proof -
  have "refused memory_db gs d = []" for gs d
    by (induction memory_db gs d rule: refused.induct) (simp_all add: memory_db_def Let_def)
  then show ?thesis by (simp add: turn_refused_def split: option.split)
qed

text \<open>The same with a script of the errors it answers next.\<close>

definition flaky_db :: "((string \<times> string) list \<times> string option list) db" where
  "flaky_db query tks d =
     (case snd d of
        Some e # script \<Rightarrow> (Exec_error e, fst d, script)
      | script \<Rightarrow> (fst (memory_db query tks (fst d)), snd (memory_db query tks (fst d)), tl script))"

lemma flaky_db_documented: "delete_documented flaky_db (\<lambda>d. memory_rows (fst d)) id"
  unfolding delete_documented_def
proof (intro allI impI)
  fix g p and tks :: "string list" and d :: "(string \<times> string) list \<times> string option list"
  assume "tks \<noteq> [] \<and> CHR '' '' \<notin> set (table_name g p)"
  then have "memory_table (delete_query tks g p) = table_name g p" by (simp add: memory_table_query)
  then have mem: "memory_rows (snd (memory_db (delete_query tks g p) tks (fst d))) table
        = memory_rows (fst d) table - (if table = table_name g p then set tks else {})"
    "\<exists>k. fst (memory_db (delete_query tks g p) tks (fst d)) = Rows k" for table
    by (auto simp: memory_db_def memory_rows_def Let_def)
  have "(\<exists>e. flaky_db (delete_query tks g p) tks d = (Exec_error e, fst d, tl (snd d)))
      \<or> (\<exists>k. flaky_db (delete_query tks g p) tks d
          = (Rows k, snd (memory_db (delete_query tks g p) tks (fst d)), tl (snd d)))"
    using mem(2) by (auto simp: flaky_db_def split: list.split option.split)
  then show "case flaky_db (delete_query tks g p) tks d of (res, d') \<Rightarrow>
          (\<forall>table. table \<noteq> id (table_name g p) \<longrightarrow> memory_rows (fst d') table = memory_rows (fst d) table)
          \<and> (let table = id (table_name g p) in
             case res of
               Rows k \<Rightarrow> memory_rows (fst d') table = memory_rows (fst d) table - set tks
             | Exec_error e \<Rightarrow> memory_rows (fst d) table - set tks \<subseteq> memory_rows (fst d') table
                 \<and> memory_rows (fst d') table \<subseteq> memory_rows (fst d) table)"
    by (elim disjE exE) (simp_all add: mem(1))
qed

text \<open>The first query breaks, the second does not.\<close>

theorem handler_refines_deletion_witness:
  "\<exists>evs s'. handler_run flaky_db [] [Token_in \<lparr>Token = ''a'', it_Game = ''g'', it_Platform = ''gcm''\<rparr>, Flush_tick,
        Token_in \<lparr>Token = ''b'', it_Game = ''g'', it_Platform = ''gcm''\<rparr>, Flush_tick]
      (\<lparr>flushTime = i64 5000000000, Buffer = [], bufferSize = i64 2\<rparr>,
       [(''g_gcm'', ''a''), (''g_gcm'', ''b''), (''g_gcm'', ''c'')], [Some ''EOF'']) = Some (evs, s')
    \<and> {''c''} \<subseteq> memory_rows (fst (snd s')) ''g_gcm'' \<and> memory_rows (fst (snd s')) ''g_gcm'' \<subseteq> {''a'', ''c''} \<and> Buffer (fst s') = []"
proof -
  let ?a = "\<lparr>Token = ''a'', it_Game = ''g'', it_Platform = ''gcm''\<rparr>" and ?b = "\<lparr>Token = ''b'', it_Game = ''g'', it_Platform = ''gcm''\<rparr>"
  let ?es = "[Token_in ?a, Flush_tick, Token_in ?b, Flush_tick]"
  let ?s = "(\<lparr>flushTime = i64 5000000000, Buffer = [], bufferSize = i64 2\<rparr>,
       [(''g_gcm'', ''a''), (''g_gcm'', ''b''), (''g_gcm'', ''c'')], [Some ''EOF''])"
  let ?abs = "abstract_tables (\<lambda>d. memory_rows (fst d)) id"
  have run: "map_option (\<lambda>x. Buffer (fst (snd x))) (handler_run flaky_db [] ?es ?s) = Some []"
    "map Token (run_refused flaky_db [] ?es ?s) = [''a'']"
    by code_simp+
  have "\<forall>t \<in> set (Buffer (fst ?s)). token_ok t" "\<forall>t \<in> set (tokens_in ?es). token_ok t"
    by (simp_all add: token_ok_def)
  from handler_refines_deletion [OF flaky_db_documented this, of "[]"]
  obtain evs s' where s': "handler_run flaky_db [] ?es ?s = Some (evs, s')"
    "\<And>table. fold (delete_at_once id) ?es (?abs ?s) table \<subseteq> ?abs s' table
        \<and> ?abs s' table \<subseteq> fold (delete_at_once id) ?es (?abs ?s) table \<union> tokens_of id table (run_refused flaky_db [] ?es ?s)"
    by blast
  then have empty: "Buffer (fst s') = []" using run(1) by simp
  have spec: "fold (delete_at_once id) ?es (?abs ?s) ''g_gcm'' = {''c''}"
    by (auto simp: delete_all_at_once abstract_tables_def memory_rows_def tokens_of_Cons table_of_def table_name_def)
  have "tokens_of id table ts \<subseteq> set (map Token ts)" for table ts by (auto simp: tokens_of_def)
  then have "tokens_of id table (run_refused flaky_db [] ?es ?s) \<subseteq> {''a''}" for table
    using run(2) by (metis list.simps(15) empty_set)
  then have "?abs s' ''g_gcm'' \<subseteq> {''a'', ''c''}" "{''c''} \<subseteq> ?abs s' ''g_gcm''"
    using s'(2) [of "''g_gcm''"] unfolding spec by blast+
  then show ?thesis using s'(1) empty by (intro exI [of _ evs] exI [of _ s']) (simp add: abstract_tables_def)
qed

section \<open>Every token is counted once, and every row\<close>

text \<open>The sum of the counts one reporter gets for the tokens of a deletion.\<close>

definition counted :: "reporter \<Rightarrow> metrics \<Rightarrow> int" where
  "counted r ev = sum_list (map (\<lambda>(r', c). if r' = r then (case c of ReportMetricCount _ v _ _ \<Rightarrow> int_of v | _ \<Rightarrow> 0) else 0) ev)"

lemma counted_append [simp]: "counted r (ev @ ev') = counted r ev + counted r ev'" "counted r [] = 0"
  by (simp_all add: counted_def)

lemma counted_metric:
  "distinct rs \<Longrightarrow> r \<in> set rs \<Longrightarrow> in_int64 v \<Longrightarrow> counted r (metric_count rs metric v g p) = v"
proof (induction rs)
  case (Cons a rs)
  have "counted r (metric_count rs metric v g p) = 0" if "r \<notin> set rs"
    using that by (induction rs) (auto simp: counted_def metric_count_def)
  with Cons show ?case by (auto simp: counted_def metric_count_def)
qed simp

lemma deletion_counted:
  assumes "distinct rs" "r \<in> set rs" "int (length tks) < 2 ^ 63"
    and "\<And>k. exec (delete_query tks g p) tks = Rows k \<Longrightarrow> 0 \<le> k \<and> k < 2 ^ 63"
  shows "counted r (fst (snd (deleteTokensFromGame exec rs tks g p))) =
    (case exec (delete_query tks g p) tks of Rows k \<Rightarrow> max (int (length tks)) k | Exec_error e \<Rightarrow> int (length tks))"
proof (cases "exec (delete_query tks g p) tks")
  case (Rows k)
  then have k: "0 \<le> k" "k < 2 ^ 63" using assms(4) by auto
  then have "in_int64 k" "k < int (length tks) \<Longrightarrow> in_int64 (int (length tks) - k)" using assms(3) by (auto simp: in_int64_def)
  then show ?thesis
    using k Rows counted_metric [OF assms(1,2)] by (simp add: deleteTokensFromGame_def Let_def)
next
  case (Exec_error e)
  have "in_int64 (int (length tks))" using assms(3) by (auto simp: in_int64_def)
  then show ?thesis
    using Exec_error counted_metric [OF assms(1,2)] by (simp add: deleteTokensFromGame_def Let_def)
qed

end
