(* ===== verification/Viper.thy ===== *)
theory Viper
  imports Prelude
begin

text \<open>
  The configuration the program reads through the library \<^verbatim>\<open>viper\<close>: what the file and the
  environment set is the parameter, a partial map of typed values; a default counts where nothing is
  set, and the zero value where there is no default either.  The library's conversions between types
  are left out: a value of another type reads as zero.
\<close>

datatype cval = CStr string | CInt int64 | CBool bool | CList "string list"

type_synonym viper = "string \<Rightarrow> cval option"

type_synonym defaults = "(string \<times> cval) list"

definition lookup_config :: "viper \<Rightarrow> defaults \<Rightarrow> string \<Rightarrow> cval option" where
  "lookup_config v d k = (case v k of Some x \<Rightarrow> Some x | None \<Rightarrow> map_of d k)"

definition GetString :: "viper \<Rightarrow> defaults \<Rightarrow> string \<Rightarrow> string" where
  "GetString v d k = (case lookup_config v d k of Some (CStr s) \<Rightarrow> s | _ \<Rightarrow> '''')"

definition GetInt :: "viper \<Rightarrow> defaults \<Rightarrow> string \<Rightarrow> int64" where
  "GetInt v d k = (case lookup_config v d k of Some (CInt i) \<Rightarrow> i | _ \<Rightarrow> 0)"

definition GetBool :: "viper \<Rightarrow> defaults \<Rightarrow> string \<Rightarrow> bool" where
  "GetBool v d k = (case lookup_config v d k of Some (CBool b) \<Rightarrow> b | _ \<Rightarrow> False)"

definition GetStringSlice :: "viper \<Rightarrow> defaults \<Rightarrow> string \<Rightarrow> string list" where
  "GetStringSlice v d k = (case lookup_config v d k of Some (CList l) \<Rightarrow> l | _ \<Rightarrow> [])"

text \<open>An unsigned integer; a negative one, which the library refuses to convert, reads as zero.\<close>

definition GetUint :: "viper \<Rightarrow> defaults \<Rightarrow> string \<Rightarrow> nat" where
  "GetUint v d k = (case lookup_config v d k of Some (CInt i) \<Rightarrow> nat (int_of i) | _ \<Rightarrow> 0)"

text \<open>A duration is an integer of nanoseconds, or a text, which the library reads: the parameter.\<close>

definition GetDuration :: "(string \<Rightarrow> int64) \<Rightarrow> viper \<Rightarrow> defaults \<Rightarrow> string \<Rightarrow> int64" where
  "GetDuration parse v d k = (case lookup_config v d k of Some (CInt i) \<Rightarrow> i | Some (CStr s) \<Rightarrow> parse s | _ \<Rightarrow> 0)"

text \<open>A channel or a slice cannot be made with a negative size: \<open>None\<close> is the panic.\<close>

definition make_size :: "int64 \<Rightarrow> nat option" where
  "make_size n = (if n < 0 then None else Some (nat (int_of n)))"

lemmas getters = GetString_def GetInt_def GetBool_def GetStringSlice_def GetUint_def GetDuration_def lookup_config_def

end
