(* ===== verification/Kafka_Consumer.thy ===== *)
theory Kafka_Consumer
  imports Broker Viper
begin

text \<open>
  The two Kafka consumers, \<^verbatim>\<open>extensions/kafka_consumer.go\<close> for the messages to push and
  \<^verbatim>\<open>feedback/kafka_consumer.go\<close> for the feedbacks.  The client of Kafka is a parameter: what it
  answers to each call.  The loop of a consumer is a run over what each of its turns finds.
\<close>

section \<open>Configuration\<close>

record consumer_config =
  c_OffsetResetStrategy :: string
  c_Brokers :: string
  c_ConsumerGroup :: string
  c_SessionTimeout :: int64
  c_FetchMinBytes :: int64
  c_FetchWaitMaxMs :: int64
  c_Topics :: "string list"
  c_ChannelSize :: int64
  c_HandleAllMessagesBeforeExiting :: bool

definition consumer_defaults :: defaults where
  "consumer_defaults =
     [(''queue.topics'', CList [''com.games.test'']),
      (''queue.brokers'', CStr ''localhost:9092''),
      (''queue.channelSize'', CInt (i64 100)),
      (''queue.fetch.min.bytes'', CInt (i64 1)),
      (''queue.fetch.wait.max.ms'', CInt (i64 100)),
      (''queue.group'', CStr ''test''),
      (''queue.sessionTimeout'', CInt (i64 6000)),
      (''queue.offsetResetStrategy'', CStr ''latest''),
      (''queue.handleAllMessagesBeforeExiting'', CBool True)]"

definition configure_consumer :: "viper \<Rightarrow> consumer_config" where
  "configure_consumer v =
     \<lparr>c_OffsetResetStrategy = GetString v consumer_defaults ''queue.offsetResetStrategy'',
      c_Brokers = GetString v consumer_defaults ''queue.brokers'',
      c_ConsumerGroup = GetString v consumer_defaults ''queue.group'',
      c_SessionTimeout = GetInt v consumer_defaults ''queue.sessionTimeout'',
      c_FetchMinBytes = GetInt v consumer_defaults ''queue.fetch.min.bytes'',
      c_FetchWaitMaxMs = GetInt v consumer_defaults ''queue.fetch.wait.max.ms'',
      c_Topics = GetStringSlice v consumer_defaults ''queue.topics'',
      c_ChannelSize = GetInt v consumer_defaults ''queue.channelSize'',
      c_HandleAllMessagesBeforeExiting = GetBool v consumer_defaults ''queue.handleAllMessagesBeforeExiting''\<rparr>"

definition feedback_consumer_defaults :: defaults where
  "feedback_consumer_defaults =
     [(''feedbackListeners.queue.topics'', CList [''com.games.test'']),
      (''feedbackListeners.queue.brokers'', CStr ''localhost:9092''),
      (''feedbackListeners.queue.channelSize'', CInt (i64 100)),
      (''feedbackListeners.queue.fetch.min.bytes'', CInt (i64 1)),
      (''feedbackListeners.queue.fetch.wait.max.ms'', CInt (i64 100)),
      (''feedbackListeners.queue.group'', CStr ''test''),
      (''feedbackListeners.queue.sessionTimeout'', CInt (i64 6000)),
      (''feedbackListeners.queue.offsetResetStrategy'', CStr ''latest''),
      (''feedbackListeners.queue.handleAllMessagesBeforeExiting'', CBool True)]"

definition configure_feedback_consumer :: "viper \<Rightarrow> consumer_config" where
  "configure_feedback_consumer v =
     \<lparr>c_OffsetResetStrategy = GetString v feedback_consumer_defaults ''feedbackListeners.queue.offsetResetStrategy'',
      c_Brokers = GetString v feedback_consumer_defaults ''feedbackListeners.queue.brokers'',
      c_ConsumerGroup = GetString v feedback_consumer_defaults ''feedbackListeners.queue.group'',
      c_SessionTimeout = GetInt v feedback_consumer_defaults ''feedbackListeners.queue.sessionTimeout'',
      c_FetchMinBytes = GetInt v feedback_consumer_defaults ''feedbackListeners.queue.fetch.min.bytes'',
      c_FetchWaitMaxMs = GetInt v feedback_consumer_defaults ''feedbackListeners.queue.fetch.wait.max.ms'',
      c_Topics = GetStringSlice v feedback_consumer_defaults ''feedbackListeners.queue.topics'',
      c_ChannelSize = GetInt v feedback_consumer_defaults ''feedbackListeners.queue.channelSize'',
      c_HandleAllMessagesBeforeExiting = GetBool v feedback_consumer_defaults ''feedbackListeners.queue.handleAllMessagesBeforeExiting''\<rparr>"

text \<open>The configuration the client is made with, as a map of the library.\<close>

datatype kafka_value = KStr string | KInt int64 | KBool bool | KMap "(string \<times> kafka_value) list"

type_synonym ConfigMap = "(string \<times> kafka_value) list"

definition consumer_ConfigMap :: "consumer_config \<Rightarrow> ConfigMap" where
  "consumer_ConfigMap q =
     [(''bootstrap.servers'', KStr (c_Brokers q)),
      (''group.id'', KStr (c_ConsumerGroup q)),
      (''fetch.min.bytes'', KInt (c_FetchMinBytes q)),
      (''fetch.wait.max.ms'', KInt (c_FetchWaitMaxMs q)),
      (''session.timeout.ms'', KInt (c_SessionTimeout q)),
      (''enable.auto.commit'', KBool True),
      (''default.topic.config'', KMap [(''auto.offset.reset'', KStr (c_OffsetResetStrategy q))])]"

text \<open>
  Making a consumer: its channel, and then its client, which fails with an error or not.  \<open>None\<close>
  is the panic on a channel of a negative size.
\<close>

definition configureConsumer :: "(ConfigMap \<Rightarrow> string option) \<Rightarrow> consumer_config \<Rightarrow> string + consumer_config" where
  "configureConsumer new_client q =
     (case new_client (consumer_ConfigMap q) of Some err \<Rightarrow> Inl err | None \<Rightarrow> Inr q)"

definition NewKafkaConsumer :: "(ConfigMap \<Rightarrow> string option) \<Rightarrow> viper \<Rightarrow> (string + consumer_config) option" where
  "NewKafkaConsumer new_client v =
     (let q = configure_consumer v in
      case make_size (c_ChannelSize q) of None \<Rightarrow> None | Some _ \<Rightarrow> Some (configureConsumer new_client q))"

definition feedback_NewKafkaConsumer :: "(ConfigMap \<Rightarrow> string option) \<Rightarrow> viper \<Rightarrow> (string + consumer_config) option" where
  "feedback_NewKafkaConsumer new_client v =
     (let q = configure_feedback_consumer v in
      case make_size (c_ChannelSize q) of None \<Rightarrow> None | Some _ \<Rightarrow> Some (configureConsumer new_client q))"

section \<open>Pausing and resuming a topic\<close>

record TopicPartition =
  tp_Topic :: string
  tp_Partition :: int

fun of_topic :: "string \<Rightarrow> TopicPartition list \<Rightarrow> TopicPartition list" where
  "of_topic topic [] = []"
| "of_topic topic (tp # tps) = (if tp_Topic tp = topic then tp # of_topic topic tps else of_topic topic tps)"

text \<open>The client's answer is an error text, or none; with the partitions it was asked for, if it was asked.\<close>

definition Pause ::
    "string + TopicPartition list \<Rightarrow> (TopicPartition list \<Rightarrow> string option) \<Rightarrow> string \<Rightarrow> TopicPartition list option \<times> string option" where
  "Pause assignment client_Pause topic =
     (case assignment of
        Inl err \<Rightarrow> (None, Some err)
      | Inr topicPartitions \<Rightarrow>
        (let toPause = of_topic topic topicPartitions in
         if toPause = [] then (None, Some (''not subscribed to provided topic: '' @ topic))
         else (Some toPause, client_Pause toPause)))"

definition Resume ::
    "string + TopicPartition list \<Rightarrow> (TopicPartition list \<Rightarrow> string option) \<Rightarrow> string \<Rightarrow> TopicPartition list option \<times> string option" where
  "Resume assignment client_Resume topic =
     (case assignment of
        Inl err \<Rightarrow> (None, Some err)
      | Inr topicPartitions \<Rightarrow>
        (let toResume = of_topic topic topicPartitions in
         if toResume = [] then (None, Some (''not subscribed to provided topic: '' @ topic))
         else (Some toResume, client_Resume toResume)))"

section \<open>Receiving and the loop\<close>

text \<open>\<open>None\<close> is the panic on a topic that cannot be read.\<close>

definition push_receiveMessage :: "feedback_message \<Rightarrow> KafkaMessage option" where
  "push_receiveMessage m =
     (case GetGameAndPlatformFromTopic (fm_Topic m) of
        None \<Rightarrow> None
      | Some parsed \<Rightarrow> Some \<lparr>km_Game = Game parsed, km_Platform = Platform parsed, km_Topic = fm_Topic m, km_Value = fm_Value m\<rparr>)"

text \<open>
  What a turn of the loop finds: a closed stop channel or context, or what \<open>ReadMessage\<close> returns.
  An error of the library is a time-out or not; an error of any other type without a message makes the
  type assertion panic; a message can come with an error, and is then skipped.
\<close>

datatype turn = Stopped | Timed_out | Kafka_error | Foreign_error | Message_error | Read feedback_message

datatype outcome = Running | Returned | Panicked

text \<open>The messages sent to the channel, how often the wait group was counted up, and how the loop stands.\<close>

fun consume :: "(feedback_message \<Rightarrow> 'm option) \<Rightarrow> turn list \<Rightarrow> 'm list \<times> nat \<times> outcome" where
  "consume receive [] = ([], 0, Running)"
| "consume receive (Stopped # ts) = ([], 0, Returned)"
| "consume receive (Timed_out # ts) = consume receive ts"
| "consume receive (Kafka_error # ts) = consume receive ts"
| "consume receive (Message_error # ts) = consume receive ts"
| "consume receive (Foreign_error # ts) = ([], 0, Panicked)"
| "consume receive (Read m # ts) =
    (case receive m of
       None \<Rightarrow> ([], 1, Panicked)
     | Some x \<Rightarrow> (case consume receive ts of (xs, n, oc) \<Rightarrow> (x # xs, n + 1, oc)))"

text \<open>
  The whole of \<open>ConsumeLoop\<close>: for the messages to push, a topic that is no regular expression
  makes the method call on the nil pattern panic; an error of the subscription is returned.
\<close>

definition push_ConsumeLoop :: "(string \<Rightarrow> bool) \<Rightarrow> string option \<Rightarrow> string list \<Rightarrow> turn list \<Rightarrow> KafkaMessage list \<times> nat \<times> outcome" where
  "push_ConsumeLoop compiles subscribe topics ts =
     (if \<not> list_all compiles topics then ([], 0, Panicked)
      else if subscribe \<noteq> None then ([], 0, Returned)
      else consume push_receiveMessage ts)"

definition feedback_ConsumeLoop :: "string option \<Rightarrow> turn list \<Rightarrow> QueueMessage list \<times> nat \<times> outcome" where
  "feedback_ConsumeLoop subscribe ts =
     (if subscribe \<noteq> None then ([], 0, Returned) else consume receiveMessage ts)"

text \<open>
  The end of a consumer.  The one of the messages to push closes its stop channel, which panics when it is closed
  already; the one of the feedbacks cancels a context, which can be done again.  Closing the client, where there is
  one, may answer an error.
\<close>

definition StopConsuming :: "bool \<Rightarrow> bool option" where
  "StopConsuming closed = (if closed then None else Some True)"

definition feedback_StopConsuming :: "bool \<Rightarrow> bool" where
  "feedback_StopConsuming cancelled = True"

definition Consumer_Cleanup :: "string option option \<Rightarrow> string option" where
  "Consumer_Cleanup close_client = (case close_client of None \<Rightarrow> None | Some answer \<Rightarrow> answer)"

definition feedback_Cleanup :: "bool \<Rightarrow> string option option \<Rightarrow> bool \<times> string option" where
  "feedback_Cleanup cancelled close_client =
     (if cancelled then cancelled else feedback_StopConsuming cancelled, Consumer_Cleanup close_client)"

text \<open>So the listener may clean its consumer up after it has stopped it, and a pusher may stop its own only once.\<close>

lemma stop_again:
  "feedback_Cleanup (feedback_StopConsuming cancelled) c = feedback_Cleanup cancelled c"
  "fst (feedback_Cleanup cancelled c)"
  "Option.bind (StopConsuming closed) StopConsuming = None"
  by (simp_all add: feedback_Cleanup_def feedback_StopConsuming_def StopConsuming_def)

text \<open>
  Where the loop stands while the other goroutines run: at the head of its loop, in \<open>ReadMessage\<close>,
  with a message that it has counted in the wait group and is about to send, or it has returned.
\<close>

datatype 'm consumer_state = At_select | Reading | Received 'm | Consumer_returned

definition consumer_load :: "'m consumer_state \<Rightarrow> nat" where
  "consumer_load x = (case x of Received q \<Rightarrow> 1 | _ \<Rightarrow> 0)"

section \<open>Properties\<close>

text \<open>\<open>read_before_stop ts\<close> are the messages read until the loop is stopped.\<close>

fun read_before_stop :: "turn list \<Rightarrow> feedback_message list" where
  "read_before_stop [] = []"
| "read_before_stop (Stopped # ts) = []"
| "read_before_stop (Read m # ts) = m # read_before_stop ts"
| "read_before_stop (_ # ts) = read_before_stop ts"

definition readable :: "feedback_message \<Rightarrow> bool" where
  "readable m \<longleftrightarrow> (\<exists>g p. reads_as (fm_Topic m) g p)"

lemma readable_iff: "readable m \<longleftrightarrow> GetGameAndPlatformFromTopic (fm_Topic m) \<noteq> None"
  using reading_exists GetGameAndPlatform_Some_iff unfolding readable_def by (metis option.exhaust)

lemma receive_readable: "push_receiveMessage m \<noteq> None \<longleftrightarrow> readable m" "receiveMessage m \<noteq> None \<longleftrightarrow> readable m"
  by (simp_all add: readable_iff push_receiveMessage_def receiveMessage_def split: option.split)

lemma consume_all:
  "Foreign_error \<notin> set ts \<Longrightarrow> \<forall>m \<in> set (read_before_stop ts). receive m \<noteq> None \<Longrightarrow>
    consume receive ts = (map (\<lambda>m. the (receive m)) (read_before_stop ts), length (read_before_stop ts),
      if Stopped \<in> set ts then Returned else Running)"
  by (induction ts rule: read_before_stop.induct) (auto split: option.split)

text \<open>
  A consumer that finds only topics it can read, and only errors of Kafka, never panics:
  it sends on every message it read before it was stopped, in order and with its game and platform, and
  counts each of them in the wait group exactly once.
\<close>

lemma consumer_delivers:
  assumes "list_all compiles topics" "Foreign_error \<notin> set ts" "\<forall>m \<in> set (read_before_stop ts). readable m"
  shows "\<exists>oc. push_ConsumeLoop compiles None topics ts =
      (map (\<lambda>m. the (push_receiveMessage m)) (read_before_stop ts), length (read_before_stop ts), oc)
    \<and> oc = (if Stopped \<in> set ts then Returned else Running)
    \<and> feedback_ConsumeLoop None ts = (map (\<lambda>m. the (receiveMessage m)) (read_before_stop ts), length (read_before_stop ts), oc)"
  using assms consume_all [of ts push_receiveMessage] consume_all [of ts receiveMessage] receive_readable
  by (simp add: push_ConsumeLoop_def feedback_ConsumeLoop_def)

lemma consumer_delivers_example:
  "fst (push_ConsumeLoop (\<lambda>t. True) None [''push-.*''] [Timed_out, Read (SendFeedback_message ''g'' ''gcm'' ''v''), Stopped])
    = [\<lparr>km_Game = ''g'', km_Platform = ''gcm'', km_Topic = ''push-g-gcm-feedbacks'', km_Value = ''v''\<rparr>]"
proof -
  let ?m = "SendFeedback_message ''g'' ''gcm'' ''v''"
  have m: "push_receiveMessage ?m = Some \<lparr>km_Game = ''g'', km_Platform = ''gcm'', km_Topic = ''push-g-gcm-feedbacks'', km_Value = ''v''\<rparr>"
    by code_simp
  then have "readable ?m" using receive_readable(1) [of ?m] by simp
  then show ?thesis
    using consumer_delivers [of "\<lambda>t. True" "[''push-.*'']" "[Timed_out, Read ?m, Stopped]"] m by auto
qed

lemma of_topic_filter: "of_topic t tps = filter (\<lambda>tp. tp_Topic tp = t) tps"
  by (induction tps) auto

text \<open>
  Pausing and resuming a topic reach the client with exactly the assigned partitions of
  that topic, and with none of them there is an error and the client is not called.
\<close>

lemma pause_resume_partitions:
  "fst (Pause (Inr tps) client topic) = (if \<exists>tp \<in> set tps. tp_Topic tp = topic then Some (filter (\<lambda>tp. tp_Topic tp = topic) tps) else None)
   \<and> fst (Resume (Inr tps) client topic) = fst (Pause (Inr tps) client topic)
   \<and> (snd (Pause (Inr tps) (\<lambda>_. None) topic) = None \<longleftrightarrow> (\<exists>tp \<in> set tps. tp_Topic tp = topic))
   \<and> fst (Pause (Inl err) client topic) = None \<and> snd (Resume (Inl err) client topic) = Some err"
  by (auto simp: Pause_def Resume_def of_topic_filter Let_def filter_empty_conv)

text \<open>
  The defaults do not work: a consumer configured by defaults alone subscribes to one
  topic whose messages it cannot read, and the first message of it makes the consumer panic after
  it was counted in the wait group.
\<close>

lemma default_topic_panics:
  "c_Topics (configure_consumer (\<lambda>k. None)) = [''com.games.test'']
   \<and> c_Topics (configure_feedback_consumer (\<lambda>k. None)) = [''com.games.test'']
   \<and> consume push_receiveMessage (Read \<lparr>fm_Topic = ''com.games.test'', fm_Value = v\<rparr> # ts) = ([], 1, Panicked)
   \<and> consume receiveMessage (Read \<lparr>fm_Topic = ''com.games.test'', fm_Value = v\<rparr> # ts) = ([], 1, Panicked)"
proof -
  have "GetGameAndPlatformFromTopic ''com.games.test'' = None" by code_simp
  then show ?thesis
    by (simp add: configure_consumer_def configure_feedback_consumer_def getters consumer_defaults_def
        feedback_consumer_defaults_def push_receiveMessage_def receiveMessage_def)
qed

end
