(* ===== verification/Feedback_Pipeline.thy ===== *)
theory Feedback_Pipeline
  imports Token_Store Kafka_Consumer
begin

text \<open>
  The feedback listener at work: the goroutines of consumer, broker and handler of invalid tokens with the
  two channels between them (\<^verbatim>\<open>feedback/kafka_consumer.go\<close>, \<^verbatim>\<open>broker.go\<close>, \<^verbatim>\<open>invalid_token.go\<close>), and the
  clean-up of \<^verbatim>\<open>listener.go\<close>, which stops them one after the other, as steps of one state machine.  A panic
  ends the process.
\<close>

section \<open>The state and its steps\<close>

datatype broker_state = Broker_waiting | Broker_sending InvalidToken | Broker_returned

text \<open>
  How far \<open>Start\<close> has got: its loop, the calls of \<open>Cleanup\<close> in their order, and the wait for the wait
  group.  In the wait the goroutine of \<open>WaitTimeout\<close> calls \<open>Wait\<close>: it has not looked at the counter yet (\<open>Handler_stop_closed\<close>),
  sleeps because the counter was not zero, has been woken by the \<open>Done\<close> that brought it to zero, or has returned
  (\<open>Zero_counted\<close>).  At last the process ends, with or without a time-out.
\<close>

datatype cleanup = Listening | Consumer_stopped | Broker_stop_closed | Out_closed | Handler_stop_closed
  | Wait_asleep | Wait_woken | Zero_counted | Listener_exited bool

text \<open>The next call of \<open>Cleanup\<close>, until it waits.\<close>

fun next_cleanup :: "cleanup \<Rightarrow> cleanup option" where
  "next_cleanup Listening = Some Consumer_stopped"
| "next_cleanup Consumer_stopped = Some Broker_stop_closed"
| "next_cleanup Broker_stop_closed = Some Out_closed"
| "next_cleanup Out_closed = Some Handler_stop_closed"
| "next_cleanup _ = None"

definition broker_stopped :: "cleanup \<Rightarrow> bool" where
  "broker_stopped x \<longleftrightarrow> x \<notin> {Listening, Consumer_stopped}"

definition out_closed :: "cleanup \<Rightarrow> bool" where
  "out_closed x \<longleftrightarrow> x \<notin> {Listening, Consumer_stopped, Broker_stop_closed}"

definition handler_stopped :: "cleanup \<Rightarrow> bool" where
  "handler_stopped x \<longleftrightarrow> x \<notin> {Listening, Consumer_stopped, Broker_stop_closed, Out_closed}"

lemmas cleanup_defs = broker_stopped_def out_closed_def handler_stopped_def

text \<open>
  \<open>gracefulShutdown\<close>: where its wait can get to next, given whether there is a wait group and what it counts.  The time may
  run out at any moment, and when \<open>Wait\<close> has returned, \<open>select\<close> may still take the time-out (\<open>Listener_exited True\<close>).
  A sleeper that has been woken and finds the counter above zero again panics (\<open>None\<close>).
\<close>

fun gracefulShutdown :: "bool \<Rightarrow> int \<Rightarrow> cleanup \<Rightarrow> cleanup option list" where
  "gracefulShutdown hasWG n Handler_stop_closed =
     (if hasWG then [Some (Listener_exited True), Some (if n = 0 then Zero_counted else Wait_asleep)]
      else [Some (Listener_exited False)])"
| "gracefulShutdown hasWG n Wait_asleep = [Some (Listener_exited True)]"
| "gracefulShutdown hasWG n Wait_woken = [Some (Listener_exited True), if n = 0 then Some Zero_counted else None]"
| "gracefulShutdown hasWG n Zero_counted = [Some (Listener_exited False), Some (Listener_exited True)]"
| "gracefulShutdown hasWG n _ = []"

lemma gracefulShutdown_None: "None \<in> set (gracefulShutdown hasWG n x) \<longleftrightarrow> x = Wait_woken \<and> n \<noteq> 0"
  by (cases x) auto

record 'd feedback_state =
  fb_wg :: int
  fb_consumer :: "QueueMessage consumer_state"
  fb_msgChan :: "QueueMessage list"
  fb_broker :: broker_state
  fb_InvalidTokenOutChan :: "InvalidToken list"
  fb_handler :: InvalidTokenHandler
  fb_handler_runs :: bool
  fb_db :: 'd
  fb_cleanup :: cleanup
  fb_panicked :: bool
  fb_routed :: "InvalidToken list"
  fb_deleted :: "InvalidToken list list"
  fb_refused :: "InvalidToken list"

text \<open>
  The last three fields are a history: the tokens the broker has picked out, the batches the handler has taken
  to the database, and those of their tokens for which the database answered an error.  The configuration: the sizes
  of the channels, whether there is a wait group, which messages of Kafka the topics subscribed to let through, and the
  time between two reports.
\<close>

record feedback_config =
  fc_msgChan_size :: nat
  fc_OutChan_size :: nat
  fc_hasWG :: bool
  fc_enabled :: bool
  fc_subscribed :: "feedback_message \<Rightarrow> bool"
  fc_statsFlushTime :: int64

definition feedback_initial :: "InvalidTokenHandler \<Rightarrow> 'd \<Rightarrow> 'd feedback_state" where
  "feedback_initial h d =
     \<lparr>fb_wg = 0, fb_consumer = At_select, fb_msgChan = [], fb_broker = Broker_waiting, fb_InvalidTokenOutChan = [],
      fb_handler = h, fb_handler_runs = True, fb_db = d, fb_cleanup = Listening, fb_panicked = False,
      fb_routed = [], fb_deleted = [], fb_refused = []\<rparr>"

text \<open>\<open>Done\<close> panics below zero, and wakes the sleeper when it gets to zero.\<close>

definition fb_Done :: "int \<Rightarrow> 'd feedback_state \<Rightarrow> 'd feedback_state" where
  "fb_Done k s =
     s\<lparr>fb_wg := fb_wg s - k, fb_panicked := (fb_wg s < k),
       fb_cleanup := (if fb_cleanup s = Wait_asleep \<and> 0 < k \<and> fb_wg s = k then Wait_woken else fb_cleanup s)\<rparr>"

lemma fb_Done_simps [simp]:
  "fb_wg (fb_Done k s) = fb_wg s - k" "fb_panicked (fb_Done k s) \<longleftrightarrow> fb_wg s < k"
  "fb_cleanup (fb_Done k s) = (if fb_cleanup s = Wait_asleep \<and> 0 < k \<and> fb_wg s = k then Wait_woken else fb_cleanup s)"
  "fb_consumer (fb_Done k s) = fb_consumer s" "fb_msgChan (fb_Done k s) = fb_msgChan s" "fb_broker (fb_Done k s) = fb_broker s"
  "fb_InvalidTokenOutChan (fb_Done k s) = fb_InvalidTokenOutChan s" "fb_handler (fb_Done k s) = fb_handler s"
  "fb_handler_runs (fb_Done k s) = fb_handler_runs s" "fb_db (fb_Done k s) = fb_db s" "fb_routed (fb_Done k s) = fb_routed s"
  "fb_deleted (fb_Done k s) = fb_deleted s" "fb_refused (fb_Done k s) = fb_refused s"
  by (simp_all add: fb_Done_def)

text \<open>A turn of the handler with the tokens left in its channel; \<open>None\<close> is a panic.\<close>

definition handler_takes :: "'d db \<Rightarrow> reporter list \<Rightarrow> event \<Rightarrow> InvalidToken list \<Rightarrow> 'd feedback_state \<Rightarrow> 'd feedback_state" where
  "handler_takes db rs e left s =
     (case handler_turn db rs e (fb_handler s, fb_db s) of
        None \<Rightarrow> s\<lparr>fb_panicked := True\<rparr>
      | Some (ev, h, d) \<Rightarrow> s\<lparr>fb_InvalidTokenOutChan := left, fb_handler := h, fb_db := d,
          fb_deleted := fb_deleted s @ batch_list (fst (processEvent e (fb_handler s))),
          fb_refused := fb_refused s @ turn_refused db e (fb_handler s, fb_db s)\<rparr>)"

text \<open>The process ends when the clean-up returns or anything panics.\<close>

definition listener_alive :: "'d feedback_state \<Rightarrow> bool" where
  "listener_alive s \<longleftrightarrow> \<not> fb_panicked s \<and> (\<forall>late. fb_cleanup s \<noteq> Listener_exited late)"

text \<open>
  The goroutine of the handler begins with its ticker, and \<open>Start\<close> goes on to its loop with another; either panics when its time
  is not above zero.  From its closed and empty channel the handler gets nothing, at once and as often as it looks.  Between the two
  writes of the \<open>Done\<close> that wakes the sleeper, an \<open>Add\<close> from zero panics itself (\<open>add_panics\<close>); after them it is the sleeper that
  panics, unless the counter is back at zero by then (\<open>wait_panics\<close>).
\<close>

inductive feedback_step ::
    "(reason \<Rightarrow> string) \<Rightarrow> feedback_readers \<Rightarrow> feedback_config \<Rightarrow> 'd db \<Rightarrow> reporter list
      \<Rightarrow> 'd feedback_state \<Rightarrow> 'd feedback_state \<Rightarrow> bool" for rc lib c db rs where
  consumer_reads: "listener_alive s \<Longrightarrow> fb_consumer s = At_select \<Longrightarrow> fb_cleanup s = Listening
    \<Longrightarrow> feedback_step rc lib c db rs s (s\<lparr>fb_consumer := Reading\<rparr>)"
| consumer_returns: "listener_alive s \<Longrightarrow> fb_consumer s = At_select \<Longrightarrow> fb_cleanup s \<noteq> Listening
    \<Longrightarrow> feedback_step rc lib c db rs s (s\<lparr>fb_consumer := Consumer_returned\<rparr>)"
| read_nothing: "listener_alive s \<Longrightarrow> fb_consumer s = Reading
    \<Longrightarrow> feedback_step rc lib c db rs s (s\<lparr>fb_consumer := At_select\<rparr>)"
| read_message: "listener_alive s \<Longrightarrow> fb_consumer s = Reading \<Longrightarrow> fc_subscribed c m \<Longrightarrow> receiveMessage m = Some q
    \<Longrightarrow> feedback_step rc lib c db rs s (s\<lparr>fb_consumer := Received q, fb_wg := fb_wg s + of_bool (fc_hasWG c)\<rparr>)"
| add_panics: "listener_alive s \<Longrightarrow> fb_consumer s = Reading \<Longrightarrow> fc_subscribed c m \<Longrightarrow> fc_hasWG c
    \<Longrightarrow> fb_cleanup s = Wait_woken \<Longrightarrow> fb_wg s = 0
    \<Longrightarrow> feedback_step rc lib c db rs s (s\<lparr>fb_panicked := True, fb_wg := 1\<rparr>)"
| read_unreadable: "listener_alive s \<Longrightarrow> fb_consumer s = Reading \<Longrightarrow> fc_subscribed c m \<Longrightarrow> receiveMessage m = None
    \<Longrightarrow> feedback_step rc lib c db rs s (s\<lparr>fb_panicked := True, fb_wg := fb_wg s + of_bool (fc_hasWG c)\<rparr>)"
| consumer_sends: "listener_alive s \<Longrightarrow> fb_consumer s = Received q \<Longrightarrow> length (fb_msgChan s) < fc_msgChan_size c
    \<Longrightarrow> feedback_step rc lib c db rs s (s\<lparr>fb_consumer := At_select, fb_msgChan := fb_msgChan s @ [q]\<rparr>)"
| broker_settles: "listener_alive s \<Longrightarrow> fb_broker s = Broker_waiting \<Longrightarrow> fb_msgChan s = q # qs
    \<Longrightarrow> processMessage rc lib (fc_enabled c) (fc_hasWG c) q = es \<Longrightarrow> started es = []
    \<Longrightarrow> feedback_step rc lib c db rs s (fb_Done (int (dones es)) (s\<lparr>fb_msgChan := qs\<rparr>))"
| broker_routes: "listener_alive s \<Longrightarrow> fb_broker s = Broker_waiting \<Longrightarrow> fb_msgChan s = q # qs
    \<Longrightarrow> started (processMessage rc lib (fc_enabled c) (fc_hasWG c) q) = [t]
    \<Longrightarrow> feedback_step rc lib c db rs s (s\<lparr>fb_msgChan := qs, fb_broker := Broker_sending t, fb_routed := fb_routed s @ [t]\<rparr>)"
| broker_sends: "listener_alive s \<Longrightarrow> fb_broker s = Broker_sending t \<Longrightarrow> \<not> out_closed (fb_cleanup s)
    \<Longrightarrow> length (fb_InvalidTokenOutChan s) < fc_OutChan_size c
    \<Longrightarrow> feedback_step rc lib c db rs s (fb_Done (of_bool (fc_hasWG c)) (s\<lparr>fb_broker := Broker_waiting,
          fb_InvalidTokenOutChan := fb_InvalidTokenOutChan s @ [t]\<rparr>))"
| broker_panics: "listener_alive s \<Longrightarrow> fb_broker s = Broker_sending t \<Longrightarrow> out_closed (fb_cleanup s)
    \<Longrightarrow> feedback_step rc lib c db rs s (s\<lparr>fb_panicked := True\<rparr>)"
| broker_returns: "listener_alive s \<Longrightarrow> fb_broker s = Broker_waiting
    \<Longrightarrow> broker_stopped (fb_cleanup s)
    \<Longrightarrow> feedback_step rc lib c db rs s (s\<lparr>fb_broker := Broker_returned\<rparr>)"
| handler_panics: "listener_alive s \<Longrightarrow> fb_handler_runs s \<Longrightarrow> NewTicker_panics (flushTime (fb_handler s))
    \<Longrightarrow> feedback_step rc lib c db rs s (s\<lparr>fb_panicked := True\<rparr>)"
| handler_receives: "listener_alive s \<Longrightarrow> fb_handler_runs s \<Longrightarrow> \<not> NewTicker_panics (flushTime (fb_handler s))
    \<Longrightarrow> fb_InvalidTokenOutChan s = t # ts
    \<Longrightarrow> feedback_step rc lib c db rs s (handler_takes db rs (Token_in t) ts s)"
| handler_finds_closed: "listener_alive s \<Longrightarrow> fb_handler_runs s \<Longrightarrow> \<not> NewTicker_panics (flushTime (fb_handler s))
    \<Longrightarrow> fb_InvalidTokenOutChan s = [] \<Longrightarrow> out_closed (fb_cleanup s) \<Longrightarrow> feedback_step rc lib c db rs s s"
| handler_flushes: "listener_alive s \<Longrightarrow> fb_handler_runs s \<Longrightarrow> \<not> NewTicker_panics (flushTime (fb_handler s))
    \<Longrightarrow> feedback_step rc lib c db rs s (handler_takes db rs Flush_tick (fb_InvalidTokenOutChan s) s)"
| handler_returns: "listener_alive s \<Longrightarrow> fb_handler_runs s \<Longrightarrow> \<not> NewTicker_panics (flushTime (fb_handler s))
    \<Longrightarrow> handler_stopped (fb_cleanup s)
    \<Longrightarrow> feedback_step rc lib c db rs s (s\<lparr>fb_handler_runs := False\<rparr>)"
| start_panics: "listener_alive s \<Longrightarrow> fb_cleanup s = Listening \<Longrightarrow> NewTicker_panics (fc_statsFlushTime c)
    \<Longrightarrow> feedback_step rc lib c db rs s (s\<lparr>fb_panicked := True\<rparr>)"
| cleans: "listener_alive s \<Longrightarrow> (fb_cleanup s = Listening \<longrightarrow> \<not> NewTicker_panics (fc_statsFlushTime c))
    \<Longrightarrow> next_cleanup (fb_cleanup s) = Some x \<Longrightarrow> feedback_step rc lib c db rs s (s\<lparr>fb_cleanup := x\<rparr>)"
| gracefulShutdown: "listener_alive s \<Longrightarrow> Some x \<in> set (gracefulShutdown (fc_hasWG c) (fb_wg s) (fb_cleanup s))
    \<Longrightarrow> feedback_step rc lib c db rs s (s\<lparr>fb_cleanup := x\<rparr>)"
| wait_panics: "listener_alive s \<Longrightarrow> None \<in> set (gracefulShutdown (fc_hasWG c) (fb_wg s) (fb_cleanup s))
    \<Longrightarrow> feedback_step rc lib c db rs s (s\<lparr>fb_panicked := True\<rparr>)"

inductive feedback_reach ::
    "(reason \<Rightarrow> string) \<Rightarrow> feedback_readers \<Rightarrow> feedback_config \<Rightarrow> 'd db \<Rightarrow> reporter list
      \<Rightarrow> InvalidTokenHandler \<Rightarrow> 'd \<Rightarrow> 'd feedback_state \<Rightarrow> bool" for rc lib c db rs h d where
  start: "feedback_reach rc lib c db rs h d (feedback_initial h d)"
| step: "feedback_reach rc lib c db rs h d s \<Longrightarrow> feedback_step rc lib c db rs s t \<Longrightarrow> feedback_reach rc lib c db rs h d t"

section \<open>The invariant\<close>

definition broker_load :: "broker_state \<Rightarrow> InvalidToken list" where
  "broker_load x = (case x of Broker_sending t \<Rightarrow> [t] | _ \<Rightarrow> [])"

lemmas loads = consumer_load_def broker_load_def

definition feedback_pending :: "'d feedback_state \<Rightarrow> nat" where
  "feedback_pending s = consumer_load (fb_consumer s) + length (fb_msgChan s) + length (broker_load (fb_broker s))"

definition undeleted :: "'d feedback_state \<Rightarrow> InvalidToken list" where
  "undeleted s = Buffer (fb_handler s) @ fb_InvalidTokenOutChan s @ broker_load (fb_broker s)"


definition queued :: "'d feedback_state \<Rightarrow> QueueMessage list" where
  "queued s = fb_msgChan s @ (case fb_consumer s of Received q \<Rightarrow> [q] | _ \<Rightarrow> [])"

lemma nothing_queued: "feedback_pending s = 0 \<Longrightarrow> queued s = []"
  by (auto simp: feedback_pending_def queued_def loads split: consumer_state.splits)

lemma handler_takes_ok:
  assumes "\<forall>t \<in> set (Buffer (fb_handler s) @ tokens_in [e]). token_ok t"
  obtains ev d where "handler_turn db rs e (fb_handler s, fb_db s) = Some (ev, snd (processEvent e (fb_handler s)), d)"
    "handler_takes db rs e left s = s\<lparr>fb_InvalidTokenOutChan := left, fb_handler := snd (processEvent e (fb_handler s)),
      fb_db := d, fb_deleted := fb_deleted s @ batch_list (fst (processEvent e (fb_handler s))),
      fb_refused := fb_refused s @ turn_refused db e (fb_handler s, fb_db s)\<rparr>"
proof -
  have "\<forall>t \<in> set (Buffer (fst (fb_handler s, fb_db s)) @ tokens_in [e]). token_ok t" using assms by simp
  then obtain ev s' where turn: "handler_turn db rs e (fb_handler s, fb_db s) = Some (ev, s')" by (rule handler_turn_total)
  moreover from handler_turn_fst [OF turn] have "fst s' = snd (processEvent e (fb_handler s))" by simp
  ultimately show thesis by (cases s') (auto simp: handler_takes_def intro: that)
qed

text \<open>
  What can have panicked: the broker on the closed channel, the wait group when it is used again, the two tickers.
\<close>

definition panic_cause :: "feedback_config \<Rightarrow> int64 \<Rightarrow> 'd feedback_state \<Rightarrow> bool" where
  "panic_cause c flush s \<longleftrightarrow>
     (out_closed (fb_cleanup s) \<and> broker_load (fb_broker s) \<noteq> []) \<or> fb_cleanup s = Wait_woken
     \<or> NewTicker_panics flush \<or> (fb_cleanup s = Listening \<and> NewTicker_panics (fc_statsFlushTime c))"

definition feedback_inv :: "feedback_config \<Rightarrow> int64 \<Rightarrow> 'd feedback_state \<Rightarrow> bool" where
  "feedback_inv c flush s \<longleftrightarrow>
     (if fb_panicked s then panic_cause c flush s
      else fb_wg s = int (feedback_pending s) \<and> (fb_cleanup s = Wait_asleep \<longrightarrow> 0 < fb_wg s))
     \<and> flushTime (fb_handler s) = flush \<and> fb_routed s = concat (fb_deleted s) @ undeleted s
     \<and> (\<forall>t \<in> set (fb_routed s). token_ok t) \<and> (\<forall>q \<in> set (queued s). CHR '' '' \<notin> set (q_Game q))
     \<and> length (fb_msgChan s) \<le> fc_msgChan_size c \<and> length (fb_InvalidTokenOutChan s) \<le> fc_OutChan_size c"

lemma in_game_no_space: "in_game g \<Longrightarrow> CHR '' '' \<notin> set g"
  and game_ok_no_space: "game_ok g \<Longrightarrow> CHR '' '' \<notin> set g"
  by (induction g and g rule: in_game_game_ok.induct) (auto simp: is_word_def split: if_splits)

lemma received_game: "receiveMessage m = Some q \<Longrightarrow> CHR '' '' \<notin> set (q_Game q)"
  using game_ok_no_space
  by (auto simp: receiveMessage_def GetGameAndPlatform_Some_iff reads_as_def split: option.splits)

lemma routed_ok:
  "started (processMessage rc lib enabled hasWG q) = [t] \<Longrightarrow> CHR '' '' \<notin> set (q_Game q) \<Longrightarrow> token_ok t"
  by (auto simp: processMessage_def routeAPNSMessage_def routeGCMMessage_def token_ok_def APNSPlatform_def GCMPlatform_def
      split: if_splits)


lemma processMessage_done: "dones (processMessage rc lib enabled hasWG q) = of_bool hasWG"
  by (simp add: processMessage_def)

lemma inv_tokens_ok:
  assumes "feedback_inv c flush s" "fb_InvalidTokenOutChan s = tokens_in [e] @ left"
  shows "\<forall>t \<in> set (Buffer (fb_handler s) @ tokens_in [e]). token_ok t"
  using assms by (auto simp: feedback_inv_def undeleted_def)

lemma handler_step_inv:
  assumes "feedback_inv c flush s" "\<not> fb_panicked s" "fb_InvalidTokenOutChan s = tokens_in [e] @ left"
  shows "feedback_inv c flush (handler_takes db rs e left s)"
proof -
  obtain ev d where t: "handler_takes db rs e left s = s\<lparr>fb_InvalidTokenOutChan := left, fb_handler := snd (processEvent e (fb_handler s)),
      fb_db := d, fb_deleted := fb_deleted s @ batch_list (fst (processEvent e (fb_handler s))),
      fb_refused := fb_refused s @ turn_refused db e (fb_handler s, fb_db s)\<rparr>" (is "_ = ?t")
    by (rule handler_takes_ok [OF inv_tokens_ok [OF assms(1,3)]])
  have "fb_routed ?t = concat (fb_deleted ?t) @ undeleted ?t"
    using assms(1,3) processEvent_tokens [of e "fb_handler s"] by (simp add: undeleted_def feedback_inv_def)
  moreover have "length left \<le> fc_OutChan_size c"
    using assms(1,3) by (cases e) (auto simp: feedback_inv_def)
  ultimately show ?thesis
    using assms(1,2) unfolding t feedback_inv_def by (auto simp: feedback_pending_def queued_def)
qed

lemma feedback_step_inv:
  assumes "fc_hasWG c" "\<And>m. fc_subscribed c m \<Longrightarrow> readable m"
    and "feedback_step rc lib c db rs s t" "feedback_inv c flush s"
  shows "feedback_inv c flush t"
proof -
  note defs = feedback_inv_def feedback_pending_def queued_def undeleted_def loads panic_cause_def
  from assms(3) show ?thesis
  proof (cases rule: feedback_step.cases)
    case (read_message m q)
    then show ?thesis
      using assms(1,4) received_game [of m q] by (simp add: defs listener_alive_def)
  next
    case (read_unreadable m)
    then show ?thesis using assms(2) receive_readable by blast
  next
    case (broker_routes q qs tk)
    have "CHR '' '' \<notin> set (q_Game q)"
      using broker_routes assms(4) by (simp add: feedback_inv_def queued_def split: consumer_state.splits)
    then have "token_ok tk" using routed_ok broker_routes by blast
    then show ?thesis using broker_routes assms(4) by (simp add: defs listener_alive_def)
  next
    case (handler_receives tk ts)
    then show ?thesis using handler_step_inv [OF assms(4), of "Token_in tk" ts db rs] by (simp add: listener_alive_def)
  next
    case handler_flushes
    then show ?thesis using handler_step_inv [OF assms(4), of Flush_tick] by (simp add: listener_alive_def)
  next
    case (gracefulShutdown x)
    then show ?thesis
      using assms(1,4) by (cases "fb_cleanup s") (auto simp: defs listener_alive_def split: if_splits)
  next
    case (cleans x)
    then show ?thesis
      using assms(1,4) by (cases "fb_cleanup s") (auto simp: defs listener_alive_def)
  next
    case wait_panics
    then show ?thesis using assms(4) by (simp add: defs gracefulShutdown_None)
  qed (use assms(1,4) in \<open>auto simp: defs processMessage_done listener_alive_def split: consumer_state.splits\<close>)
qed

lemma feedback_reach_inv:
  assumes "fc_hasWG c" "\<And>m. fc_subscribed c m \<Longrightarrow> readable m" "Buffer h = []"
  shows "feedback_reach rc lib c db rs h d s \<Longrightarrow> feedback_inv c (flushTime h) s"
proof (induction rule: feedback_reach.induct)
  case start
  then show ?case
    using assms(3) by (simp add: feedback_inv_def feedback_initial_def feedback_pending_def queued_def undeleted_def loads)
next
  case (step s t)
  then show ?case using feedback_step_inv [OF assms(1,2)] by blast
qed

lemma feedback_reach_steps:
  "feedback_reach rc lib c db rs h d s \<Longrightarrow> (feedback_step rc lib c db rs)\<^sup>*\<^sup>* s t \<Longrightarrow> feedback_reach rc lib c db rs h d t"
  by (rotate_tac, induction rule: rtranclp_induct) (auto intro: feedback_reach.intros)

lemma reach_from_start:
  "feedback_reach rc lib c db rs h d s \<Longrightarrow> (feedback_step rc lib c db rs)\<^sup>*\<^sup>* (feedback_initial h d) s"
  by (induction rule: feedback_reach.induct) auto

text \<open>
  What a run does to the database: it takes the batches of the run out of the tables, but for what was refused in it.
\<close>

lemma handler_takes_history:
  assumes "delete_documented db rows names" "feedback_inv c flush s" "fb_InvalidTokenOutChan s = tokens_in [e] @ left"
    and "t = handler_takes db rs e left s"
  shows "\<exists>B R. fb_deleted t = fb_deleted s @ B \<and> fb_refused t = fb_refused s @ R
    \<and> takes_out names (concat B) R (rows (fb_db s)) (rows (fb_db t)) \<and> set R \<subseteq> set (concat B)"
proof -
  note ok = inv_tokens_ok [OF assms(2,3)]
  obtain ev d where turn: "handler_turn db rs e (fb_handler s, fb_db s) = Some (ev, snd (processEvent e (fb_handler s)), d)"
    and t: "handler_takes db rs e left s = s\<lparr>fb_InvalidTokenOutChan := left, fb_handler := snd (processEvent e (fb_handler s)),
      fb_db := d, fb_deleted := fb_deleted s @ batch_list (fst (processEvent e (fb_handler s))),
      fb_refused := fb_refused s @ turn_refused db e (fb_handler s, fb_db s)\<rparr>"
    by (rule handler_takes_ok [OF ok])
  have "\<forall>t \<in> set (Buffer (fst (fb_handler s, fb_db s)) @ tokens_in [e]). token_ok t" using ok by simp
  from handler_turn_takes_out [OF assms(1) this turn] show ?thesis
    unfolding assms(4) t by (intro exI conjI) (simp_all, blast?)
qed

lemma step_history:
  assumes "delete_documented db rows names" "feedback_inv c flush s" "feedback_step rc lib c db rs s t"
  shows "\<exists>B R. fb_deleted t = fb_deleted s @ B \<and> fb_refused t = fb_refused s @ R
    \<and> takes_out names (concat B) R (rows (fb_db s)) (rows (fb_db t)) \<and> set R \<subseteq> set (concat B)"
proof -
  have same: ?thesis if "fb_deleted t = fb_deleted s" "fb_refused t = fb_refused s" "fb_db t = fb_db s"
    using that by (intro exI [of _ "[]"]) simp
  from assms(3) show ?thesis
  proof (cases rule: feedback_step.cases)
    case (handler_receives tk ts)
    then show ?thesis using handler_takes_history [OF assms(1,2), of "Token_in tk" ts] by simp
  next
    case handler_flushes
    then show ?thesis using handler_takes_history [OF assms(1,2), of Flush_tick] by simp
  qed (simp_all add: same)
qed

lemma run_history:
  assumes "delete_documented db rows names" "fc_hasWG c" "\<And>m. fc_subscribed c m \<Longrightarrow> readable m" "Buffer h = []"
    and "feedback_reach rc lib c db rs h d s" "(feedback_step rc lib c db rs)\<^sup>*\<^sup>* s t"
  shows "\<exists>B R. fb_deleted t = fb_deleted s @ B \<and> fb_refused t = fb_refused s @ R
    \<and> takes_out names (concat B) R (rows (fb_db s)) (rows (fb_db t)) \<and> set R \<subseteq> set (concat B)"
  using assms(6)
proof (induction rule: rtranclp_induct)
  case base
  then show ?case by (intro exI [of _ "[]"]) simp
next
  case (step t u)
  from step.IH obtain B R where t: "fb_deleted t = fb_deleted s @ B" "fb_refused t = fb_refused s @ R"
    "takes_out names (concat B) R (rows (fb_db s)) (rows (fb_db t))" "set R \<subseteq> set (concat B)" by blast
  have "feedback_inv c (flushTime h) t"
    by (rule feedback_reach_inv [OF assms(2-4) feedback_reach_steps [OF assms(5) step.hyps(1)]])
  from step_history [OF assms(1) this step.hyps(2)] obtain B' R' where u:
    "fb_deleted u = fb_deleted t @ B'" "fb_refused u = fb_refused t @ R'"
    "takes_out names (concat B') R' (rows (fb_db t)) (rows (fb_db u))" "set R' \<subseteq> set (concat B')" by blast
  have "takes_out names (concat (B @ B')) (R @ R') (rows (fb_db s)) (rows (fb_db u))"
    using takes_out_trans [OF t(3) u(3)] by simp
  then show ?case using t u by (intro exI [of _ "B @ B'"] exI [of _ "R @ R'"]) auto
qed

section \<open>What the invariant gives\<close>

text \<open>
  \<^bold>\<open>C21\<close>  The listener in every reachable state, however its goroutines and the clean-up interleave and whatever the database does, if
  it subscribes to readable topics: the wait group counts the messages read and not yet confirmed, and the waiter sleeps only while it
  is above zero; every token the broker has picked out is, in order, in a batch taken to the database, in the buffer, in the channel or about
  to be sent, and in one place only; the channels stay within their sizes; and if anything has panicked, it is the broker with a token
  to send when the channel was closed, the wait group used again while its waiter woke up, or one of the two tickers with a time
  that is not above zero.
\<close>

theorem feedback_accounting:
  assumes "fc_hasWG c" "\<And>m. fc_subscribed c m \<Longrightarrow> readable m" "Buffer h = []"
    and "feedback_reach rc lib c db rs h d s"
  shows "(if fb_panicked s
       then (out_closed (fb_cleanup s) \<and> (\<exists>t. fb_broker s = Broker_sending t)) \<or> fb_cleanup s = Wait_woken
         \<or> NewTicker_panics (flushTime h) \<or> (fb_cleanup s = Listening \<and> NewTicker_panics (fc_statsFlushTime c))
       else fb_wg s = int (feedback_pending s) \<and> (fb_cleanup s = Wait_asleep \<longrightarrow> 0 < fb_wg s))
    \<and> fb_routed s = concat (fb_deleted s) @ undeleted s
    \<and> length (fb_msgChan s) \<le> fc_msgChan_size c \<and> length (fb_InvalidTokenOutChan s) \<le> fc_OutChan_size c"
proof -
  have "broker_load (fb_broker s) \<noteq> [] \<longleftrightarrow> (\<exists>t. fb_broker s = Broker_sending t)"
    by (simp add: broker_load_def split: broker_state.split)
  moreover have "feedback_inv c (flushTime h) s" by (rule feedback_reach_inv [OF assms])
  ultimately show ?thesis unfolding feedback_inv_def panic_cause_def by argo
qed

lemma reach_tables:
  assumes "delete_documented db rows names" "fc_hasWG c" "\<And>m. fc_subscribed c m \<Longrightarrow> readable m" "Buffer h = []"
    and "feedback_reach rc lib c db rs h d s"
  shows "rows d table - tokens_of names table (concat (fb_deleted s)) \<subseteq> rows (fb_db s) table
    \<and> rows (fb_db s) table \<subseteq> rows d table
    \<and> rows (fb_db s) table \<inter> tokens_of names table (fb_routed s) \<subseteq> tokens_of names table (undeleted s @ fb_refused s)
    \<and> set (fb_refused s) \<subseteq> set (concat (fb_deleted s)) \<and> set (concat (fb_deleted s)) \<subseteq> set (fb_routed s)"
proof -
  let ?s0 = "feedback_initial h d"
  obtain B R where "fb_deleted s = fb_deleted ?s0 @ B" "fb_refused s = fb_refused ?s0 @ R"
    "takes_out names (concat B) R (rows (fb_db ?s0)) (rows (fb_db s))" "set R \<subseteq> set (concat B)"
    using run_history [OF assms(1-4) feedback_reach.start reach_from_start [OF assms(5)]] by blast
  then have out: "takes_out names (concat (fb_deleted s)) (fb_refused s) (rows d) (rows (fb_db s))"
    "set (fb_refused s) \<subseteq> set (concat (fb_deleted s))"
    by (simp_all add: feedback_initial_def)
  have "feedback_inv c (flushTime h) s" by (rule feedback_reach_inv [OF assms(2-5)])
  then have routed: "fb_routed s = concat (fb_deleted s) @ undeleted s" by (simp add: feedback_inv_def)
  from out(1) [unfolded takes_out_def, rule_format, of table] show ?thesis
    using out(2) unfolding routed by auto
qed

text \<open>
  \<^bold>\<open>C22\<close>  The tables in every reachable state, whatever errors the database has answered: nothing is gone from a table but tokens
  the broker has picked out for it and the handler has taken to the database; and of the tokens picked out for a table, those still in
  it are on their way to the database, or the database answered an error when it was to delete them.
\<close>

theorem feedback_tables:
  assumes "delete_documented db rows names" "fc_hasWG c" "\<And>m. fc_subscribed c m \<Longrightarrow> readable m" "Buffer h = []"
    and "feedback_reach rc lib c db rs h d s"
  shows "rows d table - tokens_of names table (concat (fb_deleted s)) \<subseteq> rows (fb_db s) table
    \<and> rows (fb_db s) table \<subseteq> rows d table
    \<and> rows (fb_db s) table \<inter> tokens_of names table (fb_routed s) \<subseteq> tokens_of names table (undeleted s @ fb_refused s)
    \<and> set (fb_refused s) \<subseteq> set (concat (fb_deleted s)) \<and> set (concat (fb_deleted s)) \<subseteq> set (fb_routed s)"
  by (rule reach_tables [OF assms])

text \<open>With a database that answers no error nothing is refused.\<close>

lemma nothing_refused:
  assumes "\<And>e s. turn_refused db e s = []"
  shows "feedback_reach rc lib c db rs h d s \<Longrightarrow> fb_refused s = []"
proof (induction rule: feedback_reach.induct)
  case (step s t)
  from step(2,3) show ?case
    by (cases rule: feedback_step.cases) (simp_all add: handler_takes_def assms split: option.split)
qed (simp add: feedback_initial_def)

text \<open>
  No message is passed over: the tokens the broker has picked out, and then those of the messages read and
  not yet routed, in the order they were read, only ever grow at their end.
\<close>

definition dead_tokens :: "(reason \<Rightarrow> string) \<Rightarrow> feedback_readers \<Rightarrow> feedback_config \<Rightarrow> QueueMessage \<Rightarrow> InvalidToken list" where
  "dead_tokens rc lib c q = started (processMessage rc lib (fc_enabled c) (fc_hasWG c) q)"

definition to_route :: "(reason \<Rightarrow> string) \<Rightarrow> feedback_readers \<Rightarrow> feedback_config \<Rightarrow> 'd feedback_state \<Rightarrow> InvalidToken list" where
  "to_route rc lib c s = fb_routed s @ concat (map (dead_tokens rc lib c) (queued s))"

lemma to_route_grows:
  assumes "feedback_step rc lib c db rs s t"
  shows "\<exists>ts. to_route rc lib c t = to_route rc lib c s @ ts"
  using assms
  by (cases rule: feedback_step.cases)
    (auto simp: to_route_def queued_def dead_tokens_def handler_takes_def split: option.split consumer_state.split)

lemma to_route_kept:
  assumes "(feedback_step rc lib c db rs)\<^sup>*\<^sup>* s t"
  shows "\<exists>ts. to_route rc lib c t = to_route rc lib c s @ ts"
  using assms
proof (induction rule: rtranclp_induct)
  case (step t u)
  then show ?case using to_route_grows [OF step(2)] by fastforce
qed simp

section \<open>The clean-up\<close>

lemma handler_takes_same:
  "fb_broker (handler_takes db rs e left s) = fb_broker s" "fb_msgChan (handler_takes db rs e left s) = fb_msgChan s"
  "fb_cleanup (handler_takes db rs e left s) = fb_cleanup s" "fb_handler_runs (handler_takes db rs e left s) = fb_handler_runs s"
  "fb_consumer (handler_takes db rs e left s) = fb_consumer s"
  by (simp_all add: handler_takes_def split: option.split)

lemma broker_gone:
  assumes "feedback_step rc lib c db rs s t" "fb_broker s = Broker_returned" "fb_msgChan s \<noteq> []"
  shows "fb_broker t = Broker_returned \<and> fb_msgChan t \<noteq> []"
  using assms by (auto elim!: feedback_step.cases simp: handler_takes_same)

definition wait_succeeded :: "cleanup \<Rightarrow> bool" where
  "wait_succeeded x \<longleftrightarrow> x \<in> {Zero_counted, Listener_exited False}"

lemma next_cleanup_Some: "next_cleanup x = Some y \<Longrightarrow> \<not> handler_stopped x \<and> y \<noteq> Zero_counted \<and> (\<forall>late. y \<noteq> Listener_exited late)"
  by (cases x) (auto simp: cleanup_defs)

lemma gracefulShutdown_cases:
  "Some y \<in> set (gracefulShutdown hasWG n x) \<Longrightarrow> handler_stopped x
    \<and> (wait_succeeded y \<longrightarrow> wait_succeeded x \<or> \<not> hasWG \<or> n = 0)"
  by (cases x) (auto simp: cleanup_defs wait_succeeded_def split: if_splits)

lemma waits_on:
  assumes "feedback_step rc lib c db rs s t" "fc_hasWG c" "fb_wg s \<noteq> 0" "\<not> wait_succeeded (fb_cleanup s)"
  shows "\<not> wait_succeeded (fb_cleanup t)"
  using assms(1)
proof (cases rule: feedback_step.cases)
  case (cleans x)
  then show ?thesis using next_cleanup_Some by (auto simp: wait_succeeded_def)
next
  case (gracefulShutdown x)
  then show ?thesis using gracefulShutdown_cases assms(2-4) by auto
qed (use assms(4) in \<open>auto simp: handler_takes_same wait_succeeded_def\<close>)

text \<open>
  \<^bold>\<open>C24\<close>  The clean-up stops the broker before it waits for the messages only the broker can confirm:
  once the broker has returned with a message in its channel, and the wait is not over, the wait group never gets
  back to zero, and the listener cannot leave but by its time-out or a panic.
\<close>

theorem cleanup_waits_in_vain:
  assumes "fc_hasWG c" "\<And>m. fc_subscribed c m \<Longrightarrow> readable m" "Buffer h = []"
    and "feedback_reach rc lib c db rs h d s" "fb_broker s = Broker_returned" "fb_msgChan s \<noteq> []"
    and "\<not> wait_succeeded (fb_cleanup s)" "(feedback_step rc lib c db rs)\<^sup>*\<^sup>* s t"
  shows "(fb_panicked t \<or> 0 < fb_wg t) \<and> \<not> wait_succeeded (fb_cleanup t)"
proof -
  have count: "fb_panicked u \<or> 0 < fb_wg u"
    if "(feedback_step rc lib c db rs)\<^sup>*\<^sup>* s u" "fb_msgChan u \<noteq> []" for u
    using feedback_reach_inv [OF assms(1-3) feedback_reach_steps [OF assms(4) that(1)]] that(2)
    by (cases "fb_msgChan u") (auto simp: feedback_inv_def feedback_pending_def split: if_splits)
  have "fb_broker t = Broker_returned \<and> fb_msgChan t \<noteq> [] \<and> \<not> wait_succeeded (fb_cleanup t)"
    using assms(8)
  proof (induction rule: rtranclp_induct)
    case base
    then show ?case using assms(5-7) by blast
  next
    case (step u v)
    have "\<not> fb_panicked u" using step(2) by (auto elim!: feedback_step.cases simp: listener_alive_def)
    then have "fb_wg u \<noteq> 0" using count [OF step(1)] step(3) by auto
    then show ?case using waits_on [OF step(2) assms(1)] broker_gone [OF step(2)] step(3) by blast
  qed
  then show ?thesis using count [OF assms(8)] by blast
qed

section \<open>Runs of the clean-up that go wrong\<close>

text \<open>One feedback about a dead token, channels for one element, a buffer for two tokens.\<close>

definition sample_feedback :: feedback_message where
  "sample_feedback = SendFeedback_message ''g'' ''apns'' (render bad_token_json)"

definition sample_queued :: QueueMessage where
  "sample_queued = \<lparr>q_Game = ''g'', q_Platform = ''apns'', q_Value = render bad_token_json\<rparr>"

definition sample_token :: InvalidToken where
  "sample_token = \<lparr>Token = ''tok'', it_Game = ''g'', it_Platform = ''apns''\<rparr>"

definition sample_config :: feedback_config where
  "sample_config = \<lparr>fc_msgChan_size = 1, fc_OutChan_size = 1, fc_hasWG = True, fc_enabled = True, fc_subscribed = readable,
     fc_statsFlushTime = i64 5000000000\<rparr>"

definition sample_buffer :: InvalidTokenHandler where
  "sample_buffer = \<lparr>flushTime = i64 5000000000, Buffer = [], bufferSize = i64 2\<rparr>"

lemma sample_tickers: "\<not> NewTicker_panics (fc_statsFlushTime sample_config)" "\<not> NewTicker_panics (flushTime sample_buffer)"
proof -
  have "\<not> NewTicker_panics (i64 5000000000)" by code_simp
  then show "\<not> NewTicker_panics (fc_statsFlushTime sample_config)" "\<not> NewTicker_panics (flushTime sample_buffer)"
    by (simp_all add: sample_config_def sample_buffer_def)
qed

declare listener_alive_def [simp] cleanup_defs [simp]

abbreviation sample_reach :: "'d db \<Rightarrow> 'd \<Rightarrow> 'd feedback_state \<Rightarrow> bool" where
  "sample_reach db d \<equiv> feedback_reach apple_reason sample_readers sample_config db [] sample_buffer d"

abbreviation sample_feedback_reach :: "(string \<times> string) list feedback_state \<Rightarrow> bool" where
  "sample_feedback_reach \<equiv> sample_reach memory_db [(''g_apns'', ''tok'')]"

lemma clean:
  "sample_reach db d s \<Longrightarrow> listener_alive s \<Longrightarrow> next_cleanup (fb_cleanup s) = Some x \<Longrightarrow> sample_reach db d (s\<lparr>fb_cleanup := x\<rparr>)"
  by (rule feedback_reach.step, assumption, rule cleans) (simp_all add: sample_tickers)

abbreviation sample_state ::
    "'d \<Rightarrow> int \<Rightarrow> QueueMessage consumer_state \<Rightarrow> QueueMessage list \<Rightarrow> broker_state \<Rightarrow> cleanup \<Rightarrow> InvalidToken list \<Rightarrow> 'd feedback_state" where
  "sample_state d n x ms b cl routed \<equiv> \<lparr>fb_wg = n, fb_consumer = x, fb_msgChan = ms, fb_broker = b, fb_InvalidTokenOutChan = [],
      fb_handler = sample_buffer, fb_handler_runs = True, fb_db = d, fb_cleanup = cl, fb_panicked = False,
      fb_routed = routed, fb_deleted = [], fb_refused = []\<rparr>"

lemma sample_feedback_facts:
  "receiveMessage sample_feedback = Some sample_queued"
  "started (processMessage apple_reason sample_readers True True sample_queued) = [sample_token]"
proof -
  have "''apns'' \<in> set platforms" "game_ok ''g''" by code_simp+
  then show 1: "receiveMessage sample_feedback = Some sample_queued"
    using feedback_topic [of "''g''" "''apns''"] by (simp add: sample_feedback_def sample_queued_def)
  show "started (processMessage apple_reason sample_readers True True sample_queued) = [sample_token]"
    using apns_feedback_read [OF bad_token_facts, where hasWG = True and lib = sample_readers and env = sample_env]
      1 bad_token_fields by (simp add: sample_feedback_def sample_token_def)
qed

lemma sample_readable: "readable sample_feedback"
  using receive_readable(2) [of sample_feedback] sample_feedback_facts(1) by simp

lemma sample_reading: "sample_reach db d (sample_state d 0 Reading [] Broker_waiting Listening [])"
proof -
  have 0: "sample_reach db d (sample_state d 0 At_select [] Broker_waiting Listening [])"
    using feedback_reach.start [of apple_reason sample_readers sample_config db "[]" sample_buffer d]
    by (simp add: feedback_initial_def)
  show ?thesis using feedback_reach.step [OF 0 feedback_step.consumer_reads] by simp
qed

lemma sample_one_queued: "sample_reach db d (sample_state d 1 At_select [sample_queued] Broker_waiting Listening [])"
proof -
  have "sample_reach db d (sample_state d 1 (Received sample_queued) [] Broker_waiting Listening [])"
    using feedback_reach.step [OF sample_reading [where db = db and d = d] feedback_step.read_message [OF _ _ _ sample_feedback_facts(1)]] sample_readable
    by (simp add: sample_config_def)
  from feedback_reach.step [OF this feedback_step.consumer_sends [where q = sample_queued]] show ?thesis
    by (simp add: sample_config_def)
qed

lemma sample_broker_gone:
  "sample_reach db d (sample_state d 1 At_select [sample_queued] Broker_returned Broker_stop_closed [])"
proof -
  have 1: "sample_reach db d (sample_state d 1 At_select [sample_queued] Broker_waiting Consumer_stopped [])"
    using clean [OF sample_one_queued [where db = db and d = d]] by simp
  have 2: "sample_reach db d (sample_state d 1 At_select [sample_queued] Broker_waiting Broker_stop_closed [])"
    using clean [OF 1] by simp
  show ?thesis using feedback_reach.step [OF 2 feedback_step.broker_returns] by simp
qed

lemma sample_sending: "sample_reach db d (sample_state d 1 At_select [] (Broker_sending sample_token) Listening [sample_token])"
  using feedback_reach.step [OF sample_one_queued [where db = db and d = d] feedback_step.broker_routes [where q = sample_queued and t = sample_token]]
    sample_feedback_facts(2) by (simp add: sample_config_def)

lemma sample_broker_panics:
  "\<exists>s. sample_feedback_reach s \<and> fb_panicked s"
proof -
  let ?d = "[(''g_apns'', ''tok'')]"
  have 2: "sample_feedback_reach (sample_state ?d 1 At_select [] (Broker_sending sample_token) Consumer_stopped [sample_token])"
    using clean [OF sample_sending [where db = memory_db and d = ?d]] by simp
  have 3: "sample_feedback_reach (sample_state ?d 1 At_select [] (Broker_sending sample_token) Broker_stop_closed [sample_token])"
    using clean [OF 2] by simp
  have 4: "sample_feedback_reach (sample_state ?d 1 At_select [] (Broker_sending sample_token) Out_closed [sample_token])"
    using clean [OF 3] by simp
  show ?thesis
    using feedback_reach.step [OF 4 feedback_step.broker_panics [where t = sample_token]] by fastforce
qed

text \<open>The handler stops with a token in its buffer, which nothing waits for.\<close>

lemma sample_turn:
  "processEvent (Token_in sample_token) sample_buffer = (None, sample_buffer\<lparr>Buffer := [sample_token]\<rparr>)"
  by code_simp

lemma sample_in_buffer:
  "sample_reach db d ((sample_state d 0 At_select [] Broker_waiting Listening [sample_token])\<lparr>fb_handler := sample_buffer\<lparr>Buffer := [sample_token]\<rparr>\<rparr>)"
proof -
  have 1: "sample_reach db d ((sample_state d 0 At_select [] Broker_waiting Listening [sample_token])\<lparr>fb_InvalidTokenOutChan := [sample_token]\<rparr>)"
    using feedback_reach.step [OF sample_sending [where db = db and d = d] feedback_step.broker_sends [where t = sample_token]]
    by (simp add: sample_config_def fb_Done_def)
  show ?thesis
    using feedback_reach.step [OF 1 feedback_step.handler_receives [where t = sample_token and ts = "[]"]] sample_tickers(2)
    by (simp add: handler_takes_def handler_turn_def turn_refused_def sample_turn del: processEvent.simps)
qed

lemma sample_token_kept:
  "\<exists>s. sample_feedback_reach s \<and> \<not> fb_handler_runs s \<and> Buffer (fb_handler s) = [sample_token] \<and> fb_wg s = 0
     \<and> fb_broker s = Broker_returned \<and> fb_cleanup s = Handler_stop_closed \<and> ''tok'' \<in> memory_rows (fb_db s) ''g_apns''"
proof -
  let ?h = "sample_buffer\<lparr>Buffer := [sample_token]\<rparr>" and ?d = "[(''g_apns'', ''tok'')]"
  have 4: "sample_feedback_reach ((sample_state ?d 0 At_select [] Broker_waiting Broker_stop_closed [sample_token])\<lparr>fb_handler := ?h\<rparr>)"
    using clean [OF clean [OF sample_in_buffer [where db = memory_db and d = ?d]]] by simp
  have 5: "sample_feedback_reach ((sample_state ?d 0 At_select [] Broker_returned Broker_stop_closed [sample_token])\<lparr>fb_handler := ?h\<rparr>)"
    using feedback_reach.step [OF 4 feedback_step.broker_returns] by simp
  have 6: "sample_feedback_reach ((sample_state ?d 0 At_select [] Broker_returned Handler_stop_closed [sample_token])\<lparr>fb_handler := ?h\<rparr>)"
    using clean [OF clean [OF 5]] by simp
  have "sample_feedback_reach ((sample_state ?d 0 At_select [] Broker_returned Handler_stop_closed [sample_token])
      \<lparr>fb_handler := ?h, fb_handler_runs := False\<rparr>)"
    using feedback_reach.step [OF 6 feedback_step.handler_returns] sample_tickers(2) by simp
  moreover have "''tok'' \<in> memory_rows ?d ''g_apns''" by (simp add: memory_rows_def)
  ultimately show ?thesis by (intro exI conjI) (assumption, simp_all)
qed

text \<open>The counter is seen at zero while the consumer is still reading, and the message it then gets is lost.\<close>

lemma sample_message_lost:
  "\<exists>s. sample_feedback_reach s \<and> fb_cleanup s = Listener_exited False \<and> fb_consumer s = Received sample_queued \<and> fb_wg s = 1"
proof -
  let ?d = "[(''g_apns'', ''tok'')]"
  have 1: "sample_feedback_reach (sample_state ?d 0 Reading [] Broker_waiting Handler_stop_closed [])"
    using clean [OF clean [OF clean [OF clean [OF sample_reading [where db = memory_db and d = ?d]]]]] by simp
  have 2: "sample_feedback_reach (sample_state ?d 0 Reading [] Broker_waiting Zero_counted [])"
    using feedback_reach.step [OF 1 feedback_step.gracefulShutdown [where x = Zero_counted]] by (simp add: sample_config_def)
  have 3: "sample_feedback_reach (sample_state ?d 1 (Received sample_queued) [] Broker_waiting Zero_counted [])"
    using feedback_reach.step [OF 2 feedback_step.read_message [OF _ _ _ sample_feedback_facts(1)]] sample_readable
    by (simp add: sample_config_def)
  have "sample_feedback_reach (sample_state ?d 1 (Received sample_queued) [] Broker_waiting (Listener_exited False) [])"
    using feedback_reach.step [OF 3 feedback_step.gracefulShutdown [where x = "Listener_exited False"]] by simp
  then show ?thesis by (intro exI conjI) (assumption, simp_all)
qed

text \<open>
  \<^bold>\<open>C25\<close>  The clean-up is unsafe: with one feedback read, the broker can be about to send a token when
  its channel is closed, which panics; or it can have returned with the feedback unconfirmed; or all goes as it
  should and the wait is over at once, but the handler has returned with the token in its buffer, and the
  token stays in the table; or the wait is over while the consumer is still reading, and the listener leaves without its
  time-out and with a message read and unconfirmed.
\<close>

theorem cleanup_hazards:
  "(\<exists>s. sample_feedback_reach s \<and> fb_panicked s)
   \<and> (\<exists>s. sample_feedback_reach s \<and> fb_broker s = Broker_returned \<and> fb_msgChan s = [sample_queued] \<and> fb_wg s = 1)
   \<and> (\<exists>s. sample_feedback_reach s \<and> \<not> fb_handler_runs s \<and> Buffer (fb_handler s) = [sample_token] \<and> fb_wg s = 0
        \<and> fb_broker s = Broker_returned \<and> fb_cleanup s = Handler_stop_closed \<and> ''tok'' \<in> memory_rows (fb_db s) ''g_apns'')
   \<and> (\<exists>s. sample_feedback_reach s \<and> fb_cleanup s = Listener_exited False \<and> fb_consumer s = Received sample_queued \<and> fb_wg s = 1)"
  using sample_broker_panics sample_broker_gone [of memory_db "[(''g_apns'', ''tok'')]"] sample_token_kept sample_message_lost
  by fastforce

text \<open>The connection breaks when the token is to be deleted: the token is still there, and nothing holds it any more.\<close>

definition broken :: "(string \<times> string) list \<times> string option list" where
  "broken = ([(''g_apns'', ''tok'')], [Some ''EOF''])"

lemma sample_refused:
  "sample_reach flaky_db broken ((sample_state ([(''g_apns'', ''tok'')], []) 0 At_select [] Broker_waiting Listening [sample_token])
     \<lparr>fb_deleted := [[sample_token]], fb_refused := [sample_token]\<rparr>)"
proof -
  have turn: "handler_turn flaky_db [] Flush_tick (sample_buffer\<lparr>Buffer := [sample_token]\<rparr>, broken)
      = Some ([], sample_buffer, [(''g_apns'', ''tok'')], [])"
    "turn_refused flaky_db Flush_tick (sample_buffer\<lparr>Buffer := [sample_token]\<rparr>, broken) = [sample_token]"
    by code_simp+
  show ?thesis
    using feedback_reach.step [OF sample_in_buffer [where db = flaky_db and d = broken] feedback_step.handler_flushes] sample_tickers(2) turn
    by (simp add: handler_takes_def)
qed

lemma sample_setting:
  "fc_hasWG sample_config" "fc_subscribed sample_config m \<Longrightarrow> readable m" "Buffer sample_buffer = []"
  by (simp_all add: sample_config_def sample_buffer_def)

theorem feedback_accounting_witness:
  "fb_wg (sample_state ([] :: (string \<times> string) list) 1 At_select [sample_queued] Broker_waiting Listening [])
    = int (feedback_pending (sample_state ([] :: (string \<times> string) list) 1 At_select [sample_queued] Broker_waiting Listening []))"
  using feedback_accounting [OF sample_setting sample_one_queued [where db = memory_db and d = "[]"]] by simp

theorem feedback_tables_witness:
  "\<exists>s. sample_reach flaky_db broken s \<and> undeleted s = [] \<and> fb_refused s = [sample_token]
    \<and> memory_rows (fst (fb_db s)) ''g_apns'' \<inter> tokens_of id ''g_apns'' (fb_routed s) \<subseteq> tokens_of id ''g_apns'' [sample_token]"
proof -
  let ?s = "(sample_state ([(''g_apns'', ''tok'')], []) 0 At_select [] Broker_waiting Listening [sample_token])
     \<lparr>fb_deleted := [[sample_token]], fb_refused := [sample_token]\<rparr>"
  have "undeleted ?s = []" by (simp add: undeleted_def broker_load_def sample_buffer_def)
  moreover have "fb_refused ?s = [sample_token]" by simp
  ultimately show ?thesis
    using feedback_tables [OF flaky_db_documented sample_setting sample_refused, of "''g_apns''"] sample_refused
    by (metis append_Nil)
qed

theorem cleanup_waits_in_vain_witness:
  "0 < fb_wg (sample_state ([] :: (string \<times> string) list) 1 At_select [sample_queued] Broker_returned Out_closed [])"
proof -
  let ?s = "sample_state ([] :: (string \<times> string) list) 1 At_select [sample_queued] Broker_returned Broker_stop_closed []"
  have "feedback_step apple_reason sample_readers sample_config memory_db [] ?s
      (sample_state [] 1 At_select [sample_queued] Broker_returned Out_closed [])"
    using cleans [of ?s sample_config Out_closed] by simp
  then have "(feedback_step apple_reason sample_readers sample_config memory_db [])\<^sup>*\<^sup>* ?s
      (sample_state [] 1 At_select [sample_queued] Broker_returned Out_closed [])"
    by (rule r_into_rtranclp)
  from cleanup_waits_in_vain [OF sample_setting sample_broker_gone _ _ _ this]
  show ?thesis by (simp add: wait_succeeded_def)
qed

declare listener_alive_def [simp del] cleanup_defs [simp del]

end
