(* ===== verification/Feedback_Shutdown.thy ===== *)
theory Feedback_Shutdown
  imports Feedback_Pipeline
begin

text \<open>
  How the feedback listener ends (\<^verbatim>\<open>feedback/listener.go\<close>): its shutdown takes a bounded number of steps
  beside the idle turns of the handler of invalid tokens, and as long as the broker runs and its channel is open the shutdown can go
  well, with every message confirmed, every token taken to the database and no time-out.
\<close>

section \<open>The steps of a shutdown are bounded\<close>

definition consumer_work :: "'m consumer_state \<Rightarrow> nat" where
  "consumer_work x = (case x of Reading \<Rightarrow> 7 | Received m \<Rightarrow> 6 | At_select \<Rightarrow> 1 | Consumer_returned \<Rightarrow> 0)"

definition broker_work :: "broker_state \<Rightarrow> nat" where
  "broker_work x = (case x of Broker_sending t \<Rightarrow> 3 | Broker_waiting \<Rightarrow> 1 | Broker_returned \<Rightarrow> 0)"

definition cleanup_work :: "cleanup \<Rightarrow> nat" where
  "cleanup_work x =
     (case x of Listening \<Rightarrow> 8 | Consumer_stopped \<Rightarrow> 7 | Broker_stop_closed \<Rightarrow> 6 | Out_closed \<Rightarrow> 5 | Handler_stop_closed \<Rightarrow> 4
      | Wait_asleep \<Rightarrow> 3 | Wait_woken \<Rightarrow> 2 | Zero_counted \<Rightarrow> 1 | Listener_exited late \<Rightarrow> 0)"

definition listener_potential :: "'d feedback_state \<Rightarrow> nat" where
  "listener_potential s =
     consumer_work (fb_consumer s) + 4 * length (fb_msgChan s) + broker_work (fb_broker s)
       + length (fb_InvalidTokenOutChan s) + of_bool (fb_handler_runs s) + cleanup_work (fb_cleanup s) + of_bool (\<not> fb_panicked s)"

lemmas work_defs = consumer_work_def broker_work_def cleanup_work_def

text \<open>The turns of the handler in which it gets no token: a tick of its flush timer, or a look at the closed channel.\<close>

definition idle_turn :: "'d db \<Rightarrow> reporter list \<Rightarrow> 'd feedback_state \<Rightarrow> 'd feedback_state \<Rightarrow> bool" where
  "idle_turn db rs s t \<longleftrightarrow> listener_alive s \<and> fb_handler_runs s \<and> \<not> NewTicker_panics (flushTime (fb_handler s))
     \<and> (t = handler_takes db rs Flush_tick (fb_InvalidTokenOutChan s) s
        \<or> (out_closed (fb_cleanup s) \<and> fb_InvalidTokenOutChan s = [] \<and> t = s))"

lemma cleanup_work_next: "next_cleanup x = Some y \<Longrightarrow> cleanup_work y < cleanup_work x"
  and cleanup_work_wait: "Some y \<in> set (gracefulShutdown hasWG n x) \<Longrightarrow> cleanup_work y < cleanup_work x"
  by (cases x; auto simp: cleanup_work_def split: if_splits)+

lemma handler_takes_potential:
  "listener_alive s \<Longrightarrow> length left \<le> length (fb_InvalidTokenOutChan s)
    \<Longrightarrow> listener_potential (handler_takes db rs e left s) \<le> listener_potential s"
  "listener_alive s \<Longrightarrow> length left < length (fb_InvalidTokenOutChan s)
    \<Longrightarrow> listener_potential (handler_takes db rs e left s) < listener_potential s"
  by (auto simp: handler_takes_def listener_potential_def listener_alive_def split: option.split)

lemma listener_potential_decreases:
  assumes "feedback_step rc lib c db rs s t" "fb_cleanup s \<noteq> Listening" "\<not> idle_turn db rs s t"
  shows "listener_potential t < listener_potential s"
  using assms(1)
proof (cases rule: feedback_step.cases)
  case (handler_receives tk ts)
  then show ?thesis using handler_takes_potential(2) [of s ts] by simp
next
  case handler_flushes
  then show ?thesis using assms(3) by (simp add: idle_turn_def)
next
  case handler_finds_closed
  then show ?thesis using assms(3) by (simp add: idle_turn_def)
next
  case (cleans x)
  then show ?thesis using cleanup_work_next [of "fb_cleanup s" x] by (simp add: listener_potential_def)
next
  case (gracefulShutdown x)
  then show ?thesis using cleanup_work_wait by (fastforce simp: listener_potential_def)
qed (use assms(2) in \<open>auto simp: listener_potential_def work_defs listener_alive_def\<close>)

lemma idle_potential: "idle_turn db rs s t \<Longrightarrow> listener_potential t \<le> listener_potential s \<and> fb_cleanup t = fb_cleanup s"
  using handler_takes_potential(1) [of s "fb_InvalidTokenOutChan s"] by (auto simp: idle_turn_def handler_takes_same)

lemma cleanup_goes_on:
  assumes "feedback_step rc lib c db rs s t" "fb_cleanup s \<noteq> Listening"
  shows "fb_cleanup t \<noteq> Listening"
  using assms(1)
proof (cases rule: feedback_step.cases)
  case (cleans x)
  then show ?thesis by (cases "fb_cleanup s") auto
next
  case (gracefulShutdown x)
  then show ?thesis by (cases "fb_cleanup s") (auto split: if_splits)
qed (use assms(2) in \<open>auto simp: handler_takes_same\<close>)

lemma cleanup_never_stuck:
  assumes "listener_alive s" "fb_cleanup s \<noteq> Listening"
  shows "\<exists>u. feedback_step rc lib c db rs s u \<and> \<not> idle_turn db rs s u"
proof -
  have "\<exists>x. feedback_step rc lib c db rs s (s\<lparr>fb_cleanup := x\<rparr>) \<and> x \<noteq> fb_cleanup s"
  proof (cases "next_cleanup (fb_cleanup s)")
    case (Some x)
    then show ?thesis using cleans [OF assms(1), of c x] assms(2) cleanup_work_next [OF Some] by fastforce
  next
    case None
    then have "\<exists>x. Some x \<in> set (gracefulShutdown (fc_hasWG c) (fb_wg s) (fb_cleanup s)) \<and> x \<noteq> fb_cleanup s"
      using assms by (cases "fb_cleanup s") (auto simp: listener_alive_def)
    then show ?thesis using gracefulShutdown [OF assms(1)] by blast
  qed
  moreover have "\<not> idle_turn db rs s (s\<lparr>fb_cleanup := x\<rparr>)" if "x \<noteq> fb_cleanup s" for x
    using that idle_potential [of db rs s "s\<lparr>fb_cleanup := x\<rparr>"] by auto
  ultimately show ?thesis by blast
qed

lemma potential_of_run:
  assumes "fb_cleanup s \<noteq> Listening"
    and "(((idle_turn db rs)\<^sup>*\<^sup>* OO (\<lambda>s t. feedback_step rc lib c db rs s t \<and> \<not> idle_turn db rs s t)) ^^ n) s t"
  shows "n + listener_potential t \<le> listener_potential s \<and> fb_cleanup t \<noteq> Listening"
  using assms(2)
proof (induction n arbitrary: t)
  case (Suc n)
  then obtain u v where u: "(((idle_turn db rs)\<^sup>*\<^sup>* OO (\<lambda>s t. feedback_step rc lib c db rs s t \<and> \<not> idle_turn db rs s t)) ^^ n) s u"
    and v: "(idle_turn db rs)\<^sup>*\<^sup>* u v" "feedback_step rc lib c db rs v t" "\<not> idle_turn db rs v t" by auto
  note IH = Suc.IH [OF u]
  from v(1) have same: "fb_cleanup v = fb_cleanup u \<and> listener_potential v \<le> listener_potential u"
    by (induction rule: rtranclp_induct) (use idle_potential in fastforce)+
  then have "fb_cleanup v \<noteq> Listening" using IH by simp
  then show ?case
    using IH same listener_potential_decreases [OF v(2) _ v(3)] cleanup_goes_on [OF v(2)] by simp
qed (use assms(1) in simp)

text \<open>
  \<^bold>\<open>C26\<close>  The shutdown of the listener ends: once its clean-up has begun, all goroutines together take no more
  steps than a number read off the state, whatever is read, routed, deleted or fails, and until the process has ended one such step
  is always possible.  Not counted are the turns in which the handler of invalid tokens gets no token, at a tick of its flush timer
  or from its channel when that is closed and empty: it turns so any number of times until its \<open>select\<close> picks the stop channel.
\<close>

theorem listener_shutdown_ends:
  assumes "fb_cleanup s \<noteq> Listening"
    and "(((idle_turn db rs)\<^sup>*\<^sup>* OO (\<lambda>s t. feedback_step rc lib c db rs s t \<and> \<not> idle_turn db rs s t)) ^^ n) s t"
  shows "n + listener_potential t \<le> listener_potential s
    \<and> (listener_alive t \<longrightarrow> (\<exists>u. feedback_step rc lib c db rs t u \<and> \<not> idle_turn db rs t u))"
proof -
  have "n + listener_potential t \<le> listener_potential s \<and> fb_cleanup t \<noteq> Listening"
    using assms by (rule potential_of_run)
  then show ?thesis using cleanup_never_stuck by blast
qed

section \<open>A shutdown that goes well\<close>

lemma started_processMessage:
  obtains "started (processMessage rc lib enabled hasWG q) = []"
  | t where "started (processMessage rc lib enabled hasWG q) = [t]"
proof -
  have "length (started (processMessage rc lib enabled hasWG q)) \<le> 1"
    by (simp add: processMessage_def routeAPNSMessage_def routeGCMMessage_def)
  then show thesis using that by (cases "started (processMessage rc lib enabled hasWG q)") auto
qed

lemma handler_runs:
  assumes "feedback_reach rc lib c db rs h d s"
  shows "fb_handler_runs s \<or> handler_stopped (fb_cleanup s)"
  using assms
proof (induction rule: feedback_reach.induct)
  case (step s t)
  from step(2) show ?case
  proof (cases rule: feedback_step.cases)
    case (cleans x)
    then show ?thesis using step(3) next_cleanup_Some by auto
  next
    case (gracefulShutdown x)
    then show ?thesis using gracefulShutdown_cases [OF gracefulShutdown(3)] step(3)
      by (cases "fb_cleanup s") (auto simp: cleanup_defs split: if_splits)
  qed (use step(3) in \<open>auto simp: handler_takes_same handler_stopped_def\<close>)
qed (simp add: feedback_initial_def)

text \<open>What is left to do before the clean-up closes anything else: nothing is, once the potential is down to that of rest.\<close>

definition at_rest :: "'d feedback_state \<Rightarrow> bool" where
  "at_rest s \<longleftrightarrow> fb_consumer s = Consumer_returned \<and> fb_msgChan s = [] \<and> fb_broker s = Broker_waiting \<and> fb_InvalidTokenOutChan s = []"

definition broker_open :: "'d feedback_state \<Rightarrow> bool" where
  "broker_open s \<longleftrightarrow> listener_alive s \<and> fb_cleanup s \<noteq> Listening \<and> \<not> out_closed (fb_cleanup s) \<and> fb_broker s \<noteq> Broker_returned"

lemma handler_takes_alive:
  assumes "feedback_inv c flush s" "listener_alive s" "fb_InvalidTokenOutChan s = tokens_in [e] @ left"
  shows "listener_alive (handler_takes db rs e left s)"
    "fb_handler (handler_takes db rs e left s) = snd (processEvent e (fb_handler s))"
    "fb_InvalidTokenOutChan (handler_takes db rs e left s) = left"
proof -
  obtain ev d' where t: "handler_takes db rs e left s = s\<lparr>fb_InvalidTokenOutChan := left,
      fb_handler := snd (processEvent e (fb_handler s)), fb_db := d',
      fb_deleted := fb_deleted s @ batch_list (fst (processEvent e (fb_handler s))),
      fb_refused := fb_refused s @ turn_refused db e (fb_handler s, fb_db s)\<rparr>"
    by (rule handler_takes_ok [OF inv_tokens_ok [OF assms(1,3)]])
  show "listener_alive (handler_takes db rs e left s)"
    "fb_handler (handler_takes db rs e left s) = snd (processEvent e (fb_handler s))"
    "fb_InvalidTokenOutChan (handler_takes db rs e left s) = left"
    using assms(2) unfolding t by (simp_all add: listener_alive_def)
qed

lemma drain_step:
  assumes "\<not> NewTicker_panics flush" "feedback_inv c flush s" "fb_handler_runs s"
    and "0 < fc_msgChan_size c" "0 < fc_OutChan_size c" "broker_open s" "\<not> at_rest s"
  obtains t where "feedback_step rc lib c db rs s t" "broker_open t" "fb_cleanup t = fb_cleanup s" "listener_potential t < listener_potential s"
proof -
  have alive: "listener_alive s" and open_: "\<not> out_closed (fb_cleanup s)" "fb_cleanup s \<noteq> Listening" "fb_broker s \<noteq> Broker_returned"
    using assms(6) by (auto simp: broker_open_def)
  have ticker: "\<not> NewTicker_panics (flushTime (fb_handler s))" and count: "fb_wg s = int (feedback_pending s)"
    using assms(1,2) alive by (simp_all add: feedback_inv_def listener_alive_def)
  have not_asleep: "fb_cleanup s \<noteq> Wait_asleep" using open_(1) by (auto simp: out_closed_def)
  show thesis
  proof (cases "fb_InvalidTokenOutChan s")
    case (Cons tk ts)
    let ?t = "handler_takes db rs (Token_in tk) ts s"
    have "feedback_step rc lib c db rs s ?t" by (rule handler_receives [OF alive assms(3) ticker Cons])
    moreover have "broker_open ?t"
      using handler_takes_alive(1) [OF assms(2) alive, of "Token_in tk" ts db rs] Cons assms(6)
      by (auto simp: broker_open_def handler_takes_same)
    ultimately show thesis
      using that [of ?t] handler_takes_potential(2) [OF alive, of ts db rs "Token_in tk"] Cons by (simp add: handler_takes_same)
  next
    case Nil
    show thesis
    proof (cases "fb_broker s")
      case (Broker_sending tk)
      show thesis
        using that [OF broker_sends [OF alive Broker_sending open_(1)]] Nil assms(5,6) Broker_sending count not_asleep
        by (simp add: broker_open_def listener_alive_def listener_potential_def work_defs feedback_pending_def broker_load_def)
    next
      case Broker_waiting
      show thesis
      proof (cases "fb_msgChan s")
        case (Cons q qs)
        show thesis
        proof (cases rule: started_processMessage [of rc lib "fc_enabled c" "fc_hasWG c" q])
          case 1
          show thesis
            using that [OF broker_settles [OF alive Broker_waiting Cons refl 1]] assms(6) Cons count not_asleep
            by (simp add: broker_open_def listener_alive_def listener_potential_def processMessage_done feedback_pending_def)
        next
          case (2 tk)
          show thesis
            using that [OF broker_routes [OF alive Broker_waiting Cons 2]] assms(6) Cons Broker_waiting
            by (simp add: broker_open_def listener_alive_def listener_potential_def work_defs)
        qed
      next
        case no_message: Nil
        show thesis
        proof (cases "fb_consumer s")
          case At_select
          show thesis
            using that [OF consumer_returns [OF alive At_select open_(2)]] assms(6) At_select
            by (simp add: broker_open_def listener_alive_def listener_potential_def work_defs)
        next
          case Reading
          show thesis
            using that [OF read_nothing [OF alive Reading]] assms(6) Reading
            by (simp add: broker_open_def listener_alive_def listener_potential_def work_defs)
        next
          case (Received q)
          show thesis
            using that [OF consumer_sends [OF alive Received]] assms(4,6) Received no_message
            by (simp add: broker_open_def listener_alive_def listener_potential_def work_defs)
        next
          case Consumer_returned
          then show thesis using assms(7) Nil no_message Broker_waiting by (simp add: at_rest_def)
        qed
      qed
    qed (use open_ in simp)
  qed
qed

lemma drained:
  assumes "\<not> NewTicker_panics (flushTime h)" "fc_hasWG c" "\<And>m. fc_subscribed c m \<Longrightarrow> readable m" "Buffer h = []"
    and "0 < fc_msgChan_size c" "0 < fc_OutChan_size c"
    and "feedback_reach rc lib c db rs h d s" "broker_open s"
  obtains t where "(feedback_step rc lib c db rs)\<^sup>*\<^sup>* s t" "at_rest t" "broker_open t"
proof -
  have "\<exists>t. (feedback_step rc lib c db rs)\<^sup>*\<^sup>* s t \<and> at_rest t \<and> broker_open t"
    using assms(7,8)
  proof (induction "listener_potential s" arbitrary: s rule: less_induct)
    case less
    show ?case
    proof (cases "at_rest s")
      case True
      then show ?thesis using less.prems by blast
    next
      case False
      have "fb_handler_runs s"
        using handler_runs [OF less.prems(1)] less.prems(2) by (auto simp: broker_open_def cleanup_defs)
      from drain_step [OF assms(1) feedback_reach_inv [OF assms(2-4) less.prems(1)] this assms(5,6) less.prems(2) False]
      obtain t where t: "feedback_step rc lib c db rs s t" "broker_open t" "listener_potential t < listener_potential s" by blast
      from less.hyps [OF t(3) feedback_reach.step [OF less.prems(1) t(1)] t(2)] t(1) show ?thesis
        by (meson converse_rtranclp_into_rtranclp)
    qed
  qed
  then show thesis using that by blast
qed

text \<open>The rest of the clean-up, from a listener at rest whose buffer is empty.\<close>

lemma exits_from_rest:
  assumes "listener_alive s" "\<not> out_closed (fb_cleanup s)" "fc_hasWG c \<Longrightarrow> fb_wg s = 0"
    and "\<not> NewTicker_panics (fc_statsFlushTime c)"
  shows "(feedback_step rc lib c db rs)\<^sup>*\<^sup>* s (s\<lparr>fb_cleanup := Listener_exited False\<rparr>)"
proof -
  have next_step: "feedback_step rc lib c db rs (s\<lparr>fb_cleanup := x\<rparr>) (s\<lparr>fb_cleanup := y\<rparr>)"
    if "next_cleanup x = Some y" for x y
    using cleans [of "s\<lparr>fb_cleanup := x\<rparr>" c y] assms(1,4) next_cleanup_Some [OF that] that
    by (cases x) (auto simp: listener_alive_def)
  have wait_step: "feedback_step rc lib c db rs (s\<lparr>fb_cleanup := x\<rparr>) (s\<lparr>fb_cleanup := y\<rparr>)"
    if "Some y \<in> set (gracefulShutdown (fc_hasWG c) (fb_wg s) x)" for x y
    using gracefulShutdown [of "s\<lparr>fb_cleanup := x\<rparr>" y c] assms(1) that
    by (cases x) (auto simp: listener_alive_def)
  let ?at = "\<lambda>x. s\<lparr>fb_cleanup := x\<rparr>"
  have waited: "(feedback_step rc lib c db rs)\<^sup>*\<^sup>* (?at Handler_stop_closed) (?at (Listener_exited False))"
  proof (cases "fc_hasWG c")
    case True
    then have "feedback_step rc lib c db rs (?at Handler_stop_closed) (?at Zero_counted)"
      "feedback_step rc lib c db rs (?at Zero_counted) (?at (Listener_exited False))"
      using assms(3) by (auto intro: wait_step)
    then show ?thesis by (meson converse_rtranclp_into_rtranclp r_into_rtranclp)
  next
    case False
    then show ?thesis by (intro r_into_rtranclp wait_step) simp
  qed
  have "(feedback_step rc lib c db rs)\<^sup>*\<^sup>* (?at Broker_stop_closed) (?at (Listener_exited False))"
    using next_step [of Broker_stop_closed Out_closed] next_step [of Out_closed Handler_stop_closed] waited
    by (simp add: converse_rtranclp_into_rtranclp)
  then have "(feedback_step rc lib c db rs)\<^sup>*\<^sup>* (?at x) (?at (Listener_exited False))" if "\<not> out_closed x" for x
    using that next_step [of Listening Consumer_stopped] next_step [of Consumer_stopped Broker_stop_closed]
    by (cases x) (auto simp: out_closed_def intro: converse_rtranclp_into_rtranclp)
  from this [OF assms(2)] show ?thesis by simp
qed

text \<open>
  From every state the listener can get into, as long as the broker has not returned and its channel of tokens is
  not closed, it can still leave without its time-out, with every message it has read confirmed, and every token the
  broker has picked out taken to the database: what goes wrong in the clean-up is a matter of the order of its steps alone.
\<close>

lemma ends_well:
  assumes "\<not> NewTicker_panics (flushTime h)" "fc_hasWG c" "\<And>m. fc_subscribed c m \<Longrightarrow> readable m" "Buffer h = []"
    and "0 < fc_msgChan_size c" "0 < fc_OutChan_size c" "feedback_reach rc lib c db rs h d s"
    and "listener_alive s" "\<not> out_closed (fb_cleanup s)" "fb_broker s \<noteq> Broker_returned"
    and "\<not> NewTicker_panics (fc_statsFlushTime c)"
  obtains t where "(feedback_step rc lib c db rs)\<^sup>*\<^sup>* s t" "fb_cleanup t = Listener_exited False"
    "fb_wg t = 0" "feedback_pending t = 0" "undeleted t = []"
proof -
  let ?step = "feedback_step rc lib c db rs"
  note reach = feedback_reach_steps [OF assms(7)]
  obtain s1 where s1: "?step\<^sup>*\<^sup>* s s1" "broker_open s1"
  proof (cases "fb_cleanup s = Listening")
    case True
    then have "?step s (s\<lparr>fb_cleanup := Consumer_stopped\<rparr>)" using cleans [OF assms(8)] assms(11) by simp
    moreover have "broker_open (s\<lparr>fb_cleanup := Consumer_stopped\<rparr>)"
      using assms(8,10) by (simp add: broker_open_def listener_alive_def out_closed_def)
    ultimately show thesis using that by blast
  next
    case False
    then show thesis using that [of s] assms(8-10) by (simp add: broker_open_def)
  qed
  from drained [OF assms(1-6) reach [OF s1(1)] s1(2)]
  obtain s2 where s2: "?step\<^sup>*\<^sup>* s1 s2" "at_rest s2" "broker_open s2" by blast
  with s1(1) have to_s2: "?step\<^sup>*\<^sup>* s s2" by simp
  have alive: "listener_alive s2" "\<not> out_closed (fb_cleanup s2)" using s2(3) by (simp_all add: broker_open_def)
  then have runs: "fb_handler_runs s2" using handler_runs [OF reach [OF to_s2]] by (auto simp: cleanup_defs)
  have inv2: "feedback_inv c (flushTime h) s2" by (rule feedback_reach_inv [OF assms(2-4) reach [OF to_s2]])
  then have ticker: "\<not> NewTicker_panics (flushTime (fb_handler s2))" using assms(1) by (simp add: feedback_inv_def)
  let ?u = "handler_takes db rs Flush_tick [] s2"
  have flush: "?step s2 ?u" using handler_flushes [OF alive(1) runs ticker] s2(2) by (simp add: at_rest_def)
  have to_u: "?step\<^sup>*\<^sup>* s ?u" using to_s2 flush by simp
  have u: "listener_alive ?u" "fb_handler ?u = snd (processEvent Flush_tick (fb_handler s2))" "fb_InvalidTokenOutChan ?u = []"
    using handler_takes_alive [OF inv2 alive(1), of Flush_tick "[]" db rs] s2(2)
    by (simp_all add: at_rest_def)
  have none: "feedback_pending ?u = 0" "undeleted ?u = []"
    using s2(2) u(2,3) by (simp_all add: at_rest_def feedback_pending_def undeleted_def handler_takes_same loads)
  have inv: "feedback_inv c (flushTime h) ?u" by (rule feedback_reach_inv [OF assms(2-4) reach [OF to_u]])
  then have wg: "fb_wg ?u = 0" 
    using none u(1) by (auto simp: feedback_inv_def listener_alive_def)
  have "?step\<^sup>*\<^sup>* ?u (?u\<lparr>fb_cleanup := Listener_exited False\<rparr>)"
    by (rule exits_from_rest) (use u(1) alive(2) wg assms(11) in \<open>simp_all add: handler_takes_same\<close>)
  with to_u have all: "?step\<^sup>*\<^sup>* s (?u\<lparr>fb_cleanup := Listener_exited False\<rparr>)" by simp
  show thesis
    by (rule that [OF all]) (use wg none in \<open>simp_all add: feedback_pending_def undeleted_def\<close>)
qed

section \<open>A sample\<close>

theorem listener_shutdown_ends_witness:
  "1 + listener_potential (sample_state ([] :: (string \<times> string) list) 1 At_select [sample_queued] Broker_waiting Broker_stop_closed [])
    \<le> listener_potential (sample_state ([] :: (string \<times> string) list) 1 At_select [sample_queued] Broker_waiting Consumer_stopped [])"
proof -
  let ?s = "sample_state ([] :: (string \<times> string) list) 1 At_select [sample_queued] Broker_waiting Consumer_stopped []"
  let ?t = "sample_state ([] :: (string \<times> string) list) 1 At_select [sample_queued] Broker_waiting Broker_stop_closed []"
  have "feedback_step apple_reason sample_readers sample_config memory_db [] ?s ?t"
    using cleans [of ?s sample_config Broker_stop_closed] by (simp add: listener_alive_def)
  moreover have "\<not> idle_turn memory_db [] ?s ?t" using idle_potential [of memory_db "[]" ?s ?t] by auto
  ultimately have "(((idle_turn memory_db [])\<^sup>*\<^sup>* OO
      (\<lambda>s t. feedback_step apple_reason sample_readers sample_config memory_db [] s t \<and> \<not> idle_turn memory_db [] s t)) ^^ 1) ?s ?t"
    by auto
  from listener_shutdown_ends [OF _ this] show ?thesis by simp
qed

end
