(* ===== verification/Config.thy ===== *)
theory Config
  imports Prelude
begin

text \<open>
  The lists of apps of \<^verbatim>\<open>config/config.go\<close> and the log levels of \<^verbatim>\<open>util/config.go\<close>.
\<close>

section \<open>Splitting and trimming\<close>

text \<open>\<open>strings.Split\<close> by a comma.\<close>

fun split_comma :: "string \<Rightarrow> string list" where
  "split_comma [] = [[]]"
| "split_comma (c # s) = (if c = CHR '','' then [] # split_comma s
     else (case split_comma s of [] \<Rightarrow> [[c]] | w # ws \<Rightarrow> (c # w) # ws))"

text \<open>
  \<open>strings.TrimSpace\<close>: the characters of Unicode's white space, in UTF-8, are taken off one by one at the left
  end, and then, read backwards, at the right end.
\<close>

definition white_runes :: "string list" where
  "white_runes =
     [[CHR 0x09], [CHR 0x0A], [CHR 0x0B], [CHR 0x0C], [CHR 0x0D], [CHR 0x20], [CHR 0xC2, CHR 0x85], [CHR 0xC2, CHR 0xA0],
      [CHR 0xE1, CHR 0x9A, CHR 0x80]]
     @ map (\<lambda>b. [CHR 0xE2, CHR 0x80, b])
         [CHR 0x80, CHR 0x81, CHR 0x82, CHR 0x83, CHR 0x84, CHR 0x85, CHR 0x86, CHR 0x87, CHR 0x88, CHR 0x89, CHR 0x8A,
          CHR 0xA8, CHR 0xA9, CHR 0xAF]
     @ [[CHR 0xE2, CHR 0x81, CHR 0x9F], [CHR 0xE3, CHR 0x80, CHR 0x80]]"

function trim_runes :: "string list \<Rightarrow> string \<Rightarrow> string" where
  "trim_runes ws s =
     (case find (\<lambda>w. w \<noteq> [] \<and> take (length w) s = w) ws of
        None \<Rightarrow> s
      | Some w \<Rightarrow> trim_runes ws (drop (length w) s))"
  by pat_completeness auto
termination
proof (relation "measure (\<lambda>(ws, s). length s)")
  fix ws s and w :: string
  assume "find (\<lambda>w. w \<noteq> [] \<and> take (length w) s = w) ws = Some w"
  then have "w \<noteq> []" "take (length w) s = w" by (auto simp: find_Some_iff)
  then show "((ws, drop (length w) s), ws, s) \<in> measure (\<lambda>(ws, s). length s)" by (cases s) auto
qed simp

declare trim_runes.simps [simp del]

definition TrimSpace :: "string \<Rightarrow> string" where
  "TrimSpace s = rev (trim_runes (map rev white_runes) (rev (trim_runes white_runes s)))"

fun trim_all :: "string list \<Rightarrow> string list" where
  "trim_all [] = []"
| "trim_all (a # arr) = TrimSpace a # trim_all arr"

definition GetGcmAppsArray :: "string \<Rightarrow> string list" where
  "GetGcmAppsArray gcm_apps = trim_all (split_comma gcm_apps)"

definition GetApnsAppsArray :: "string \<Rightarrow> string list" where
  "GetApnsAppsArray apns_apps = trim_all (split_comma apns_apps)"

section \<open>Log levels\<close>

text \<open>The levels of \<^verbatim>\<open>logrus\<close>, the most severe first.\<close>

datatype level = PanicLevel | FatalLevel | ErrorLevel | WarnLevel | InfoLevel | DebugLevel | TraceLevel

fun level_number :: "level \<Rightarrow> nat" where
  "level_number PanicLevel = 0"
| "level_number FatalLevel = 1"
| "level_number ErrorLevel = 2"
| "level_number WarnLevel = 3"
| "level_number InfoLevel = 4"
| "level_number DebugLevel = 5"
| "level_number TraceLevel = 6"

lemma level_number_inject: "level_number a = level_number b \<longleftrightarrow> a = b"
  by (cases a; cases b) simp_all

instantiation level :: linorder
begin
definition less_eq_level :: "level \<Rightarrow> level \<Rightarrow> bool" where
  "less_eq_level a b \<longleftrightarrow> level_number a \<le> level_number b"
definition less_level :: "level \<Rightarrow> level \<Rightarrow> bool" where
  "less_level a b \<longleftrightarrow> level_number a < level_number b"
instance
  by standard (auto simp: less_eq_level_def less_level_def level_number_inject)
end

text \<open>
  \<open>strings.ToLower\<close> on ASCII letters and on the two other characters whose lower case is an ASCII
  letter, the dotted capital I (U+0130) and the Kelvin sign (U+212A); other letters stay as they are,
  which keeps them different from every level.
\<close>

fun ToLower :: "string \<Rightarrow> string" where
  "ToLower [] = []"
| "ToLower [a] = [if 65 \<le> (of_char a :: nat) \<and> (of_char a :: nat) \<le> 90 then char_of ((of_char a :: nat) + 32) else a]"
| "ToLower (a # b # s) =
    (if (of_char a :: nat) = 0xC4 \<and> (of_char b :: nat) = 0xB0 then CHR ''i'' # ToLower s
     else if (of_char a :: nat) = 0xE2 \<and> (of_char b :: nat) = 0x84 \<and> s \<noteq> [] \<and> (of_char (hd s) :: nat) = 0xAA then CHR ''k'' # ToLower (tl s)
     else (if 65 \<le> (of_char a :: nat) \<and> (of_char a :: nat) \<le> 90 then char_of ((of_char a :: nat) + 32) else a) # ToLower (b # s))"

definition ParseLogLevel :: "string \<Rightarrow> level" where
  "ParseLogLevel l =
     (let w = ToLower l in
      if w = ''debug'' then DebugLevel
      else if w = ''info'' then InfoLevel
      else if w = ''warn'' \<or> w = ''warning'' then WarnLevel
      else if w = ''error'' then ErrorLevel
      else if w = ''fatal'' then FatalLevel
      else if w = ''panic'' then PanicLevel
      else InfoLevel)"

section \<open>Properties\<close>

lemma split_comma_not_Nil [simp]: "split_comma s \<noteq> []"
  by (cases s) (auto split: list.split)

text \<open>Joining with commas, the inverse of splitting.\<close>

fun join_comma :: "string list \<Rightarrow> string" where
  "join_comma [] = []"
| "join_comma [w] = w"
| "join_comma (w # v # ws) = w @ CHR '','' # join_comma (v # ws)"

lemma split_comma_free: "CHR '','' \<notin> set w \<Longrightarrow> split_comma w = [w]"
  by (induction w) auto

lemma split_comma_append: "CHR '','' \<notin> set w \<Longrightarrow> split_comma (w @ CHR '','' # s) = w # split_comma s"
  by (induction w) auto

lemma split_join: "ws \<noteq> [] \<Longrightarrow> \<forall>w \<in> set ws. CHR '','' \<notin> set w \<Longrightarrow> split_comma (join_comma ws) = ws"
  by (induction ws rule: join_comma.induct) (auto simp: split_comma_free split_comma_append)

lemma trim_all_map: "trim_all = map TrimSpace"
proof
  show "trim_all arr = map TrimSpace arr" for arr by (induction arr) auto
qed

lemma length_trim: "length (trim_runes ws s) \<le> length s"
proof (induction ws s rule: trim_runes.induct)
  case (1 ws s)
  show ?case
  proof (cases "find (\<lambda>w. w \<noteq> [] \<and> take (length w) s = w) ws")
    case None
    then show ?thesis by (subst trim_runes.simps) simp
  next
    case (Some w)
    then show ?thesis using 1 [OF Some] by (subst trim_runes.simps) simp
  qed
qed

lemma trim_shorter:
  assumes "find (\<lambda>w. w \<noteq> [] \<and> take (length w) s = w) ws = Some w"
  shows "length (trim_runes ws s) < length s"
proof -
  have "w \<noteq> []" "take (length w) s = w" using assms by (auto simp: find_Some_iff)
  then have "length (drop (length w) s) < length s" by (cases s) auto
  moreover have "trim_runes ws s = trim_runes ws (drop (length w) s)"
    by (subst trim_runes.simps) (simp add: assms)
  ultimately show ?thesis using length_trim [of ws "drop (length w) s"] by simp
qed

lemma trim_same: "length (trim_runes ws s) = length s \<Longrightarrow> trim_runes ws s = s"
  using trim_shorter [of s ws]
  by (cases "find (\<lambda>w. w \<noteq> [] \<and> take (length w) s = w) ws") (auto simp: trim_runes.simps [of ws s])

text \<open>A text that trimming leaves as it is has no white space at either end.\<close>

lemma TrimSpace_fixed:
  assumes "TrimSpace w = w"
  shows "trim_runes white_runes w = w" "trim_runes (map rev white_runes) (rev w) = rev w"
proof -
  have "length w \<le> length (trim_runes white_runes w)"
    using arg_cong [OF assms, of length] length_trim [of "map rev white_runes" "rev (trim_runes white_runes w)"]
    by (simp add: TrimSpace_def)
  then show 1: "trim_runes white_runes w = w"
    using length_trim [of white_runes w] by (intro trim_same) simp
  show "trim_runes (map rev white_runes) (rev w) = rev w"
    using arg_cong [OF assms, of rev] by (simp add: TrimSpace_def 1)
qed

definition is_white :: "char \<Rightarrow> bool" where
  "is_white c \<longleftrightarrow> c \<in> set [CHR 0x09, CHR 0x0A, CHR 0x0B, CHR 0x0C, CHR 0x0D, CHR 0x20]"

lemma trim_white_char:
  assumes "is_white c"
  shows "trim_runes white_runes (c # s) = trim_runes white_runes s"
    "trim_runes (map rev white_runes) (c # s) = trim_runes (map rev white_runes) s"
proof -
  have first: "find (\<lambda>x. x \<noteq> [] \<and> take (length x) (c # s) = x) (map (\<lambda>d. [d]) ds @ ws) = Some [c]" if "c \<in> set ds" for ds ws
    using that by (induction ds) auto
  let ?ds = "[CHR 0x09, CHR 0x0A, CHR 0x0B, CHR 0x0C, CHR 0x0D, CHR 0x20]"
  have c: "c \<in> set ?ds" using assms by (auto simp: is_white_def)
  have "\<exists>ws. white_runes = map (\<lambda>d. [d]) ?ds @ ws"
    by (simp add: white_runes_def)
  then obtain ws where ws: "white_runes = map (\<lambda>d. [d]) ?ds @ ws" by blast
  have ws': "map rev white_runes = map (\<lambda>d. [d]) ?ds @ map rev ws" unfolding ws by simp
  have "find (\<lambda>x. x \<noteq> [] \<and> take (length x) (c # s) = x) white_runes = Some [c]"
    "find (\<lambda>x. x \<noteq> [] \<and> take (length x) (c # s) = x) (map rev white_runes) = Some [c]"
    unfolding ws' unfolding ws by (rule first [OF c])+
  then show "trim_runes white_runes (c # s) = trim_runes white_runes s"
    "trim_runes (map rev white_runes) (c # s) = trim_runes (map rev white_runes) s"
    by (subst (1) trim_runes.simps, simp)+
qed

lemma trim_pad:
  assumes "\<forall>c \<in> set u. is_white c"
  shows "trim_runes white_runes (u @ s) = trim_runes white_runes s"
    "trim_runes (map rev white_runes) (u @ s) = trim_runes (map rev white_runes) s"
  using assms by (induction u) (auto simp: trim_white_char)

lemma trim_Nil: "trim_runes white_runes [] = []" "trim_runes (map rev white_runes) [] = []"
  by code_simp+

lemma white_tail: "x \<in> set white_runes \<Longrightarrow> c \<in> set (tl x) \<Longrightarrow> \<not> is_white c"
proof -
  have "\<forall>x \<in> set white_runes. \<forall>c \<in> set (tl x). \<not> is_white c" by code_simp
  then show "x \<in> set white_runes \<Longrightarrow> c \<in> set (tl x) \<Longrightarrow> \<not> is_white c" by blast
qed

lemma trim_stops:
  assumes "trim_runes white_runes w = w" "x \<in> set white_runes" "x \<noteq> []"
  shows "take (length x) w \<noteq> x"
proof
  assume t: "take (length x) w = x"
  then obtain y where y: "find (\<lambda>z. z \<noteq> [] \<and> take (length z) w = z) white_runes = Some y"
    using assms(2,3) by (cases "find (\<lambda>z. z \<noteq> [] \<and> take (length z) w = z) white_runes") (auto simp: find_None_iff)
  from trim_shorter [OF this] show False using assms(1) by simp
qed

lemma trim_append:
  assumes "trim_runes white_runes w = w" "w \<noteq> []" "\<forall>c \<in> set v. is_white c"
  shows "trim_runes white_runes (w @ v) = w @ v"
proof -
  have "take (length x) (w @ v) \<noteq> x" if x: "x \<in> set white_runes" "x \<noteq> []" for x
  proof
    assume t: "take (length x) (w @ v) = x"
    show False
    proof (cases "length x \<le> length w")
      case True
      then show False using t trim_stops [OF assms(1) x] by simp
    next
      case False
      then obtain k where k: "length x = length w + Suc k" by (metis add_Suc_right less_imp_Suc_add not_le)
      then have e: "x = w @ take (Suc k) v" using t by simp
      with k have "v \<noteq> []" by auto
      then obtain c u where v: "v = c # u" by (cases v) auto
      then have "c \<in> set (tl x)" using e assms(2) by (cases w) auto
      then show False using white_tail [OF x(1)] assms(3) v by simp
    qed
  qed
  then have "find (\<lambda>x. x \<noteq> [] \<and> take (length x) (w @ v) = x) white_runes = None"
    by (auto simp: find_None_iff)
  then show ?thesis by (subst trim_runes.simps) simp
qed

lemma TrimSpace_pad:
  assumes "\<forall>c \<in> set u. is_white c" "\<forall>c \<in> set v. is_white c" "TrimSpace w = w"
  shows "TrimSpace (u @ w @ v) = w"
proof (cases "w = []")
  case True
  have "trim_runes white_runes (u @ v) = []"
    using trim_pad(1) [OF assms(1), of v] trim_pad(1) [OF assms(2), of "[]"] trim_Nil by simp
  then show ?thesis using True by (simp add: TrimSpace_def trim_Nil)
next
  case False
  have "\<forall>c \<in> set (rev v). is_white c" using assms(2) by simp
  then show ?thesis
    using trim_pad(1) [OF assms(1), of "w @ v"] trim_append [OF TrimSpace_fixed(1) [OF assms(3)] False assms(2)]
      trim_pad(2) [of "rev v" "rev w"] TrimSpace_fixed(2) [OF assms(3)] by (simp add: TrimSpace_def)
qed

text \<open>
  The app list of the configuration is read back: names that have no comma and that
  trimming leaves as they are, joined by commas and padded with white space anywhere around them, give those
  names, in order, for both platforms.  The empty text gives the one app with the empty name.
\<close>

lemma apps_round_trip:
  assumes "apps \<noteq> []" "\<forall>(u, w, v) \<in> set apps. CHR '','' \<notin> set (u @ w @ v) \<and> (\<forall>c \<in> set u \<union> set v. is_white c) \<and> TrimSpace w = w"
  shows "GetApnsAppsArray (join_comma (map (\<lambda>(u, w, v). u @ w @ v) apps)) = map (\<lambda>(u, w, v). w) apps
    \<and> GetGcmAppsArray (join_comma (map (\<lambda>(u, w, v). u @ w @ v) apps)) = map (\<lambda>(u, w, v). w) apps
    \<and> GetApnsAppsArray '''' = ['''']"
proof -
  have "split_comma (join_comma (map (\<lambda>(u, w, v). u @ w @ v) apps)) = map (\<lambda>(u, w, v). u @ w @ v) apps"
    using assms by (intro split_join) auto
  moreover have "map TrimSpace (map (\<lambda>(u, w, v). u @ w @ v) apps) = map (\<lambda>(u, w, v). w) apps"
    unfolding map_map
  proof (rule map_cong [OF refl])
    fix x assume "x \<in> set apps"
    with assms(2) show "(TrimSpace \<circ> (\<lambda>(u, w, v). u @ w @ v)) x = (\<lambda>(u, w, v). w) x"
      by (cases x) (auto intro!: TrimSpace_pad)
  qed
  moreover have "TrimSpace [] = []" by (simp add: TrimSpace_def trim_Nil)
  ultimately show ?thesis
    unfolding GetApnsAppsArray_def GetGcmAppsArray_def trim_all_map by simp
qed

lemma apps_round_trip_example:
  "GetApnsAppsArray ''game, other '' = [''game'', ''other'']"
proof -
  let ?apps = "[('''', ''game'', ''''), ('' '', ''other'', '' '')]"
  have "is_white CHR '' ''" "TrimSpace ''game'' = ''game''" "TrimSpace ''other'' = ''other''" by code_simp+
  then have "\<forall>(u, w, v) \<in> set ?apps. CHR '','' \<notin> set (u @ w @ v) \<and> (\<forall>c \<in> set u \<union> set v. is_white c) \<and> TrimSpace w = w"
    by simp
  from apps_round_trip [OF _ this] show ?thesis by simp
qed

end
