(* ===== verification/Fcm_Pipeline.thy ===== *)
theory Fcm_Pipeline
  imports Fcm_Handler
begin

text \<open>
  The FCM pipeline as a state machine: consumer and \<open>routeMessages\<close> as for APNS, then
  \<open>sendPush\<close> with its concurrency control, the goroutines that send, and the handlers of the
  responses (\<^verbatim>\<open>extensions/firebase/message_handler.go\<close>).  One app is configured.
\<close>

section \<open>The state and its steps\<close>

text \<open>A goroutine is in the client's \<open>SendPush\<close>, or sends the response.\<close>

datatype sender = In_send "fcm_Message \<times> string" | Responding "fcm_Message \<times> send_error option"

record 'w fcm_pipeline =
  f_wg :: int
  f_consumer :: "KafkaMessage option"
  f_msgChan :: "KafkaMessage list"
  f_router :: "(fcm_Message \<times> string) option"
  sendPushConcurrencyControl :: nat
  f_senders :: "sender list"
  responsesChannel :: "(fcm_Message \<times> send_error option) list"
  f_dropped :: nat
  f_world :: 'w

record fcm_capacities =
  f_msgChan_size :: nat
  f_concurrentWorkers :: nat

text \<open>
  \<open>NewMessageHandler\<close> makes both channels as large as the number of workers, and fills the
  concurrency control.
\<close>

definition fcm_initial :: "fcm_capacities \<Rightarrow> 'w \<Rightarrow> 'w fcm_pipeline" where
  "fcm_initial c w = \<lparr>f_wg = 0, f_consumer = None, f_msgChan = [], f_router = None,
     sendPushConcurrencyControl = f_concurrentWorkers c, f_senders = [], responsesChannel = [], f_dropped = 0, f_world = w\<rparr>"

definition without :: "nat \<Rightarrow> 'x list \<Rightarrow> 'x list" where
  "without i xs = take i xs @ drop (Suc i) xs"

inductive fcm_step ::
    "float_ops \<Rightarrow> 'w services \<Rightarrow> messageHandler \<Rightarrow> fcm_capacities \<Rightarrow> 'w fcm_pipeline \<Rightarrow> 'w fcm_pipeline \<Rightarrow> bool"
  for F D h c where
  consumer_sends: "f_consumer s = Some m \<Longrightarrow> length (f_msgChan s) < f_msgChan_size c
    \<Longrightarrow> fcm_step F D h c s (s\<lparr>f_consumer := None, f_msgChan := f_msgChan s @ [m]\<rparr>)"
| route_drops: "f_router s = None \<Longrightarrow> f_msgChan s = m # ms \<Longrightarrow> km_Game m \<noteq> f_app h
    \<Longrightarrow> fcm_step F D h c s (s\<lparr>f_msgChan := ms, f_dropped := Suc (f_dropped s)\<rparr>)"
| route_handles: "f_router s = None \<Longrightarrow> f_msgChan s = m # ms \<Longrightarrow> km_Game m = f_app h
    \<Longrightarrow> fcm_HandleMessages F D env h m (f_world s) = (es, w)
    \<Longrightarrow> fcm_step F D h c s (s\<lparr>f_msgChan := ms, f_wg := f_wg s - int (dones es),
          f_router := (case started es of [] \<Rightarrow> None | mt # _ \<Rightarrow> Some mt), f_world := w\<rparr>)"
| router_starts: "f_router s = Some mt \<Longrightarrow> 0 < sendPushConcurrencyControl s
    \<Longrightarrow> fcm_step F D h c s (s\<lparr>f_router := None, sendPushConcurrencyControl := sendPushConcurrencyControl s - 1,
          f_senders := f_senders s @ [In_send mt]\<rparr>)"
| send_returns: "i < length (f_senders s) \<Longrightarrow> f_senders s ! i = In_send mt
    \<Longrightarrow> fcm_step F D h c s (s\<lparr>f_senders := (f_senders s)[i := Responding (fst mt, err)]\<rparr>)"
| sender_responds: "i < length (f_senders s) \<Longrightarrow> f_senders s ! i = Responding r
    \<Longrightarrow> length (responsesChannel s) < f_concurrentWorkers c
    \<Longrightarrow> fcm_step F D h c s (s\<lparr>f_senders := without i (f_senders s), responsesChannel := responsesChannel s @ [r],
          sendPushConcurrencyControl := sendPushConcurrencyControl s + 1\<rparr>)"
| response_handled: "0 < f_concurrentWorkers c \<Longrightarrow> responsesChannel s = r # rs
    \<Longrightarrow> fcm_step F D h c s (s\<lparr>responsesChannel := rs, f_wg := f_wg s - int (dones (handle_response h r))\<rparr>)"

definition fcm_read :: "KafkaMessage \<Rightarrow> 'w fcm_pipeline \<Rightarrow> 'w fcm_pipeline" where
  "fcm_read m s = s\<lparr>f_consumer := Some m, f_wg := f_wg s + 1\<rparr>"

inductive fcm_reach ::
    "float_ops \<Rightarrow> 'w services \<Rightarrow> messageHandler \<Rightarrow> fcm_capacities \<Rightarrow> 'w \<Rightarrow> 'w fcm_pipeline \<Rightarrow> bool" for F D h c w where
  start: "fcm_reach F D h c w (fcm_initial c w)"
| read: "fcm_reach F D h c w s \<Longrightarrow> f_consumer s = None \<Longrightarrow> fcm_reach F D h c w (fcm_read m s)"
| step: "fcm_reach F D h c w s \<Longrightarrow> fcm_step F D h c s t \<Longrightarrow> fcm_reach F D h c w t"

section \<open>Invariants\<close>

lemma sum_list_without:
  "i < length xs \<Longrightarrow> sum_list (map f (without i xs)) + f (xs ! i) = (sum_list (map f xs) :: nat)"
  by (simp add: without_def) (metis add.commute add.left_commute append_take_drop_id id_take_nth_drop list.simps(9) map_append
      sum_list.Cons sum_list_append)

lemma length_without [simp]: "i < length xs \<Longrightarrow> length (without i xs) = length xs - 1"
  by (simp add: without_def)

text \<open>A weight of everything in the pipeline, by where it is, on the way from the consumer to the response.\<close>

fun sender_weight :: "nat \<Rightarrow> nat \<Rightarrow> sender \<Rightarrow> nat" where
  "sender_weight a b (In_send _) = a"
| "sender_weight a b (Responding _) = b"

definition fcm_load :: "nat list \<Rightarrow> 'w fcm_pipeline \<Rightarrow> nat" where
  "fcm_load v s = (case f_consumer s of None \<Rightarrow> 0 | Some _ \<Rightarrow> v ! 0) + v ! 1 * length (f_msgChan s)
     + (case f_router s of None \<Rightarrow> 0 | Some _ \<Rightarrow> v ! 2) + sum_list (map (sender_weight (v ! 3) (v ! 4)) (f_senders s))
     + v ! 5 * length (responsesChannel s)"

definition fcm_in_flight :: "'w fcm_pipeline \<Rightarrow> nat" where
  "fcm_in_flight s = fcm_load [1, 1, 1, 1, 1, 1] s"

definition fcm_potential :: "'w fcm_pipeline \<Rightarrow> nat" where
  "fcm_potential s = fcm_load [6, 5, 4, 3, 2, 1] s"

lemma fcm_one:
  assumes "f_hasWG h"
  shows "length (started (fst (fcm_HandleMessages F D env h m w))) + dones (fst (fcm_HandleMessages F D env h m w)) = 1"
proof -
  have "h\<lparr>f_hasWG := True\<rparr> = h" using assms by (cases h) simp
  then show ?thesis using fcm.settles [of F D env h m w] by simp
qed

definition fcm_inv :: "fcm_capacities \<Rightarrow> 'w fcm_pipeline \<Rightarrow> bool" where
  "fcm_inv c s \<longleftrightarrow> f_wg s = int (fcm_in_flight s + f_dropped s)
     \<and> sendPushConcurrencyControl s + length (f_senders s) = f_concurrentWorkers c
     \<and> length (responsesChannel s) \<le> f_concurrentWorkers c"

lemma handle_response_dones: "f_hasWG h \<Longrightarrow> dones (handle_response h r) = 1"
  by (cases r) (simp add: handle_response_def handleNotificationFailure_def
      handleNotificationAck_def Let_def split: option.split)

lemma fcm_inv_step:
  assumes "f_hasWG h" "fcm_step F D h c s t" "fcm_inv c s"
  shows "fcm_inv c t"
  using assms(2)
proof (cases rule: fcm_step.cases)
  case (route_handles m ms env es w)
  have "length (started es) + dones es = 1"
    using fcm_one [OF assms(1), of F D env m "f_world s"] route_handles by simp
  then consider "started es = []" "dones es = 1" | n where "started es = [n]" "dones es = 0"
    by (cases "started es") auto
  then show ?thesis
    using route_handles assms(3) by cases (simp_all add: fcm_inv_def fcm_in_flight_def fcm_load_def)
next
  case (send_returns i mt err)
  with assms(3) sum_list_update_nat [of i "f_senders s" "sender_weight 1 1" "Responding (fst mt, err)"]
  show ?thesis by (simp add: fcm_inv_def fcm_in_flight_def fcm_load_def)
next
  case (sender_responds i r)
  with assms(3) sum_list_without [of i "f_senders s" "sender_weight 1 1"]
  show ?thesis by (simp add: fcm_inv_def fcm_in_flight_def fcm_load_def)
next
  case (response_handled r rs)
  with assms(3) handle_response_dones [OF assms(1)]
  show ?thesis by (simp add: fcm_inv_def fcm_in_flight_def fcm_load_def)
qed (use assms(3) in \<open>simp_all add: fcm_inv_def fcm_in_flight_def fcm_load_def\<close>)

lemma fcm_inv_reach:
  assumes "f_hasWG h"
  shows "fcm_reach F D h c w s \<Longrightarrow> fcm_inv c s"
proof (induction rule: fcm_reach.induct)
  case start
  then show ?case by (simp add: fcm_inv_def fcm_initial_def fcm_in_flight_def fcm_load_def)
next
  case (read s m)
  then show ?case by (simp add: fcm_inv_def fcm_read_def fcm_in_flight_def fcm_load_def)
next
  case (step s t)
  then show ?case using fcm_inv_step [OF assms] by blast
qed

text \<open>
  \<^bold>\<open>C18\<close>  The invariant of the FCM pipeline, however its goroutines interleave: the wait group
  counts the messages in flight and those dropped for want of a handler, and nothing is ever lost; the
  tokens of the concurrency control and the goroutines that hold one are together the number of
  workers, so that never more than that many sends run at once.
\<close>

theorem fcm_pipeline_invariant:
  assumes "f_hasWG h" "fcm_reach F D h c w s"
  shows "f_wg s = int (fcm_in_flight s + f_dropped s)
    \<and> length (f_senders s) = f_concurrentWorkers c - sendPushConcurrencyControl s
    \<and> length (f_senders s) \<le> f_concurrentWorkers c
    \<and> length (responsesChannel s) \<le> f_concurrentWorkers c"
  using fcm_inv_reach [OF assms] unfolding fcm_inv_def by linarith

section \<open>Coming to rest\<close>

lemma fcm_potential_decreases:
  assumes "fcm_step F D h c s t"
  shows "fcm_potential t < fcm_potential s"
  using assms
proof (cases rule: fcm_step.cases)
  case (route_handles m ms env es w)
  then show ?thesis by (cases "started es") (simp_all add: fcm_potential_def fcm_load_def)
next
  case (send_returns i mt err)
  then show ?thesis
    using sum_list_update_nat [of i "f_senders s" "sender_weight 3 2" "Responding (fst mt, err)"]
    by (simp add: fcm_potential_def fcm_load_def)
next
  case (sender_responds i r)
  then show ?thesis
    using sum_list_without [of i "f_senders s" "sender_weight 3 2"]
    by (simp add: fcm_potential_def fcm_load_def)
qed (simp_all add: fcm_potential_def fcm_load_def)

lemma fcm_run_bound: "(fcm_step F D h c ^^ k) s t \<Longrightarrow> k + fcm_potential t \<le> fcm_potential s"
proof (induction k arbitrary: t)
  case (Suc k)
  then obtain u where "(fcm_step F D h c ^^ k) s u" "fcm_step F D h c u t"
    by (auto elim: relcompp.cases)
  then show ?case using Suc.IH [of u] fcm_potential_decreases [of F D h c u t] by simp
qed simp

lemma fcm_rest:
  assumes "\<And>t. \<not> fcm_step F D h c s t" "f_consumer s \<noteq> None \<Longrightarrow> 0 < f_msgChan_size c" "0 < f_concurrentWorkers c" "fcm_inv c s"
  shows "fcm_in_flight s = 0"
proof -
  have resp: "responsesChannel s = []"
    using assms(1,3) response_handled [of c s _ _ F D h] by (cases "responsesChannel s") blast+
  have "f_senders s = []"
  proof (cases "f_senders s")
    case (Cons x xs)
    then show ?thesis
      using assms(1,3) resp send_returns [of 0 s _ F D h c] sender_responds [of 0 s _ c F D h]
      by (cases x) (fastforce, fastforce)
  qed
  moreover from this have "sendPushConcurrencyControl s = f_concurrentWorkers c"
    using assms(4) by (simp add: fcm_inv_def)
  then have router: "f_router s = None"
    using assms(1,3) router_starts [of s _ F D h c] by (cases "f_router s") (simp, metis)
  moreover have msgs: "f_msgChan s = []"
    using assms(1) router route_drops [of s _ _ h F D c] route_handles [of s _ _ h F D]
    by (cases "f_msgChan s") (simp, metis surj_pair)
  moreover have "f_consumer s = None"
    using assms(1,2) msgs consumer_sends [of s _ c F D h] by (cases "f_consumer s") (simp, metis list.size(3))
  ultimately show ?thesis using resp by (simp add: fcm_in_flight_def fcm_load_def)
qed

text \<open>
  The FCM pipeline has no deadlock: once the consumer stops reading, every run of its
  goroutines ends, within the potential of the state, and where none can go on, nothing is in flight and
  the wait group counts only the messages whose game had no handler.
\<close>

lemma fcm_pipeline_settles:
  assumes "f_hasWG h" "fcm_reach F D h c w s" "0 < f_msgChan_size c" "0 < f_concurrentWorkers c"
    and "(fcm_step F D h c ^^ k) s t"
  shows "k \<le> fcm_potential s \<and> ((\<exists>u. fcm_step F D h c t u) \<or> (fcm_in_flight t = 0 \<and> f_wg t = int (f_dropped t)))"
proof -
  have "fcm_inv c t"
    using assms(5)
  proof (induction k arbitrary: t)
    case 0
    then show ?case using fcm_inv_reach [OF assms(1,2)] by simp
  next
    case (Suc k)
    then obtain u where "(fcm_step F D h c ^^ k) s u" "fcm_step F D h c u t"
      by (auto elim: relcompp.cases)
    then show ?case using Suc.IH [of u] fcm_inv_step [OF assms(1)] by blast
  qed
  then have "fcm_in_flight t = 0 \<and> f_wg t = int (f_dropped t)" if "\<nexists>u. fcm_step F D h c t u"
    using fcm_rest [of F D h c t] that assms(3,4) by (auto simp: fcm_inv_def)
  moreover have "k \<le> fcm_potential s"
    using fcm_run_bound [OF assms(5)] by linarith
  ultimately show ?thesis by blast
qed

section \<open>The properties at work\<close>

definition sample_fcm_handler :: messageHandler where
  "sample_fcm_handler = \<lparr>f_app = ''g'', f_feedbackReporters = [0], f_statsReporters = [0], f_hasWG = True\<rparr>"

definition sample_fcm_env :: fcm_env where
  "sample_fcm_env = \<lparr>f_UnixNano = i64 5000000000, f_time_Since = 0\<rparr>"

definition one_worker :: fcm_capacities where
  "one_worker = \<lparr>f_msgChan_size = 1, f_concurrentWorkers = 1\<rparr>"

abbreviation fcm_sample_reach :: "unit fcm_pipeline \<Rightarrow> bool" where
  "fcm_sample_reach \<equiv> fcm_reach sample_floats free_services sample_fcm_handler one_worker ()"

abbreviation fcm_sample_step :: "unit fcm_pipeline \<Rightarrow> unit fcm_pipeline \<Rightarrow> bool" where
  "fcm_sample_step \<equiv> fcm_step sample_floats free_services sample_fcm_handler one_worker"

definition sample_started :: "fcm_Message \<times> string" where
  "sample_started = hd (started (fst
     (fcm_HandleMessages sample_floats free_services sample_fcm_env sample_fcm_handler null_message ())))"

abbreviation one_sent :: "unit fcm_pipeline" where
  "one_sent \<equiv> (fcm_initial one_worker ())\<lparr>f_wg := 1, f_router := Some sample_started\<rparr>"

lemma fcm_sample_effects:
  "started (fst (fcm_HandleMessages sample_floats free_services sample_fcm_env sample_fcm_handler null_message ())) = [sample_started]"
  "dones (fst (fcm_HandleMessages sample_floats free_services sample_fcm_env sample_fcm_handler null_message ())) = 0"
  by code_simp+

lemma one_sent_reach: "fcm_sample_reach one_sent"
proof -
  let ?s0 = "fcm_initial one_worker ()"
  let ?s1 = "fcm_read null_message ?s0"
  let ?s2 = "?s1\<lparr>f_consumer := None, f_msgChan := [null_message]\<rparr>"
  let ?H = "fcm_HandleMessages sample_floats free_services sample_fcm_env sample_fcm_handler null_message ()"
  let ?s3 = "?s2\<lparr>f_msgChan := [], f_wg := f_wg ?s2 - int (dones (fst ?H)),
      f_router := (case started (fst ?H) of [] \<Rightarrow> None | mt # _ \<Rightarrow> Some mt), f_world := ()\<rparr>"
  have 1: "fcm_sample_reach ?s1"
    by (intro fcm_reach.read fcm_reach.start) (simp add: fcm_initial_def)
  have "fcm_sample_step ?s1 ?s2"
    using consumer_sends [of ?s1 null_message one_worker] by (simp add: fcm_read_def fcm_initial_def one_worker_def)
  with 1 have 2: "fcm_sample_reach ?s2" by (rule fcm_reach.step)
  have "fcm_sample_step ?s2 ?s3"
  proof (rule route_handles)
    show "fcm_HandleMessages sample_floats free_services sample_fcm_env sample_fcm_handler null_message (f_world ?s2) = (fst ?H, ())"
      by (cases ?H) simp
  qed (simp_all add: fcm_read_def fcm_initial_def null_message_def sample_fcm_handler_def)
  with 2 have 3: "fcm_sample_reach ?s3" by (rule fcm_reach.step)
  have "?s3 = one_sent"
    by (simp add: fcm_sample_effects fcm_read_def fcm_initial_def)
  with 3 show ?thesis by simp
qed

theorem fcm_pipeline_invariant_witness:
  "f_wg one_sent = int (fcm_in_flight one_sent + f_dropped one_sent)"
  using fcm_pipeline_invariant [OF _ one_sent_reach] by (simp add: sample_fcm_handler_def)

lemma fcm_pipeline_settles_example:
  "(\<exists>u. fcm_sample_step one_sent u) \<and> (0 :: nat) \<le> fcm_potential one_sent"
proof -
  have "f_hasWG sample_fcm_handler" "0 < f_msgChan_size one_worker" "0 < f_concurrentWorkers one_worker"
    by (simp_all add: sample_fcm_handler_def one_worker_def)
  moreover have "(fcm_sample_step ^^ 0) one_sent one_sent" by simp
  ultimately have "0 \<le> fcm_potential one_sent \<and>
      ((\<exists>u. fcm_sample_step one_sent u) \<or> (fcm_in_flight one_sent = 0 \<and> f_wg one_sent = int (f_dropped one_sent)))"
    by (intro fcm_pipeline_settles [OF _ one_sent_reach])
  then show ?thesis by (simp add: fcm_in_flight_def fcm_load_def fcm_initial_def)
qed

end
