(* ===== verification/Pusher.thy ===== *)
theory Pusher
  imports Kafka_Consumer Config Apns_Pipeline Fcm_Pipeline
begin

text \<open>
  The pushers: the topics they add for their apps and the handlers they make for them
  (\<^verbatim>\<open>pusher/apns.go\<close>, \<^verbatim>\<open>pusher/gcm.go\<close>), \<open>routeMessages\<close> (\<^verbatim>\<open>pusher/pusher.go\<close>), and the choice
  of reporters (\<^verbatim>\<open>pusher/reporters.go\<close>, \<^verbatim>\<open>feedback/common.go\<close>).
\<close>

section \<open>Topics\<close>

definition add_topic :: "string \<Rightarrow> string list \<Rightarrow> string list" where
  "add_topic t ts = (if t \<in> set ts then ts else ts @ [t])"

fun apns_topics :: "string list \<Rightarrow> string list \<Rightarrow> string list" where
  "apns_topics [] ts = ts"
| "apns_topics (a # apps) ts =
    (let ts = add_topic (''push-'' @ a @ ''_apns-single'') ts;
         ts = add_topic (''push-'' @ a @ ''_apns-massive'') ts
     in apns_topics apps ts)"

fun gcm_app_topics :: "string \<Rightarrow> string list \<Rightarrow> string list \<Rightarrow> string list" where
  "gcm_app_topics a [] ts = ts"
| "gcm_app_topics a (platform # ps) ts =
    (let ts = add_topic (''push-'' @ a @ ''_'' @ platform @ ''-single'') ts;
         ts = add_topic (''push-'' @ a @ ''_'' @ platform @ ''-massive'') ts
     in gcm_app_topics a ps ts)"

fun gcm_topics :: "string list \<Rightarrow> string list \<Rightarrow> string list" where
  "gcm_topics [] ts = ts"
| "gcm_topics (a # apps) ts = gcm_topics apps (gcm_app_topics a [''gcm'', ''ios''] ts)"

section \<open>Handlers\<close>

text \<open>
  One handler per app; the first that cannot be made is reported and ends the start, with the
  handlers made so far unused.  \<open>None\<close> is a panic while a handler is made.
\<close>

fun configure_apns_handlers ::
    "(string \<Rightarrow> (string + 'h) option) \<Rightarrow> reporter list \<Rightarrow> string list \<Rightarrow> (string \<times> 'h) list
      \<Rightarrow> (stat_event list \<times> (string + (string \<times> 'h) list)) option" where
  "configure_apns_handlers new rs [] m = Some ([], if m = [] then Inl ''could not initialize any app'' else Inr m)"
| "configure_apns_handlers new rs (k # ks) m =
    (case new k of
       None \<Rightarrow> None
     | Some (Inr handler) \<Rightarrow> configure_apns_handlers new rs ks (map_set k handler m)
     | Some (Inl err) \<Rightarrow> Some (to_reporters rs (InitializeFailure k ''apns''),
         Inl (''failed to initialize apns firebase for '' @ k @ '': '' @ err)))"

text \<open>For gcm, missing credentials end the process, as a panic does (\<open>None\<close>), and a client that fails is an error.\<close>

fun createMessageHandlerForApps ::
    "(string \<Rightarrow> string) \<Rightarrow> (string \<Rightarrow> string \<Rightarrow> (string + 'h) option) \<Rightarrow> string list \<Rightarrow> (string \<times> 'h) list
      \<Rightarrow> (string + (string \<times> 'h) list) option" where
  "createMessageHandlerForApps credentials new [] m = Some (Inr m)"
| "createMessageHandlerForApps credentials new (app # apps) m =
    (if credentials app = '''' then None
     else (case new app (credentials app) of
         None \<Rightarrow> None
       | Some (Inl err) \<Rightarrow> Some (Inl (''could not create firebase pushClient for all apps: '' @ err))
       | Some (Inr handler) \<Rightarrow> createMessageHandlerForApps credentials new apps (map_set app handler m)))"

section \<open>Reporters\<close>

text \<open>
  The reporters by name, in order.  A name is not available (the inner \<open>None\<close>), its reporter panics when made
  (\<open>Some None\<close>, and \<open>None\<close> of the whole), or it is made or fails.
\<close>

fun configure_reporters ::
    "string \<Rightarrow> (string \<Rightarrow> (string + 'r) option option) \<Rightarrow> string list \<Rightarrow> 'r list \<Rightarrow> (string + 'r list) option" where
  "configure_reporters kind available [] rs = Some (Inr rs)"
| "configure_reporters kind available (name # names) rs =
    (case available name of
       None \<Rightarrow> Some (Inl (''failed to initialize '' @ name @ ''. '' @ kind @ '' Reporter not available''))
     | Some None \<Rightarrow> None
     | Some (Some (Inl err)) \<Rightarrow> Some (Inl (''failed to initialize '' @ name @ ''. '' @ err))
     | Some (Some (Inr r)) \<Rightarrow> configure_reporters kind available names (rs @ [r]))"

definition configureStatsReporters :: "(string + 'r) option \<Rightarrow> viper \<Rightarrow> (string + 'r list) option" where
  "configureStatsReporters statsd v =
     configure_reporters ''Stats'' (\<lambda>name. if name = ''statsd'' then Some statsd else None)
       (GetStringSlice v [(''stats.reporters'', CList [])] ''stats.reporters'') []"

definition configureFeedbackReporters :: "(string + 'r) option \<Rightarrow> viper \<Rightarrow> (string + 'r list) option" where
  "configureFeedbackReporters kafka v =
     configure_reporters ''Feedback'' (\<lambda>name. if name = ''kafka'' then Some kafka else None)
       (GetStringSlice v [] ''feedback.reporters'') []"

text \<open>
  What is reported of the Go run-time: the fields of \<open>runtime.MemStats\<close> the code reads, with the circular
  buffer of the last 256 pauses of the garbage collector, and the number of goroutines.
\<close>

record MemStats =
  Alloc :: nat
  HeapObjects :: nat
  NextGC :: nat
  NumGC :: "32 word"
  PauseNs :: "nat list"

definition reportGoStats :: "reporter list \<Rightarrow> int64 \<Rightarrow> MemStats \<Rightarrow> stat_event list" where
  "reportGoStats rs num m =
     (let gcTime = PauseNs m ! unat ((NumGC m + 255) mod 256) in
      to_reporters rs (ReportGoStats num (Alloc m) (HeapObjects m) (NextGC m) gcTime))"

text \<open>The index is that of the last collection even when the counter of 32 bits has wrapped around.\<close>

lemma last_pause_index: "unat ((n + 255 :: 32 word) mod 256) < 256" "unat ((n + 255) mod 256) = unat ((n - 1) mod 256)"
proof -
  have add: "unat ((n + k) mod 256) = (unat n + unat k) mod 256" for k :: "32 word"
    by (simp add: unat_mod unat_word_ariths mod_mod_cancel)
  show "unat ((n + 255 :: 32 word) mod 256) < 256" by (simp add: add)
  have "n - 1 = n + 4294967295" by simp
  moreover have "unat ((n + 255) mod 256) = unat ((n + 4294967295) mod 256)"
    using add [of 255] add [of 4294967295] by (simp add: mod_add_right_eq [symmetric, of "unat n" 4294967295])
  ultimately show "unat ((n + 255) mod 256) = unat ((n - 1) mod 256)" by (simp only:)
qed

section \<open>Routing\<close>

type_synonym ('w, 'n) handler = "KafkaMessage \<Rightarrow> 'w \<Rightarrow> 'n effect list \<times> 'w"

definition route_message :: "(string \<Rightarrow> ('w, 'n) handler option) \<Rightarrow> ('w, 'n) handler" where
  "route_message handlers m w = (case handlers (km_Game m) of Some h \<Rightarrow> h m w | None \<Rightarrow> ([], w))"

definition routeMessages :: "(string \<Rightarrow> ('w, 'n) handler option) \<Rightarrow> KafkaMessage list \<Rightarrow> 'w \<Rightarrow> 'n effect list \<times> 'w" where
  "routeMessages handlers ms w = handle_all (route_message handlers) ms w"

section \<open>Routing accounts for every message\<close>

locale message_router =
  fixes handlers :: "string \<Rightarrow> ('w, 'n) handler option"
  assumes each: "handlers g = Some h \<Longrightarrow> message_handler h"
begin

lemma route_one:
  "length (started (fst (route_message handlers m w))) + dones (fst (route_message handlers m w))
    = of_bool (handlers (km_Game m) \<noteq> None)"
proof (cases "handlers (km_Game m)")
  case (Some h)
  then show ?thesis
    using message_handler.settles [OF each [OF Some], of m w] by (simp add: route_message_def)
qed (simp add: route_message_def)

lemma route_all:
  "length (started (fst (routeMessages handlers ms w))) + dones (fst (routeMessages handlers ms w))
    + length (filter (\<lambda>m. handlers (km_Game m) = None) ms) = length ms"
  unfolding routeMessages_def
proof (induction ms arbitrary: w)
  case (Cons m ms)
  show ?case
    using route_one [of m w] Cons [of "snd (route_message handlers m w)"]
    by (cases "handlers (km_Game m)") (simp_all add: case_prod_beta Let_def)
qed simp

end

definition apns_handlers ::
    "float_ops \<Rightarrow> 'w services \<Rightarrow> env \<Rightarrow> (string \<Rightarrow> APNSMessageHandler option) \<Rightarrow> string \<Rightarrow> ('w, ApnsNotification) handler option" where
  "apns_handlers F D env apps g = map_option (\<lambda>a. HandleMessages F D env (a\<lparr>h_hasWG := True\<rparr>)) (apps g)"

definition fcm_handlers ::
    "float_ops \<Rightarrow> 'w services \<Rightarrow> fcm_env \<Rightarrow> (string \<Rightarrow> messageHandler option) \<Rightarrow> string \<Rightarrow> ('w, fcm_Message \<times> string) handler option" where
  "fcm_handlers F D env apps g = map_option (\<lambda>h. fcm_HandleMessages F D env (h\<lparr>f_hasWG := True\<rparr>)) (apps g)"

interpretation apns_router: message_router "apns_handlers F D env apps" for F D env apps
  by unfold_locales (auto simp: apns_handlers_def HandleMessages_settles)

interpretation fcm_router: message_router "fcm_handlers F D env apps" for F D env apps
  by unfold_locales (auto simp: fcm_handlers_def fcm_HandleMessages_settles)

text \<open>
  Routing over any sequence of messages, with the APNS or the FCM handlers of any set of
  apps: the notifications handed over, the messages settled and those whose game has no handler are
  together exactly the messages routed, so that the last, and only they, stay in the wait group for good.
\<close>

lemma routing_accounts:
  "length (started (fst (routeMessages (apns_handlers F D env apps) ms w))) + dones (fst (routeMessages (apns_handlers F D env apps) ms w))
     + length (filter (\<lambda>m. apps (km_Game m) = None) ms) = length ms
   \<and> length (started (fst (routeMessages (fcm_handlers F D env' apps') ms w))) + dones (fst (routeMessages (fcm_handlers F D env' apps') ms w))
     + length (filter (\<lambda>m. apps' (km_Game m) = None) ms) = length ms"
  using apns_router.route_all [of F D env apps ms w] fcm_router.route_all [of F D env' apps' ms w]
  by (simp add: apns_handlers_def fcm_handlers_def)

section \<open>Topics lead to the handler of their app\<close>

lemma add_topic_set [simp]: "set (add_topic t ts) = insert t (set ts)"
  by (auto simp: add_topic_def)

lemma distinct_add_topic [simp]: "distinct (add_topic t ts) \<longleftrightarrow> distinct ts"
  by (auto simp: add_topic_def)

lemma apns_topics_set:
  "set (apns_topics apps ts) = set ts \<union> (\<Union>a \<in> set apps. {''push-'' @ a @ ''_apns-single'', ''push-'' @ a @ ''_apns-massive''})"
  by (induction apps arbitrary: ts) (auto simp: Let_def)

lemma gcm_app_topics_set:
  "set (gcm_app_topics a ps ts) = set ts \<union> (\<Union>p \<in> set ps. {''push-'' @ a @ ''_'' @ p @ ''-single'', ''push-'' @ a @ ''_'' @ p @ ''-massive''})"
  by (induction ps arbitrary: ts) (auto simp: Let_def)

lemma gcm_topics_set:
  "set (gcm_topics apps ts) = set ts \<union> (\<Union>a \<in> set apps. \<Union>p \<in> {''gcm'', ''ios''}.
     {''push-'' @ a @ ''_'' @ p @ ''-single'', ''push-'' @ a @ ''_'' @ p @ ''-massive''})"
  by (induction apps arbitrary: ts) (auto simp: gcm_app_topics_set)

lemma topics_distinct:
  "distinct (apns_topics apps ts) \<longleftrightarrow> distinct ts" "distinct (gcm_topics apps ts) \<longleftrightarrow> distinct ts"
proof -
  have "distinct (gcm_app_topics a ps ts) \<longleftrightarrow> distinct ts" for a ps ts
    by (induction ps arbitrary: ts) (simp_all add: Let_def)
  then show "distinct (gcm_topics apps ts) \<longleftrightarrow> distinct ts"
    by (induction apps arbitrary: ts) simp_all
  show "distinct (apns_topics apps ts) \<longleftrightarrow> distinct ts"
    by (induction apps arbitrary: ts) (simp_all add: Let_def)
qed

lemma app_topic:
  assumes "game_ok a" "p \<in> set platforms" "suffix \<in> {''-single'', ''-massive''}"
  shows "GetGameAndPlatformFromTopic (''push-'' @ a @ ''_'' @ p @ suffix) = Some \<lparr>Platform = p, Game = a\<rparr>"
proof -
  have free: "no_platform (p @ suffix)"
    using assms(2,3) by (auto simp: platforms_def tail_platform_def is_sep_def)
  have "reads_as (''push-'' @ a @ CHR ''_'' # p @ suffix) a p"
    unfolding reads_as_def using assms(1,2) is_sep_def by blast
  then have "GetGameAndPlatformFromTopic (''push-'' @ a @ CHR ''_'' # p @ suffix) = Some \<lparr>Platform = p, Game = a\<rparr>"
    unfolding GetGameAndPlatform_Some_iff using reading_longest [OF free] by simp
  then show ?thesis by simp
qed

text \<open>
  The topics a pusher adds lead back to it: of apps with proper names, each topic it adds is read as one of
  its apps and one of its platforms.
\<close>

lemma apns_topics_read:
  assumes "\<forall>a \<in> set apps. game_ok a" "t \<in> set (apns_topics apps ts)"
  shows "t \<in> set ts \<or> (\<exists>m. push_receiveMessage \<lparr>fm_Topic = t, fm_Value = v\<rparr> = Some m
        \<and> km_Game m \<in> set apps \<and> km_Platform m = ''apns'')"
proof (cases "t \<in> set ts")
  case False
  then obtain a s where "a \<in> set apps" "t = ''push-'' @ a @ ''_'' @ ''apns'' @ s" "s \<in> {''-single'', ''-massive''}"
    using assms(2) unfolding apns_topics_set by auto
  then show ?thesis
    using app_topic [of a "''apns''" s] assms(1) unfolding push_receiveMessage_def by (simp add: platforms_def)
qed simp

lemma gcm_topics_read:
  assumes "\<forall>a \<in> set apps. game_ok a" "t \<in> set (gcm_topics apps ts)"
  shows "t \<in> set ts \<or> (\<exists>m. push_receiveMessage \<lparr>fm_Topic = t, fm_Value = v\<rparr> = Some m
        \<and> km_Game m \<in> set apps \<and> km_Platform m \<in> {''gcm'', ''ios''})"
proof (cases "t \<in> set ts")
  case False
  then have "\<exists>a \<in> set apps. \<exists>p \<in> {''gcm'', ''ios''}. t \<in> {''push-'' @ a @ ''_'' @ p @ ''-single'', ''push-'' @ a @ ''_'' @ p @ ''-massive''}"
    using assms(2) unfolding gcm_topics_set by (simp only: UN_iff Un_iff list.set empty_iff simp_thms)
  then obtain a p s where "a \<in> set apps" "t = ''push-'' @ a @ ''_'' @ p @ s" "s \<in> {''-single'', ''-massive''}" "p \<in> {''gcm'', ''ios''}"
    by blast
  moreover from this(4) have "p \<in> set platforms" by (auto simp: platforms_def)
  ultimately show ?thesis
    using app_topic [of a p s] assms(1) unfolding push_receiveMessage_def by simp
qed simp

section \<open>All handlers or none\<close>

lemma configure_apns_handlers_ok:
  "(\<forall>k \<in> set ks. \<exists>h. new k = Some (Inr h)) \<Longrightarrow> m \<noteq> [] \<or> ks \<noteq> [] \<Longrightarrow>
    \<exists>m'. configure_apns_handlers new rs ks m = Some ([], Inr m') \<and>
      (\<forall>k. map_of m' k = (if k \<in> set ks then Some (projr (the (new k))) else map_of m k))"
proof (induction ks arbitrary: m)
  case (Cons k ks)
  then obtain h where h: "new k = Some (Inr h)" by auto
  have "map_set k h m \<noteq> []" by (cases m) auto
  with Cons.IH [of "map_set k h m"] Cons.prems(1) obtain m' where
    "configure_apns_handlers new rs ks (map_set k h m) = Some ([], Inr m')"
    "\<And>k'. map_of m' k' = (if k' \<in> set ks then Some (projr (the (new k'))) else map_of (map_set k h m) k')"
    by auto
  with h show ?case by (auto simp: update_conv')
qed simp

lemma configure_apns_handlers_fails:
  "\<forall>k' \<in> set ks. \<exists>h. new k' = Some (Inr h) \<Longrightarrow> new k = Some (Inl err) \<Longrightarrow>
    configure_apns_handlers new rs (ks @ k # rest) m =
      Some (to_reporters rs (InitializeFailure k ''apns''), Inl (''failed to initialize apns firebase for '' @ k @ '': '' @ err))"
  by (induction ks arbitrary: m) auto

lemma configure_apns_handlers_cases:
  assumes "configure_apns_handlers new rs ks m = Some (ev, Inr m')"
  shows "ev = [] \<and> (\<forall>k \<in> set ks. \<exists>h. new k = Some (Inr h))"
  using assms by (induction ks arbitrary: m) (auto split: option.splits sum.splits if_splits)

lemma createMessageHandlerForApps_ok:
  assumes "createMessageHandlerForApps credentials new apps m = Some (Inr m')"
  shows "(\<forall>app \<in> set apps. credentials app \<noteq> '''' \<and> (\<exists>h. new app (credentials app) = Some (Inr h)))
    \<and> (\<forall>app. map_of m' app = (if app \<in> set apps then Some (projr (the (new app (credentials app)))) else map_of m app))"
  using assms by (induction apps arbitrary: m) (auto simp: update_conv' split: if_splits option.splits sum.splits)

text \<open>
  The start of an APNS pusher is all or nothing: if no handler panics and every app's can be
  made, each app has its handler and nothing else has one; if one cannot, the start fails with the first such
  app's error, after that app alone has been reported to every reporter.
\<close>

lemma apns_start_all_or_nothing:
  assumes "apps \<noteq> []" "\<forall>k \<in> set apps. new k \<noteq> None"
  shows "case find (\<lambda>k. isl (the (new k))) apps of
      None \<Rightarrow> \<exists>m. configure_apns_handlers new rs apps [] = Some ([], Inr m)
        \<and> (\<forall>k. map_of m k = (if k \<in> set apps then Some (projr (the (new k))) else None))
    | Some k \<Rightarrow> configure_apns_handlers new rs apps [] =
        Some (map (\<lambda>r. (r, InitializeFailure k ''apns'')) rs,
         Inl (''failed to initialize apns firebase for '' @ k @ '': '' @ projl (the (new k))))"
proof (cases "find (\<lambda>k. isl (the (new k))) apps")
  case None
  have "\<exists>h. new k = Some (Inr h)" if "k \<in> set apps" for k
    using None assms(2) that by (cases "new k"; cases "the (new k)") (auto simp: find_None_iff isl_def)
  then show ?thesis using configure_apns_handlers_ok [of apps new "[]" rs] assms None by auto
next
  case (Some k)
  then obtain i where i: "i < length apps" "apps ! i = k" "isl (the (new k))" "\<And>j. j < i \<Longrightarrow> \<not> isl (the (new (apps ! j)))"
    by (auto simp: find_Some_iff)
  have "\<exists>h. new k' = Some (Inr h)" if "k' \<in> set (take i apps)" for k'
  proof -
    have "k' \<in> set apps" using that by (rule in_set_takeD)
    moreover have "\<not> isl (the (new k'))" using that i(1,4) by (auto simp: in_set_conv_nth)
    ultimately show ?thesis using assms(2) by (cases "new k'"; cases "the (new k')") (auto simp: isl_def)
  qed
  moreover have "apps = take i apps @ k # drop (Suc i) apps"
    using id_take_nth_drop [OF i(1)] i(2) by simp
  moreover obtain err where "new k = Some (Inl err)"
  proof -
    have "k \<in> set apps" using i(1,2) by auto
    then show thesis using assms(2) i(3) that by (cases "new k") (auto simp: isl_def)
  qed
  ultimately show ?thesis
    using configure_apns_handlers_fails [of "take i apps" new k err rs "drop (Suc i) apps" "[]"] Some
    by (simp add: to_reporters_map)
qed

lemma apns_start_all_or_nothing_example:
  "configure_apns_handlers (\<lambda>k. Some (if k = ''b'' then Inl ''token error'' else Inr k)) [0] [''a'', ''b'', ''c''] []
    = Some ([(0, InitializeFailure ''b'' ''apns'')], Inl ''failed to initialize apns firebase for b: token error'')"
  using apns_start_all_or_nothing [of "[''a'', ''b'', ''c'']" "\<lambda>k. Some (if k = ''b'' then Inl ''token error'' else Inr k)" "[0]"]
  by simp

end
