(* ===== verification/Pg.thy ===== *)
theory Pg
  imports Viper Strconv
begin

text \<open>
  The connection to PostgreSQL, \<^verbatim>\<open>extensions/pg.go\<close>.  What the database answers and what the clock
  says are parameters: the answer and the reading (in milliseconds) of each turn of the wait, and the
  reading after the loop was left at a turn.  The loop may run for ever, so it is a partial function.
\<close>

record pg_options =
  po_Addr :: string
  po_User :: string
  po_Password :: string
  po_Database :: string
  po_PoolSize :: int64
  po_MaxRetries :: int64
  po_InsecureTLS :: bool

definition Connect :: "viper \<Rightarrow> string \<Rightarrow> pg_options" where
  "Connect v prefix =
     \<lparr>po_Addr = GetString v [] (prefix @ ''.host'') @ '':'' @ FormatInt (GetInt v [] (prefix @ ''.port'')),
      po_User = GetString v [] (prefix @ ''.user''),
      po_Password = GetString v [] (prefix @ ''.pass''),
      po_Database = GetString v [] (prefix @ ''.database''),
      po_PoolSize = GetInt v [] (prefix @ ''.poolSize''),
      po_MaxRetries = GetInt v [] (prefix @ ''.maxRetries''),
      po_InsecureTLS = GetBool v [] (prefix @ ''.sslmode'')\<rparr>"

text \<open>The rows returned by \<^verbatim>\<open>select 1\<close>, or an error.\<close>

definition IsConnected :: "string + int \<Rightarrow> bool" where
  "IsConnected res = (case res of Inl err \<Rightarrow> False | Inr rows \<Rightarrow> rows = 1)"

partial_function (option) wait_loop ::
    "(nat \<Rightarrow> string + int) \<Rightarrow> (nat \<Rightarrow> int64) \<Rightarrow> int64 \<Rightarrow> int64 \<Rightarrow> nat \<Rightarrow> nat option" where
  "wait_loop db clock start t i =
     (if \<not> IsConnected (db i) \<and> clock i - start \<le> t then wait_loop db clock start t (Suc i) else Some i)"

definition timed_out :: string where
  "timed_out = ''timed out waiting for PostgreSQL to connect''"

text \<open>The error returned, if any; the outer \<open>None\<close> is a wait that does not end.\<close>

definition WaitForConnection ::
    "(nat \<Rightarrow> string + int) \<Rightarrow> (nat \<Rightarrow> int64) \<Rightarrow> (nat \<Rightarrow> int64) \<Rightarrow> int64 \<Rightarrow> int64 \<Rightarrow> string option option" where
  "WaitForConnection db clock after start t =
     (case wait_loop db clock start t 0 of
        None \<Rightarrow> None
      | Some i \<Rightarrow> Some (if t < after i - start then Some timed_out else None))"

text \<open>A new client: connecting always succeeds, the wait decides.\<close>

definition NewPGClient ::
    "viper \<Rightarrow> string \<Rightarrow> (nat \<Rightarrow> string + int) \<Rightarrow> (nat \<Rightarrow> int64) \<Rightarrow> (nat \<Rightarrow> int64) \<Rightarrow> int64 \<Rightarrow> (string + pg_options) option" where
  "NewPGClient v prefix db clock after start =
     (case WaitForConnection db clock after start (GetInt v [] (prefix @ ''.connectionTimeout'')) of
        None \<Rightarrow> None
      | Some (Some err) \<Rightarrow> Some (Inl err)
      | Some None \<Rightarrow> Some (Inr (Connect v prefix)))"

section \<open>The wait ends\<close>

lemma wait_loop_ends:
  assumes "\<And>j. j < n \<Longrightarrow> \<not> IsConnected (db (i + j)) \<and> clock (i + j) - start \<le> t"
    and "IsConnected (db (i + n)) \<or> t < clock (i + n) - start"
  shows "wait_loop db clock start t i = Some (i + n)"
  using assms
proof (induction n arbitrary: i)
  case 0
  then show ?case by (subst wait_loop.simps) auto
next
  case (Suc n)
  have "wait_loop db clock start t (Suc i) = Some (Suc i + n)"
  proof (rule Suc.IH)
    show "\<not> IsConnected (db (Suc i + j)) \<and> clock (Suc i + j) - start \<le> t" if "j < n" for j
      using Suc.prems(1) [of "Suc j"] that by simp
    show "IsConnected (db (Suc i + n)) \<or> t < clock (Suc i + n) - start"
      using Suc.prems(2) by simp
  qed
  then show ?case
    using Suc.prems(1) [of 0] by (subst wait_loop.simps) simp
qed

text \<open>
  Waiting for the database ends: if every turn of the loop takes ten milliseconds on the
  clock, as its sleep asks for, it is left within the timeout and one turn more.  If it returns no
  error, the database had answered; if the database has not answered in any of these turns, it returns
  the time-out (when the clock does not run backwards).
\<close>

lemma WaitForConnection_ends:
  assumes "\<And>i. 10 * int i \<le> int_of t + 10 \<Longrightarrow> 10 * int i \<le> int_of (clock i - start)"
    and "\<And>i. int_of (clock i - start) \<le> int_of (after i - start)" "0 \<le> int_of t"
  shows "\<exists>i. 10 * int i \<le> int_of t + 10 \<and>
    WaitForConnection db clock after start t = Some (if t < after i - start then Some timed_out else None)
    \<and> (IsConnected (db i) \<or> t < after i - start)
    \<and> (\<forall>j < i. \<not> IsConnected (db j))"
proof -
  define out where "out = (\<lambda>i. IsConnected (db i) \<or> t < clock i - start)"
  define N where "N = Suc (nat (int_of t) div 10)"
  have N: "10 * int N \<le> int_of t + 10" "int_of t < 10 * int N"
    unfolding N_def using assms(3) by auto
  then have "out N"
    using assms(1) [of N] by (simp add: out_def less_int64_def)
  define n where "n = (LEAST i. out i)"
  have n: "out n" "n \<le> N" "\<And>j. j < n \<Longrightarrow> \<not> out j"
    using \<open>out N\<close> unfolding n_def by (auto intro: LeastI Least_le dest: not_less_Least)
  have "wait_loop db clock start t 0 = Some (0 + n)"
    using n(1,3) by (intro wait_loop_ends) (auto simp: out_def not_less)
  moreover have "10 * int n \<le> int_of t + 10" using n(2) N(1) by linarith
  moreover have "IsConnected (db n) \<or> t < after n - start"
    using n(1) assms(2) [of n] by (auto simp: out_def less_int64_def)
  moreover have "\<not> IsConnected (db j)" if "j < n" for j
    using n(3) [OF that] by (simp add: out_def)
  ultimately show ?thesis
    by (auto simp: WaitForConnection_def intro!: exI [of _ n])
qed

lemma WaitForConnection_ends_example:
  "\<exists>r. WaitForConnection (\<lambda>i. Inl ''refused'') (\<lambda>i. i64 (int (min 50 (10 * i)))) (\<lambda>i. i64 (int (min 50 (10 * i)))) 0 (i64 20) = Some r"
proof -
  let ?c = "\<lambda>i :: nat. i64 (int (min 50 (10 * i)))"
  have range: "in_int64 (int (min 50 (10 * i)))" for i :: nat by (simp add: in_int64_def)
  have c: "int_of (?c i - 0) = int (min 50 (10 * i))" for i
    by (subst int_of_minus) (use range [of i] in simp_all)
  have t: "int_of (i64 20) = 20" by (simp add: in_int64_def)
  have "10 * int i \<le> int_of (?c i - 0)" if "10 * int i \<le> int_of (i64 20) + 10" for i
    using that unfolding c t by simp
  moreover have "0 \<le> int_of (i64 20)" unfolding t by simp
  ultimately show ?thesis
    using WaitForConnection_ends [of "i64 20" ?c 0 ?c "\<lambda>i. Inl ''refused''"] by blast
qed

end
