(* ===== verification/Listener.thy ===== *)
theory Listener
  imports Invalid_Token Kafka_Consumer Pusher Pg
begin

text \<open>
  The feedback listener, \<^verbatim>\<open>feedback/listener.go\<close>: how it and its parts are configured
  (\<^verbatim>\<open>feedback/broker.go\<close>, \<^verbatim>\<open>feedback/invalid_token.go\<close>), and what its loop reports until its
  clean-up (the clean-up itself is in \<open>Feedback_Pipeline\<close>); and the producer of feedbacks
  (\<^verbatim>\<open>extensions/kafka_producer.go\<close>) as it is made.
\<close>

section \<open>The configuration of the parts\<close>

definition time_Millisecond :: int64 where "time_Millisecond = i64 1000000"

record broker_config =
  InvalidTokenEnabled :: bool
  InvalidTokenOutChan_size :: nat

definition broker_defaults :: defaults where
  "broker_defaults =
     [(''feedbackListeners.broker.invalidTokenChan.size'', CInt (i64 1000)),
      (''feedbackListeners.broker.invalidTokenEnabled'', CBool True)]"

definition configure_broker :: "viper \<Rightarrow> broker_config option" where
  "configure_broker v =
     (case make_size (GetInt v broker_defaults ''feedbackListeners.broker.invalidTokenChan.size'') of
        None \<Rightarrow> None
      | Some n \<Rightarrow> Some \<lparr>InvalidTokenEnabled = GetBool v broker_defaults ''feedbackListeners.broker.invalidTokenEnabled'',
          InvalidTokenOutChan_size = n\<rparr>)"

definition invalid_token_defaults :: defaults where
  "invalid_token_defaults =
     [(''feedbackListeners.invalidToken.flush.time.ms'', CInt (i64 5000)),
      (''feedbackListeners.invalidToken.buffer.size'', CInt (i64 1000))]"

text \<open>The parameter is what \<open>NewPGClient\<close> returns for its prefix: an error or none.\<close>

definition configure_invalid_token :: "(string \<Rightarrow> string option) \<Rightarrow> viper \<Rightarrow> (string + InvalidTokenHandler) option" where
  "configure_invalid_token new_pg v =
     (let flush = GetInt v invalid_token_defaults ''feedbackListeners.invalidToken.flush.time.ms'' * time_Millisecond;
          size = GetInt v invalid_token_defaults ''feedbackListeners.invalidToken.buffer.size'' in
      case make_size size of
        None \<Rightarrow> None
      | Some _ \<Rightarrow>
          (case new_pg ''feedbackListeners.invalidToken.pg'' of
             Some err \<Rightarrow> Some (Inl err)
           | None \<Rightarrow> Some (Inr \<lparr>flushTime = flush, Buffer = [], bufferSize = size\<rparr>)))"

record producer_config =
  kp_Brokers :: string
  kp_Topic :: string
  kp_BatchSize :: int64
  kp_LingerMs :: int64

definition producer_defaults :: defaults where
  "producer_defaults =
     [(''feedback.kafka.topic'', CStr ''com.games.test.feedbacks''),
      (''feedback.kafka.brokers'', CStr ''localhost:9941''),
      (''feedback.kafka.linger.ms'', CInt 0),
      (''feedback.kafka.batch.size'', CInt (i64 1048576))]"

text \<open>The topic is read under another key than the one its default is set for.\<close>

definition configure_producer :: "viper \<Rightarrow> producer_config" where
  "configure_producer v =
     \<lparr>kp_Brokers = GetString v producer_defaults ''feedback.kafka.brokers'',
      kp_Topic = GetString v producer_defaults ''feedback.kafka.topics'',
      kp_BatchSize = GetInt v producer_defaults ''feedback.kafka.batch.size'',
      kp_LingerMs = GetInt v producer_defaults ''feedback.kafka.linger.ms''\<rparr>"

definition producer_ConfigMap :: "producer_config \<Rightarrow> ConfigMap" where
  "producer_ConfigMap q =
     [(''queue.buffering.max.kbytes'', KInt (kp_BatchSize q)),
      (''linger.ms'', KInt (kp_LingerMs q)),
      (''bootstrap.servers'', KStr (kp_Brokers q))]"

definition NewKafkaProducer :: "(ConfigMap \<Rightarrow> string + 'r) \<Rightarrow> viper \<Rightarrow> string + 'r" where
  "NewKafkaProducer new_client v = new_client (producer_ConfigMap (configure_producer v))"

section \<open>The listener\<close>

definition listener_defaults :: defaults where
  "listener_defaults =
     [(''feedbackListeners.gracefulShutdownTimeout'', CInt (i64 1)),
      (''stats.flush.s'', CInt (i64 5)),
      (''pprof.enabled'', CBool False),
      (''pprof.host'', CStr ''127.0.0.1''),
      (''pprof.port'', CInt (i64 8081))]"

record listener =
  GracefulShutdownTimeout :: int64
  StatsReporters :: "reporter list"
  statsFlushTime :: int64
  l_Queue :: consumer_config
  l_Broker :: broker_config
  l_InvalidTokenHandler :: InvalidTokenHandler

text \<open>The reporters of the listener (\<^verbatim>\<open>feedback/common.go\<close>), which has no feedback reporters.\<close>

definition feedback_configureStatsReporters :: "(string + 'r) option \<Rightarrow> viper \<Rightarrow> (string + 'r list) option" where
  "feedback_configureStatsReporters statsd v =
     configure_reporters ''Stats'' (\<lambda>name. if name = ''statsd'' then Some statsd else None)
       (GetStringSlice v [] ''stats.reporters'') []"

text \<open>
  The parts in the order they are made, the first error ending the configuration.  Parameters: what
  the StatsD reporter, the client of Kafka (for its configuration) and the database answer when made.
\<close>

definition configure_listener ::
    "(string + reporter) option \<Rightarrow> (ConfigMap \<Rightarrow> string option) \<Rightarrow> (string \<Rightarrow> string option) \<Rightarrow> viper \<Rightarrow> (string + listener) option" where
  "configure_listener new_statsd new_kafka new_pg v =
     (case feedback_configureStatsReporters new_statsd v of
        None \<Rightarrow> None
      | Some (Inl _) \<Rightarrow> Some (Inl ''error configuring statsReporters'')
      | Some (Inr reporters) \<Rightarrow>
       (case feedback_NewKafkaConsumer new_kafka v of
          None \<Rightarrow> None
        | Some (Inl err) \<Rightarrow> Some (Inl (''error creating new queue: '' @ err))
        | Some (Inr q) \<Rightarrow>
           (case configure_broker v of
              None \<Rightarrow> None
            | Some broker \<Rightarrow>
             (case configure_invalid_token new_pg v of
                None \<Rightarrow> None
              | Some (Inl err) \<Rightarrow> Some (Inl (''error creating new invalid token handler: '' @ err))
              | Some (Inr handler) \<Rightarrow>
                  Some (Inr \<lparr>GracefulShutdownTimeout = GetInt v listener_defaults ''feedbackListeners.gracefulShutdownTimeout'',
                    StatsReporters = reporters,
                    statsFlushTime = GetInt v listener_defaults ''stats.flush.s'' * time_Second,
                    l_Queue = q, l_Broker = broker, l_InvalidTokenHandler = handler\<rparr>)))))"

definition metric_gauge :: "reporter list \<Rightarrow> string \<Rightarrow> int \<Rightarrow> string \<Rightarrow> string \<Rightarrow> metrics" where
  "metric_gauge rs metric v game platform = to_reporters rs (ReportMetricGauge metric (Float64 v) game platform)"

text \<open>The gauges of the lengths of the two channels and of the buffer; the broker reads the queue's own channel.\<close>

definition flushStats :: "reporter list \<Rightarrow> nat \<Rightarrow> nat \<Rightarrow> InvalidTokenHandler \<Rightarrow> metrics" where
  "flushStats rs queue_out invalid_tokens h =
     metric_gauge rs ''queue_out_channel'' (int queue_out) '''' ''''
     @ metric_gauge rs ''broker_in_channel'' (int queue_out) '''' ''''
     @ metric_gauge rs ''broker_invalid_token_channel'' (int invalid_tokens) '''' ''''
     @ metric_gauge rs ''invalid_token_handler_buffer'' (int (length (Buffer h))) '''' ''''"

section \<open>The loop of the listener\<close>

text \<open>One turn of the goroutine that reports the Go run-time every thirty seconds.\<close>

definition listener_reportGoStats :: "reporter list \<Rightarrow> int64 \<Rightarrow> MemStats \<Rightarrow> metrics" where
  "listener_reportGoStats rs num m =
     (let gcTime = PauseNs m ! unat ((NumGC m + 255) mod 256) in
      to_reporters rs (ReportGoStats num (Alloc m) (HeapObjects m) (NextGC m) gcTime))"

text \<open>
  What the loop of \<open>Start\<close> finds: a signal, the closed stop channel, or a tick of the flush timer, with the
  lengths of the two channels and the handler of invalid tokens as they then are.
\<close>

datatype listener_event = Signal_caught | Stop_channel_closed | Stats_tick nat nat InvalidTokenHandler

text \<open>The metrics of the loop, and whether it has ended.\<close>

fun listener_loop :: "reporter list \<Rightarrow> listener_event list \<Rightarrow> metrics \<times> bool" where
  "listener_loop rs [] = ([], False)"
| "listener_loop rs (Signal_caught # es) = ([], True)"
| "listener_loop rs (Stop_channel_closed # es) = ([], True)"
| "listener_loop rs (Stats_tick queue_out invalid_tokens h # es) =
    (let (ms, ended) = listener_loop rs es in (flushStats rs queue_out invalid_tokens h @ ms, ended))"

text \<open>\<open>Start\<close>, which panics at its ticker or goes on, with what \<open>Cleanup\<close> finds when it flushes once more.\<close>

definition Start_listener :: "reporter list \<Rightarrow> int64 \<Rightarrow> listener_event list \<Rightarrow> nat \<Rightarrow> nat \<Rightarrow> InvalidTokenHandler \<Rightarrow> metrics" where
  "Start_listener rs flush es queue_out invalid_tokens h =
     metric_count rs ''feedback_listener_restart'' 1 '''' ''''
     @ (if NewTicker_panics flush then []
        else (let (ms, ended) = listener_loop rs es in
              ms @ (if ended then flushStats rs queue_out invalid_tokens h else [])))"

text \<open>
  The gauges of a run: every tick before the end and the clean-up report all four, to each reporter.
\<close>

lemma length_flushStats: "length (flushStats rs n m h) = 4 * length rs"
  by (simp add: flushStats_def metric_gauge_def to_reporters_map)

definition listener_ends :: "listener_event list \<Rightarrow> bool" where
  "listener_ends es \<longleftrightarrow> (\<exists>e \<in> set es. e = Signal_caught \<or> e = Stop_channel_closed)"

lemma Start_listener_reports:
  assumes "\<not> NewTicker_panics flush"
  shows "length (Start_listener rs flush es n m h) =
     length rs * (1 + 4 * (length (takeWhile (\<lambda>e. e \<noteq> Signal_caught \<and> e \<noteq> Stop_channel_closed) es) + of_bool (listener_ends es)))"
proof -
  have "fst (listener_loop rs es) = concat (map (\<lambda>e. case e of Stats_tick n m h \<Rightarrow> flushStats rs n m h | _ \<Rightarrow> [])
      (takeWhile (\<lambda>e. e \<noteq> Signal_caught \<and> e \<noteq> Stop_channel_closed) es)) \<and> snd (listener_loop rs es) = listener_ends es"
    by (induction rs es rule: listener_loop.induct) (auto simp: listener_ends_def split: prod.split)
  moreover have "length (concat (map (\<lambda>e. case e of Stats_tick n m h \<Rightarrow> flushStats rs n m h | _ \<Rightarrow> [])
      (takeWhile (\<lambda>e. e \<noteq> Signal_caught \<and> e \<noteq> Stop_channel_closed) es)))
    = 4 * length rs * length (takeWhile (\<lambda>e. e \<noteq> Signal_caught \<and> e \<noteq> Stop_channel_closed) es)"
    by (induction es) (auto simp: length_flushStats split: listener_event.split)
  ultimately show ?thesis
    using assms by (simp add: Start_listener_def case_prod_beta metric_count_def to_reporters_map length_flushStats algebra_simps)
qed

section \<open>What a configured listener starts with\<close>

lemma configured_handler:
  assumes "configure_listener new_statsd new_kafka new_pg v = Some (Inr l)"
  shows "Buffer (l_InvalidTokenHandler l) = []" "0 \<le> bufferSize (l_InvalidTokenHandler l)"
    "configure_broker v = Some (l_Broker l)"
  using assms
  by (auto simp: configure_listener_def configure_invalid_token_def make_size_def Let_def not_less
      split: sum.splits option.splits if_splits)

end
