(* ===== verification/Feedback_Service.thy ===== *)
theory Feedback_Service
  imports Feedback_Shutdown Listener
begin

text \<open>
  The feedback listener as it is started: the sizes and the subscription of its state machine are those of its
  configuration, with the topics \<^verbatim>\<open>config/default.yaml\<close> ships, and what a started listener promises.
\<close>

section \<open>The subscription\<close>

text \<open>The pattern \<open>^push-[^-_]+-(apns|gcm)-feedbacks\<close> of the shipped configuration.\<close>

definition no_sep_plus :: re where
  "no_sep_plus = Seq (Cls (\<lambda>c. \<not> is_sep c)) (Star (Cls (\<lambda>c. \<not> is_sep c)))"

definition feedbacks_re :: re where
  "feedbacks_re =
     Seq (Lit ''push-'') (Seq no_sep_plus (Seq (Lit ''-'') (Seq (Grp 1 (Alt (Lit ''apns'') (Lit ''gcm''))) (Lit ''-feedbacks''))))"

definition shipped_topic :: string where
  "shipped_topic = ''^push-[^-_]+-(apns|gcm)-feedbacks''"

definition shipped_subscribes :: "string \<Rightarrow> bool" where
  "shipped_subscribes topic \<longleftrightarrow> find_submatch feedbacks_re topic \<noteq> None"

text \<open>
  The client of Kafka takes a topic that begins with \<open>^\<close> for a pattern, and any other for itself.  The parameter says which
  topics a name subscribes to.
\<close>

definition subscription_documented :: "(string \<Rightarrow> string \<Rightarrow> bool) \<Rightarrow> bool" where
  "subscription_documented subscribes \<longleftrightarrow>
     (\<forall>topic. subscribes shipped_topic topic \<longleftrightarrow> shipped_subscribes topic)
     \<and> (\<forall>name topic. hd name \<noteq> CHR ''^'' \<longrightarrow> (subscribes name topic \<longleftrightarrow> topic = name))"

text \<open>What the pattern matches.\<close>

lemma ends_matches: "map fst (matches r (s, caps)) = ends r s"
proof (induction r s arbitrary: caps rule: ends.induct)
  case (3 r1 r2 s)
  have "fst st \<in> set (ends r1 s)" if "st \<in> set (matches r1 (s, caps))" for st
    unfolding 3(1) [of caps, symmetric] using that by simp
  then have "map (\<lambda>st. map fst (matches r2 st)) (matches r1 (s, caps)) = map (ends r2) (map fst (matches r1 (s, caps)))"
    using 3(2) unfolding map_map comp_def by (intro map_cong [OF refl]) (metis prod.collapse)
  then show ?case unfolding 3(1) by (simp add: map_concat comp_def)
next
  case (5 r s)
  have "fst st \<in> set (ends r s)" if "st \<in> set (matches r (s, caps))" for st
    unfolding 5(1) [of caps, symmetric] using that by simp
  then have "map (\<lambda>st. map fst (if length (fst st) < length s then matches (Star r) st else [])) (matches r (s, caps))
      = map (\<lambda>st. if length (fst st) < length s then ends (Star r) (fst st) else []) (matches r (s, caps))"
    using 5(2) by (intro map_cong [OF refl]) force
  moreover have "map (\<lambda>st. if length (fst st) < length s then ends (Star r) (fst st) else []) (matches r (s, caps))
      = map (\<lambda>s'. if length s' < length s then ends (Star r) s' else []) (ends r s)"
    unfolding 5(1) [of caps, symmetric] map_map comp_def ..
  ultimately show ?case
    by (simp add: matches.simps(5) [of r s caps] ends.simps(5) [of r s] map_concat comp_def)
next
  case (6 k r s)
  then show ?case by (simp add: comp_def case_prod_beta)
qed (auto split: list.splits)

lemma ends_star_class: "x \<in> set (ends (Star (Cls P)) s) \<longleftrightarrow> (\<exists>u. s = u @ x \<and> (\<forall>c \<in> set u. P c))"
proof (induction s)
  case (Cons c s)
  then show ?case by (auto simp: ends_Star_Cls Cons_eq_append_conv)
qed (simp add: ends_Star_Cls)

lemma ends_no_sep_plus: "x \<in> set (ends no_sep_plus s) \<longleftrightarrow> (\<exists>g. s = g @ x \<and> g \<noteq> [] \<and> (\<forall>c \<in> set g. \<not> is_sep c))"
proof (cases s)
  case (Cons c t)
  then show ?thesis
    unfolding no_sep_plus_def by (auto simp: ends_star_class Cons_eq_append_conv)
qed (simp add: no_sep_plus_def)

lemma ends_Lit_iff: "x \<in> set (ends (Lit w) s) \<longleftrightarrow> s = w @ x"
  by (auto simp: take_eq_iff)

lemma shipped_subscribes_iff:
  "shipped_subscribes topic \<longleftrightarrow>
     (\<exists>g p rest. topic = ''push-'' @ g @ CHR ''-'' # p @ ''-feedbacks'' @ rest
        \<and> g \<noteq> [] \<and> (\<forall>c \<in> set g. \<not> is_sep c) \<and> p \<in> {''apns'', ''gcm''})"
proof -
  have in_Seq: "x \<in> set (ends (Seq r1 r2) s) \<longleftrightarrow> (\<exists>y. y \<in> set (ends r1 s) \<and> x \<in> set (ends r2 y))" for x r1 r2 s
    by auto
  have in_Alt: "x \<in> set (ends (Grp 1 (Alt r1 r2)) s) \<longleftrightarrow> x \<in> set (ends r1 s) \<or> x \<in> set (ends r2 s)" for x r1 r2 s
    by auto
  have "shipped_subscribes topic \<longleftrightarrow> (\<exists>rest. rest \<in> set (ends feedbacks_re topic))"
    unfolding shipped_subscribes_def find_submatch_def using ends_matches [of feedbacks_re topic "[]"]
    by (cases "matches feedbacks_re (topic, [])") (auto simp: ex_in_conv)
  also have "\<dots> \<longleftrightarrow> (\<exists>rest g p. topic = ''push-'' @ g @ ''-'' @ p @ ''-feedbacks'' @ rest
        \<and> g \<noteq> [] \<and> (\<forall>c \<in> set g. \<not> is_sep c) \<and> p \<in> {''apns'', ''gcm''})"
    unfolding feedbacks_re_def in_Seq in_Alt ends_Lit_iff ends_no_sep_plus by blast
  finally show ?thesis by auto
qed

section \<open>Which feedbacks the shipped pattern lets through\<close>

lemma first_dash:
  assumes "a @ CHR ''-'' # x = b @ CHR ''-'' # y" "CHR ''-'' \<notin> set a" "CHR ''-'' \<notin> set b"
  shows "a = b \<and> x = y"
  using assms
proof (induction a arbitrary: b)
  case Nil
  then show ?case by (cases b) auto
next
  case (Cons c a)
  then show ?case by (cases b) auto
qed

lemma before_dash:
  assumes "a @ CHR ''-'' # x = b @ y" "CHR ''-'' \<notin> set b"
  shows "\<exists>w. a = b @ w"
proof -
  from assms(1) obtain us where "a = b @ us \<or> b = a @ us \<and> us @ y = CHR ''-'' # x"
    unfolding append_eq_append_conv2 by metis
  with assms(2) show ?thesis by (cases us) auto
qed

lemma shipped_lets_through:
  assumes "g \<noteq> []" "\<forall>c \<in> set g. \<not> is_sep c" "p \<in> {''apns'', ''gcm''}"
  shows "shipped_subscribes (fm_Topic (SendFeedback_message g p v))"
  unfolding shipped_subscribes_iff
  by (intro exI [of _ g] exI [of _ p] exI [of _ "[]"]) (use assms in \<open>simp add: SendFeedback_message_def\<close>)

lemma shipped_names:
  assumes "game_ok g" "p \<in> set platforms" "\<nexists>u w. g = u @ ''-feedbacks'' @ w"
    and "shipped_subscribes (fm_Topic (SendFeedback_message g p v))"
  shows "(\<forall>c \<in> set g. \<not> is_sep c) \<and> p \<noteq> ''ios''"
proof -
  obtain g' p' rest where eq: "g @ CHR ''-'' # p @ ''-feedbacks'' = g' @ CHR ''-'' # p' @ ''-feedbacks'' @ rest"
    and g': "\<forall>c \<in> set g'. \<not> is_sep c" and p': "p' \<in> {''apns'', ''gcm''}"
    using assms(4) unfolding shipped_subscribes_iff by (auto simp: SendFeedback_message_def)
  have "is_sep CHR ''-''" by (simp add: is_sep_def)
  then have "CHR ''-'' \<notin> set g'" using g' by blast
  moreover have "CHR ''-'' \<notin> set p'" using p' by fastforce
  moreover have "CHR ''-'' \<notin> set p" using assms(2) unfolding platforms_def by fastforce
  ultimately have dashes: "CHR ''-'' \<notin> set g'" "CHR ''-'' \<notin> set p'" "CHR ''-'' \<notin> set p" by blast+
  show ?thesis
  proof (cases "CHR ''-'' \<in> set g")
    case False
    then have "g = g'" "p @ CHR ''-'' # ''feedbacks'' = p' @ CHR ''-'' # ''feedbacks'' @ rest"
      using first_dash [OF eq _ dashes(1)] by auto
    moreover from this(2) have "p = p'" using first_dash [OF _ dashes(3,2)] by blast
    ultimately show ?thesis using g' p' by auto
  next
    case True
    then obtain a b where g: "g = a @ CHR ''-'' # b" and a: "CHR ''-'' \<notin> set a" by (meson split_list_first)
    then have b: "b @ CHR ''-'' # p @ ''-feedbacks'' = p' @ CHR ''-'' # ''feedbacks'' @ rest"
      using first_dash [of a "b @ CHR ''-'' # p @ ''-feedbacks''" g'] eq dashes(1) by auto
    show ?thesis
    proof (cases "CHR ''-'' \<in> set b")
      case False
      then have "p @ ''-feedbacks'' = ''feedbacks'' @ rest" using first_dash [OF b _ dashes(2)] by blast
      then show ?thesis using assms(2) by (auto simp: platforms_def)
    next
      case True
      then obtain b1 b2 where b12: "b = b1 @ CHR ''-'' # b2" "CHR ''-'' \<notin> set b1" by (meson split_list_first)
      then have "b2 @ CHR ''-'' # p @ ''-feedbacks'' = ''feedbacks'' @ rest"
        using first_dash [of b1 "b2 @ CHR ''-'' # p @ ''-feedbacks''" p'] b dashes(2) by auto
      from before_dash [OF this] obtain w where "b2 = ''feedbacks'' @ w" by (simp del: append.simps) blast
      then have "g = (a @ CHR ''-'' # b1) @ ''-feedbacks'' @ w" using g b12 by simp
      then show ?thesis using assms(3) by blast
    qed
  qed
qed

text \<open>
  \<^bold>\<open>C27\<close>  The subscription that is shipped and the topics feedbacks are sent to: of the apps whose name does not hold a
  feedback's ending itself, the listener gets the feedbacks of those without a hyphen or an underscore in
  their name, for APNS and GCM, and of no other app; each feedback it gets it can read.
\<close>

theorem shipped_subscription:
  assumes "game_ok g" "p \<in> set platforms" "\<nexists>u w. g = u @ ''-feedbacks'' @ w"
  shows "(shipped_subscribes (fm_Topic (SendFeedback_message g p v)) \<longleftrightarrow> (\<forall>c \<in> set g. \<not> is_sep c) \<and> p \<noteq> ''ios'')
    \<and> receiveMessage (SendFeedback_message g p v) = Some \<lparr>q_Game = g, q_Platform = p, q_Value = v\<rparr>"
proof (intro conjI iffI)
  assume "(\<forall>c \<in> set g. \<not> is_sep c) \<and> p \<noteq> ''ios''"
  then have "g \<noteq> []" "\<forall>c \<in> set g. \<not> is_sep c" "p \<in> {''apns'', ''gcm''}"
    using assms(1,2) by (auto simp: platforms_def)
  then show "shipped_subscribes (fm_Topic (SendFeedback_message g p v))" by (rule shipped_lets_through)
qed (rule shipped_names [OF assms, THEN conjunct1] shipped_names [OF assms, THEN conjunct2] feedback_topic [OF assms(1,2)], assumption?)+

section \<open>What a started listener promises\<close>

text \<open>
  The state machine of a configured listener.  \<open>cluster\<close> are the topics there are in Kafka.
\<close>

definition listener_config_of :: "(string \<Rightarrow> string \<Rightarrow> bool) \<Rightarrow> string list \<Rightarrow> listener \<Rightarrow> feedback_config" where
  "listener_config_of subscribes cluster l =
     \<lparr>fc_msgChan_size = nat (int_of (c_ChannelSize (l_Queue l))),
      fc_OutChan_size = InvalidTokenOutChan_size (l_Broker l),
      fc_hasWG = c_HandleAllMessagesBeforeExiting (l_Queue l),
      fc_enabled = InvalidTokenEnabled (l_Broker l),
      fc_subscribed = (\<lambda>m. fm_Topic m \<in> set cluster \<and> list_ex (\<lambda>t. subscribes t (fm_Topic m)) (c_Topics (l_Queue l))),
      fc_statsFlushTime = statsFlushTime l\<rparr>"

text \<open>A listener is set up properly with the shipped topic and the topics of single apps.\<close>

definition app_topic :: "string \<Rightarrow> bool" where
  "app_topic t \<longleftrightarrow> (\<exists>g p. game_ok g \<and> p \<in> set platforms \<and> t = fm_Topic (SendFeedback_message g p ''''))"

definition dotless :: "string \<Rightarrow> bool" where
  "dotless t \<longleftrightarrow> list_all (\<lambda>c. is_word c \<or> c = CHR ''-'') t"

lemma words_game_ok: "g \<noteq> [] \<Longrightarrow> \<forall>c \<in> set g. is_word c \<Longrightarrow> game_ok g"
proof -
  have "\<forall>c \<in> set g. is_word c \<Longrightarrow> in_game g" for g by (induction g) auto
  then show "g \<noteq> [] \<Longrightarrow> \<forall>c \<in> set g. is_word c \<Longrightarrow> game_ok g" by (cases g) auto
qed

lemma shipped_readable:
  assumes "shipped_subscribes (fm_Topic m)" "dotless (fm_Topic m)"
  shows "readable m"
proof -
  from assms(1) obtain g p rest where t: "fm_Topic m = ''push-'' @ g @ CHR ''-'' # p @ ''-feedbacks'' @ rest"
    and g: "g \<noteq> []" "\<forall>c \<in> set g. \<not> is_sep c" and p: "p \<in> {''apns'', ''gcm''}"
    unfolding shipped_subscribes_iff by blast
  have "\<forall>c \<in> set g. is_word c" using assms(2) g(2) unfolding t by (auto simp: dotless_def is_sep_def list_all_iff)
  then have "game_ok g" using words_game_ok g(1) by blast
  moreover have "p \<in> set platforms" using p by (auto simp: platforms_def)
  moreover have "is_sep CHR ''-''" by (simp add: is_sep_def)
  ultimately show ?thesis unfolding readable_def reads_as_def t by blast
qed

lemma listener_reads:
  assumes "subscription_documented subscribes" "\<forall>t \<in> set cluster. dotless t"
    and "\<forall>t \<in> set (c_Topics (l_Queue l)). t = shipped_topic \<or> app_topic t"
    and "fc_subscribed (listener_config_of subscribes cluster l) m"
  shows "readable m"
proof -
  from assms(4) obtain t where t: "t \<in> set (c_Topics (l_Queue l))" "subscribes t (fm_Topic m)" and "fm_Topic m \<in> set cluster"
    by (auto simp: listener_config_of_def list_ex_iff)
  then have dotless: "dotless (fm_Topic m)" using assms(2) by blast
  show ?thesis
  proof (cases "t = shipped_topic")
    case True
    then have "shipped_subscribes (fm_Topic m)" using t(2) assms(1) by (simp add: subscription_documented_def)
    then show ?thesis using shipped_readable dotless by blast
  next
    case False
    then obtain g p where gp: "game_ok g" "p \<in> set platforms" "t = fm_Topic (SendFeedback_message g p '''')"
      using t(1) assms(3) by (auto simp: app_topic_def)
    then have "fm_Topic m = t" using t(2) assms(1) by (simp add: subscription_documented_def SendFeedback_message_def)
    then have "m = SendFeedback_message g p (fm_Value m)" using gp(3) by (simp add: SendFeedback_message_def)
    then show ?thesis using feedback_topic [OF gp(1,2)] receive_readable(2) by (metis option.distinct(1))
  qed
qed

text \<open>
  A listener started from any configuration that keeps a wait group, subscribes to the shipped topic or to the topics of apps,
  has room in its channels and both flush times above zero, on a Kafka whose topics have no character beside letters, digits, hyphen
  and underscore.
\<close>

definition properly_started ::
    "(string + reporter) option \<Rightarrow> (ConfigMap \<Rightarrow> string option) \<Rightarrow> (string \<Rightarrow> string option) \<Rightarrow> viper
      \<Rightarrow> (string \<Rightarrow> string \<Rightarrow> bool) \<Rightarrow> string list \<Rightarrow> listener \<Rightarrow> bool" where
  "properly_started new_statsd new_kafka new_pg v subscribes cluster l \<longleftrightarrow>
     configure_listener new_statsd new_kafka new_pg v = Some (Inr l)
     \<and> c_HandleAllMessagesBeforeExiting (l_Queue l)
     \<and> (\<forall>t \<in> set (c_Topics (l_Queue l)). t = shipped_topic \<or> app_topic t)
     \<and> 0 < int_of (c_ChannelSize (l_Queue l)) \<and> 0 < InvalidTokenOutChan_size (l_Broker l)
     \<and> \<not> NewTicker_panics (flushTime (l_InvalidTokenHandler l)) \<and> \<not> NewTicker_panics (statsFlushTime l)
     \<and> subscription_documented subscribes \<and> (\<forall>t \<in> set cluster. dotless t)"

abbreviation listener_reach where
  "listener_reach rc lib subscribes cluster db l \<equiv>
     feedback_reach rc lib (listener_config_of subscribes cluster l) db (StatsReporters l) (l_InvalidTokenHandler l)"

abbreviation listener_step where
  "listener_step rc lib subscribes cluster db l \<equiv>
     feedback_step rc lib (listener_config_of subscribes cluster l) db (StatsReporters l)"

lemma service_facts:
  assumes "properly_started new_statsd new_kafka new_pg v subscribes cluster l"
  shows "fc_hasWG (listener_config_of subscribes cluster l)"
    "0 < fc_msgChan_size (listener_config_of subscribes cluster l)" "0 < fc_OutChan_size (listener_config_of subscribes cluster l)"
    "fc_subscribed (listener_config_of subscribes cluster l) m \<Longrightarrow> readable m" "Buffer (l_InvalidTokenHandler l) = []"
    "\<not> NewTicker_panics (flushTime (l_InvalidTokenHandler l))"
    "\<not> NewTicker_panics (fc_statsFlushTime (listener_config_of subscribes cluster l))"
  using assms listener_reads [of subscribes cluster l m] configured_handler(1) [of new_statsd new_kafka new_pg v l]
  unfolding properly_started_def by (simp_all add: listener_config_of_def)

lemma service_ends_well:
  assumes "properly_started new_statsd new_kafka new_pg v subscribes cluster l"
    and "listener_reach rc lib subscribes cluster db l d s"
    and "listener_alive s" "\<not> out_closed (fb_cleanup s)" "fb_broker s \<noteq> Broker_returned"
  obtains t where "(listener_step rc lib subscribes cluster db l)\<^sup>*\<^sup>* s t" "fb_cleanup t = Listener_exited False"
    "feedback_pending t = 0" "undeleted t = []"
  by (rule ends_well [OF service_facts(6,1,4,5,2,3) [OF assms(1)] assms(2-5) service_facts(7) [OF assms(1)]]) (use that in blast)+

text \<open>
  \<^bold>\<open>C6\<close>  A feedback listener that is properly started, whatever Kafka and the database answer, errors included, and however its
  goroutines interleave: its wait group counts the messages it has not confirmed, and it panics only when the broker has a
  token to send and the clean-up has closed the channel, or when a message is read while the waiter of the wait group wakes up;
  nothing is gone from the tables but tokens picked out for them, and those of them still there are on their way to the database, or
  the database answered an error when it was to delete them; and while its broker is at work it can be shut down without its time-out, with
  every message confirmed and every token picked out out of its table, but for those errors.
\<close>

theorem feedback_service:
  assumes "properly_started new_statsd new_kafka new_pg v subscribes cluster l" "delete_documented db rows names"
    and "listener_reach rc lib subscribes cluster db l d s"
  shows "(if fb_panicked s then (out_closed (fb_cleanup s) \<and> (\<exists>t. fb_broker s = Broker_sending t)) \<or> fb_cleanup s = Wait_woken
      else fb_wg s = int (feedback_pending s))
    \<and> (\<forall>table. rows d table - tokens_of names table (concat (fb_deleted s)) \<subseteq> rows (fb_db s) table
        \<and> rows (fb_db s) table \<subseteq> rows d table
        \<and> rows (fb_db s) table \<inter> tokens_of names table (fb_routed s) \<subseteq> tokens_of names table (undeleted s @ fb_refused s))
    \<and> set (fb_refused s) \<subseteq> set (concat (fb_deleted s)) \<and> fb_routed s = concat (fb_deleted s) @ undeleted s
    \<and> (listener_alive s \<and> \<not> out_closed (fb_cleanup s) \<and> fb_broker s \<noteq> Broker_returned
       \<longrightarrow> (\<exists>t. (listener_step rc lib subscribes cluster db l)\<^sup>*\<^sup>* s t
             \<and> fb_cleanup t = Listener_exited False \<and> feedback_pending t = 0 \<and> undeleted t = []
             \<and> (\<forall>table. rows (fb_db t) table \<inter> tokens_of names table (fb_routed t) \<subseteq> tokens_of names table (fb_refused t))))"
proof -
  note facts = service_facts [OF assms(1)]
  have tables: "rows d table - tokens_of names table (concat (fb_deleted u)) \<subseteq> rows (fb_db u) table
        \<and> rows (fb_db u) table \<subseteq> rows d table
        \<and> rows (fb_db u) table \<inter> tokens_of names table (fb_routed u) \<subseteq> tokens_of names table (undeleted u @ fb_refused u)
        \<and> set (fb_refused u) \<subseteq> set (concat (fb_deleted u))"
    if "listener_reach rc lib subscribes cluster db l d u" for u table
    using reach_tables [OF assms(2) facts(1,4,5) that] by blast
  have inv: "feedback_inv (listener_config_of subscribes cluster l) (flushTime (l_InvalidTokenHandler l)) s"
    by (rule feedback_reach_inv [OF facts(1,4,5) assms(3)])
  have "broker_load (fb_broker s) \<noteq> [] \<longleftrightarrow> (\<exists>t. fb_broker s = Broker_sending t)"
    by (simp add: broker_load_def split: broker_state.split)
  then have "if fb_panicked s then (out_closed (fb_cleanup s) \<and> (\<exists>t. fb_broker s = Broker_sending t)) \<or> fb_cleanup s = Wait_woken
      else fb_wg s = int (feedback_pending s)" "fb_routed s = concat (fb_deleted s) @ undeleted s"
    using inv facts(6,7) by (auto simp: feedback_inv_def panic_cause_def split: if_splits)
  moreover have "\<exists>t. (listener_step rc lib subscribes cluster db l)\<^sup>*\<^sup>* s t
      \<and> fb_cleanup t = Listener_exited False \<and> feedback_pending t = 0 \<and> undeleted t = []
      \<and> (\<forall>table. rows (fb_db t) table \<inter> tokens_of names table (fb_routed t) \<subseteq> tokens_of names table (fb_refused t))"
    if live: "listener_alive s" "\<not> out_closed (fb_cleanup s)" "fb_broker s \<noteq> Broker_returned"
  proof -
    obtain t where t: "(listener_step rc lib subscribes cluster db l)\<^sup>*\<^sup>* s t" "fb_cleanup t = Listener_exited False"
      "feedback_pending t = 0" "undeleted t = []"
      by (rule service_ends_well [OF assms(1,3) live])
    with tables [OF feedback_reach_steps [OF assms(3) t(1)]] show ?thesis by (intro exI [of _ t]) simp
  qed
  ultimately show ?thesis using tables [OF assms(3)] by blast
qed

text \<open>
  A token on its way in some state, in a message that waits for the broker or between the broker and the database: later on it is
  not in its table, or it is still on its way, or the database has since answered an error when it was to delete it.
\<close>

definition on_the_way :: "(reason \<Rightarrow> string) \<Rightarrow> feedback_readers \<Rightarrow> feedback_config \<Rightarrow> 'd feedback_state \<Rightarrow> InvalidToken list" where
  "on_the_way rc lib c s = undeleted s @ concat (map (dead_tokens rc lib c) (queued s))"

definition refused_since :: "'d feedback_state \<Rightarrow> 'd feedback_state \<Rightarrow> InvalidToken list" where
  "refused_since s t = drop (length (fb_refused s)) (fb_refused t)"

lemma token_fate:
  assumes "delete_documented db rows names" "fc_hasWG c" "\<And>m. fc_subscribed c m \<Longrightarrow> readable m" "Buffer h = []"
    and "feedback_reach rc lib c db rs h d s" "(feedback_step rc lib c db rs)\<^sup>*\<^sup>* s t" "tk \<in> set (on_the_way rc lib c s)"
    and "Token tk \<in> rows (fb_db t) (table_of names tk)"
  shows "Token tk \<in> tokens_of names (table_of names tk) (on_the_way rc lib c t @ refused_since s t)"
proof -
  obtain B R where t: "fb_deleted t = fb_deleted s @ B" "fb_refused t = fb_refused s @ R"
    "takes_out names (concat B) R (rows (fb_db s)) (rows (fb_db t))"
    using run_history [OF assms(1-6)] by blast
  have route: "to_route rc lib c u = concat (fb_deleted u) @ on_the_way rc lib c u" if "feedback_reach rc lib c db rs h d u" for u
    using feedback_reach_inv [OF assms(2-4) that] by (simp add: to_route_def on_the_way_def feedback_inv_def)
  obtain ts where "concat B @ on_the_way rc lib c t = on_the_way rc lib c s @ ts"
    using to_route_kept [OF assms(6)] route [OF assms(5)] route [OF feedback_reach_steps [OF assms(5,6)]] t(1) by auto
  then have "tk \<in> set (concat B @ on_the_way rc lib c t)" using assms(7) by simp
  then have "Token tk \<in> tokens_of names (table_of names tk) (concat B @ on_the_way rc lib c t)" unfolding tokens_of_def by blast
  then show ?thesis
    using t(3) [unfolded takes_out_def, rule_format, of "table_of names tk"] assms(8) by (auto simp: refused_since_def t(2))
qed

lemma dead_token_fate:
  assumes "properly_started new_statsd new_kafka new_pg v subscribes cluster l" "delete_documented db rows names"
    and "listener_reach rc lib subscribes cluster db l d s" "q \<in> set (queued s)"
    and "started (processMessage rc lib (InvalidTokenEnabled (l_Broker l)) True q) = [tk]"
  shows "(\<forall>t. (listener_step rc lib subscribes cluster db l)\<^sup>*\<^sup>* s t \<longrightarrow> Token tk \<in> rows (fb_db t) (table_of names tk) \<longrightarrow>
        Token tk \<in> tokens_of names (table_of names tk)
          (on_the_way rc lib (listener_config_of subscribes cluster l) t @ refused_since s t))
    \<and> (listener_alive s \<and> \<not> out_closed (fb_cleanup s) \<and> fb_broker s \<noteq> Broker_returned
       \<longrightarrow> (\<exists>t. (listener_step rc lib subscribes cluster db l)\<^sup>*\<^sup>* s t \<and> fb_cleanup t = Listener_exited False
             \<and> (Token tk \<in> rows (fb_db t) (table_of names tk) \<longrightarrow>
                 Token tk \<in> tokens_of names (table_of names tk) (refused_since s t))))"
proof -
  let ?c = "listener_config_of subscribes cluster l" and ?step = "listener_step rc lib subscribes cluster db l"
  note facts = service_facts [OF assms(1)]
  have "dead_tokens rc lib ?c q = [tk]"
    using assms(5) facts(1) by (simp add: dead_tokens_def listener_config_of_def)
  then have out: "tk \<in> set (on_the_way rc lib ?c s)" using assms(4) by (force simp: on_the_way_def)
  have fate: "Token tk \<in> tokens_of names (table_of names tk) (on_the_way rc lib ?c t @ refused_since s t)"
    if t: "?step\<^sup>*\<^sup>* s t" "Token tk \<in> rows (fb_db t) (table_of names tk)" for t
    by (rule token_fate [OF assms(2) facts(1,4,5) assms(3) t(1) out t(2)])
  have "\<exists>t. ?step\<^sup>*\<^sup>* s t \<and> fb_cleanup t = Listener_exited False \<and> (Token tk \<in> rows (fb_db t) (table_of names tk) \<longrightarrow>
        Token tk \<in> tokens_of names (table_of names tk) (refused_since s t))"
    if live: "listener_alive s" "\<not> out_closed (fb_cleanup s)" "fb_broker s \<noteq> Broker_returned"
  proof -
    obtain t where t: "?step\<^sup>*\<^sup>* s t" "fb_cleanup t = Listener_exited False" "feedback_pending t = 0" "undeleted t = []"
      by (rule service_ends_well [OF assms(1,3) live])
    then have "on_the_way rc lib ?c t = []" by (simp add: on_the_way_def nothing_queued)
    then show ?thesis using fate [OF t(1)] t(1,2) by (intro exI [of _ t]) simp
  qed
  with fate show ?thesis by blast
qed

text \<open>With a database that answers no error there is no such token.\<close>

lemma none_refused_since:
  assumes "\<And>e s. turn_refused db e s = []" "feedback_reach rc lib c db rs h d s" "(feedback_step rc lib c db rs)\<^sup>*\<^sup>* s t"
  shows "refused_since s t = []"
  using nothing_refused [OF assms(1) feedback_reach_steps [OF assms(2,3)]] by (simp add: refused_since_def)

text \<open>The state in which a listener has read its first message.\<close>

definition first_read :: "listener \<Rightarrow> 'd \<Rightarrow> QueueMessage \<Rightarrow> 'd feedback_state" where
  "first_read l d q = (feedback_initial (l_InvalidTokenHandler l) d)\<lparr>fb_consumer := Received q, fb_wg := 1\<rparr>"

lemma first_read_facts:
  "listener_alive (first_read l d q)" "\<not> out_closed (fb_cleanup (first_read l d q))"
  "fb_broker (first_read l d q) \<noteq> Broker_returned" "queued (first_read l d q) = [q]" "fb_wg (first_read l d q) = 1"
  by (simp_all add: first_read_def feedback_initial_def listener_alive_def out_closed_def queued_def)

lemma first_read_reach:
  assumes "properly_started new_statsd new_kafka new_pg v subscribes cluster l"
    and "fc_subscribed (listener_config_of subscribes cluster l) m" "receiveMessage m = Some q"
  shows "listener_reach rc lib subscribes cluster db l d (first_read l d q)"
proof -
  let ?s0 = "feedback_initial (l_InvalidTokenHandler l) d"
  have 1: "listener_reach rc lib subscribes cluster db l d (?s0\<lparr>fb_consumer := Reading\<rparr>)"
    by (rule feedback_reach.step [OF feedback_reach.start consumer_reads]) (simp_all add: feedback_initial_def listener_alive_def)
  show ?thesis
    using feedback_reach.step [OF 1 read_message [OF _ _ assms(2,3)]] service_facts(1) [OF assms(1)]
    by (simp add: first_read_def feedback_initial_def listener_alive_def)
qed

section \<open>The promises at work\<close>

theorem shipped_subscription_witness:
  "shipped_subscribes (fm_Topic (SendFeedback_message ''g'' ''apns'' ''v''))
    \<and> \<not> shipped_subscribes (fm_Topic (SendFeedback_message ''my-g'' ''apns'' ''v''))"
proof -
  have 1: "game_ok ''g''" "game_ok ''my-g''" "''apns'' \<in> set platforms" by code_simp+
  have no: "length g < 10 \<Longrightarrow> \<nexists>u w. g = u @ ''-feedbacks'' @ w" for g :: string by auto
  have "shipped_subscribes (fm_Topic (SendFeedback_message ''g'' ''apns'' ''v''))
      \<longleftrightarrow> (\<forall>c \<in> set ''g''. \<not> is_sep c) \<and> ''apns'' \<noteq> ''ios''"
    by (rule shipped_subscription [THEN conjunct1, OF 1(1,3) no]) simp
  moreover have "shipped_subscribes (fm_Topic (SendFeedback_message ''my-g'' ''apns'' ''v''))
      \<longleftrightarrow> (\<forall>c \<in> set ''my-g''. \<not> is_sep c) \<and> ''apns'' \<noteq> ''ios''"
    by (rule shipped_subscription [THEN conjunct1, OF 1(2,3) no]) simp
  ultimately show ?thesis by (simp add: is_sep_def)
qed

definition kafka_subscribes :: "string \<Rightarrow> string \<Rightarrow> bool" where
  "kafka_subscribes name topic \<longleftrightarrow> (if name = shipped_topic then shipped_subscribes topic else topic = name)"

lemma kafka_subscribes_documented: "subscription_documented kafka_subscribes"
  by (auto simp: subscription_documented_def kafka_subscribes_def shipped_topic_def)

definition shipped_config :: viper where
  "shipped_config k = (if k = ''feedbackListeners.queue.topics'' then Some (CList [shipped_topic]) else None)"

definition shipped_listener :: listener where
  "shipped_listener = projr (the (configure_listener (Some (Inr 0)) (\<lambda>c. None) (\<lambda>p. None) shipped_config))"

lemma shipped_listener_started:
  "configure_listener (Some (Inr 0)) (\<lambda>c. None) (\<lambda>p. None) shipped_config = Some (Inr shipped_listener)"
  "c_HandleAllMessagesBeforeExiting (l_Queue shipped_listener)" "c_Topics (l_Queue shipped_listener) = [shipped_topic]"
  "0 < int_of (c_ChannelSize (l_Queue shipped_listener))" "0 < InvalidTokenOutChan_size (l_Broker shipped_listener)"
  "\<not> NewTicker_panics (flushTime (l_InvalidTokenHandler shipped_listener))" "\<not> NewTicker_panics (statsFlushTime shipped_listener)"
  by code_simp+

lemma shipped_proper:
  assumes "game_ok g" "\<forall>c \<in> set g. \<not> is_sep c" "p \<in> {''apns'', ''gcm''}" "dotless g"
  shows "properly_started (Some (Inr 0)) (\<lambda>c. None) (\<lambda>p. None) shipped_config kafka_subscribes
      [fm_Topic (SendFeedback_message g p x)] shipped_listener"
    "fc_subscribed (listener_config_of kafka_subscribes [fm_Topic (SendFeedback_message g p x)] shipped_listener)
       (SendFeedback_message g p x)"
proof -
  have "g \<noteq> []" using assms(1) by (cases g) simp_all
  then have "shipped_subscribes (fm_Topic (SendFeedback_message g p x))" using assms(2,3) by (rule shipped_lets_through)
  then show "fc_subscribed (listener_config_of kafka_subscribes [fm_Topic (SendFeedback_message g p x)] shipped_listener)
       (SendFeedback_message g p x)"
    by (simp add: listener_config_of_def shipped_listener_started(3) kafka_subscribes_def)
  have "dotless (fm_Topic (SendFeedback_message g p x))"
    using assms(3,4) by (auto simp: SendFeedback_message_def dotless_def is_word_def)
  then show "properly_started (Some (Inr 0)) (\<lambda>c. None) (\<lambda>p. None) shipped_config kafka_subscribes
      [fm_Topic (SendFeedback_message g p x)] shipped_listener"
    unfolding properly_started_def using shipped_listener_started kafka_subscribes_documented by simp
qed

lemma short_game: "game_ok ''g''" "\<forall>c \<in> set ''g''. \<not> is_sep c" "dotless ''g''"
  by (code_simp, simp_all add: is_sep_def dotless_def is_word_def)

lemma sample_started:
  "properly_started (Some (Inr 0)) (\<lambda>c. None) (\<lambda>p. None) shipped_config kafka_subscribes [fm_Topic sample_feedback] shipped_listener"
  "fc_subscribed (listener_config_of kafka_subscribes [fm_Topic sample_feedback] shipped_listener) sample_feedback"
  unfolding sample_feedback_def by (rule shipped_proper [OF short_game(1,2) _ short_game(3)], simp)+

theorem feedback_service_witness:
  "\<exists>t. (listener_step apple_reason sample_readers kafka_subscribes [fm_Topic sample_feedback] flaky_db shipped_listener)\<^sup>*\<^sup>*
      (first_read shipped_listener broken sample_queued) t
    \<and> fb_cleanup t = Listener_exited False \<and> feedback_pending t = 0
    \<and> memory_rows (fst (fb_db t)) ''g_apns'' \<inter> tokens_of id ''g_apns'' (fb_routed t) \<subseteq> tokens_of id ''g_apns'' (fb_refused t)"
  using feedback_service [OF sample_started(1) flaky_db_documented
      first_read_reach [OF sample_started sample_feedback_facts(1), of apple_reason sample_readers flaky_db broken]]
    first_read_facts(1-3) [of shipped_listener broken sample_queued] by simp blast

end
