(* ===== verification/Metrics.thy ===== *)
theory Metrics
  imports Apns_Handler Fcm_Handler Listener
begin

text \<open>
  The metrics of all components meet the StatsD reporter of \<^verbatim>\<open>extensions/datadog_statsd.go\<close>: whatever is reported is
  a well-formed call, so the reporter never panics, and the metrics of an app carry its name.
\<close>

section \<open>Well-formed metrics\<close>

fun call_tags :: "statsd_call \<Rightarrow> string list" where
  "call_tags (Incr m ts r) = ts"
| "call_tags (Gauge m v ts r) = ts"
| "call_tags (Count m v ts r) = ts"
| "call_tags (Timing m v ts r) = ts"

text \<open>The reporter accepts the call, and whatever it makes of it carries the tags.\<close>

definition tagged_with :: "string list \<Rightarrow> string \<Rightarrow> stat_call \<Rightarrow> bool" where
  "tagged_with ts host c \<longleftrightarrow>
     (case StatsD host c of None \<Rightarrow> False | Some cs \<Rightarrow> cs \<noteq> [] \<and> list_all (\<lambda>x. set ts \<subseteq> set (call_tags x)) cs)"

definition all_tagged :: "string list \<Rightarrow> string \<Rightarrow> stat_event list \<Rightarrow> bool" where
  "all_tagged ts host evs \<longleftrightarrow> list_all (\<lambda>e. tagged_with ts host (snd e)) evs"

lemma all_tagged_simps [simp]:
  "all_tagged ts host []" "all_tagged ts host (xs @ ys) \<longleftrightarrow> all_tagged ts host xs \<and> all_tagged ts host ys"
  "all_tagged ts host (to_reporters rs c) \<longleftrightarrow> rs = [] \<or> tagged_with ts host c"
  by (auto simp: all_tagged_def to_reporters_map list_all_iff)

text \<open>What the tags of each metric are, the type of the calls of the interface.\<close>

lemma tagged_simps [simp]:
  "tagged_with [tag ''game'' g] host (HandleNotificationSent g p t)"
  "tagged_with [tag ''game'' g] host (HandleNotificationSuccess g p)"
  "tagged_with [tag ''game'' g] host (HandleNotificationFailure g p e)"
  "tagged_with [tag ''game'' g] host (NotificationRateLimitReached g p)"
  "tagged_with [tag ''game'' g] host (NotificationRateLimitFailed g p)"
  "tagged_with [tag ''game'' g] host (InitializeFailure g p)"
  "g \<noteq> '''' \<Longrightarrow> tagged_with [tag ''game'' g] host (ReportMetricCount m v g p)"
  "g \<noteq> '''' \<Longrightarrow> tagged_with [tag ''game'' g] host (ReportMetricGauge m x g p)"
  "tagged_with [tag ''hostname'' host] host (ReportMetricCount m v g p)"
  "tagged_with [tag ''hostname'' host] host (ReportMetricGauge m x g p)"
  "tagged_with [tag ''hostname'' host] host (ReportGoStats n a b c d)"
  "tagged_with [tag ''game'' g] host (ReportSendNotificationLatency l g p [k, k'])"
  "tagged_with [tag ''game'' g] host (ReportFirebaseLatency l g [])"
  by (auto simp: tagged_with_def StatsD_HandleNotificationSent_def StatsD_HandleNotificationSuccess_def
      StatsD_HandleNotificationFailure_def StatsD_NotificationRateLimitReached_def StatsD_NotificationRateLimitFailed_def
      StatsD_InitializeFailure_def StatsD_ReportMetricCount_def StatsD_ReportMetricGauge_def StatsD_ReportGoStats_def
      StatsD_ReportSendNotificationLatency_def StatsD_ReportFirebaseLatency_def metric_tags_def platform_game_def Let_def)

context rate_limiter
begin

lemma reports_tagged: "all_tagged [tag ''game'' game] host (fst (snd (allow device game platform w)))"
proof -
  have "snd e = NotificationRateLimitFailed game platform" if "e \<in> set (fst (snd (allow device game platform w)))" for e
    using that reports [of device game platform w] by auto
  then show ?thesis by (auto simp: all_tagged_def list_all_iff)
qed

lemma apns_metrics_tagged:
  assumes "svc_Allow D = allow" "h_appName a \<noteq> ''''"
  shows "all_tagged [tag ''game'' (h_appName a)] host (stat_calls (fst (HandleMessages F D env a message w)))"
  using reports_tagged assms
  by (auto simp: HandleMessages_def check_duplicate_def sendNotification_def waitGroupDone_def Let_def case_prod_beta
      broadcast_defs split: option.splits)

lemma fcm_metrics_tagged:
  assumes "svc_Allow D = allow" "f_app h \<noteq> ''''" "km_Game msg = f_app h"
  shows "all_tagged [tag ''game'' (f_app h)] host (stat_calls (fst (fcm_HandleMessages F D env h msg w)))"
  using reports_tagged [of "f_app h"] assms
  by (auto simp: fcm_HandleMessages_def fcm_check_duplicate_def fcm_waitGroupDone_def reportRateLimitReached_def reportLatency_def
      Let_def case_prod_beta broadcast_defs split: option.splits)

end

lemma deletion_tagged:
  assumes "game \<noteq> ''''"
  shows "all_tagged [tag ''game'' game] host (fst (snd (deleteTokensFromGame exec rs tokens game platform)))"
  using assms by (simp add: deleteTokensFromGame_def metric_count_def Let_def split: exec_result.split)

lemma listener_tagged:
  "all_tagged [tag ''hostname'' host] host (flushStats rs queue_out invalid_tokens i)"
  "all_tagged [tag ''hostname'' host] host (fst (listener_loop rs es))"
  by (simp add: flushStats_def metric_gauge_def)
    (induction rs es rule: listener_loop.induct, simp_all add: flushStats_def metric_gauge_def case_prod_beta)

section \<open>The metrics of the program\<close>

text \<open>
  \<^bold>\<open>C28\<close>  Every metric of the program is a well-formed call of the StatsD reporter, so no report panics, which an odd
  number of labels would make it do: those of both handlers, for a message, an attempt to send and a response, whatever the
  limiter, deduplication, APNS and Firebase answer, and those of the deletion of tokens, carry the name of the app
  they are about; those of the listener's loop and of the Go run-time carry the name of the host.
\<close>

theorem metrics_well_formed:
  assumes "h_appName a \<noteq> ''''" "f_app h \<noteq> ''''" "km_Game msg = f_app h" "game \<noteq> ''''"
  shows "all_tagged [tag ''game'' (h_appName a)] host
      (stat_calls (fst (HandleMessages F (D\<lparr>svc_Allow := Allow R l minute\<rparr>) env a message w)))
    \<and> all_tagged [tag ''game'' (h_appName a)] host (stat_calls (handleAPNSResponse F MJ rc env a r))
    \<and> all_tagged [tag ''game'' (f_app h)] host
        (stat_calls (fst (fcm_HandleMessages F (D\<lparr>svc_Allow := Allow R l minute\<rparr>) fenv h msg w)))
    \<and> all_tagged [tag ''game'' (f_app h)] host (stat_calls (after_SendPush h fenv mt) @ stat_calls (handle_response h response))
    \<and> all_tagged [tag ''game'' game] host (fst (snd (deleteTokensFromGame exec rs tokens game platform)))
    \<and> all_tagged [tag ''hostname'' host] host (Start_listener rs flush es queue_out invalid_tokens i @ reportGoStats rs num m @ listener_reportGoStats rs num m)"
proof (intro conjI)
  show "all_tagged [tag ''game'' (h_appName a)] host
      (stat_calls (fst (HandleMessages F (D\<lparr>svc_Allow := Allow R l minute\<rparr>) env a message w)))"
    by (rule limiter.apns_metrics_tagged) (simp_all add: assms(1))
  show "all_tagged [tag ''game'' (h_appName a)] host (stat_calls (handleAPNSResponse F MJ rc env a r))"
    by (auto simp: handleAPNSResponse_def sendNotification_def Let_def broadcast_defs)
  show "all_tagged [tag ''game'' (f_app h)] host
      (stat_calls (fst (fcm_HandleMessages F (D\<lparr>svc_Allow := Allow R l minute\<rparr>) fenv h msg w)))"
    by (rule limiter.fcm_metrics_tagged) (simp_all add: assms(2,3))
  show "all_tagged [tag ''game'' (f_app h)] host (stat_calls (after_SendPush h fenv mt) @ stat_calls (handle_response h response))"
    by (auto simp: after_SendPush_def reportFirebaseLatency_def handleNotificationSent_def handle_response_def
        handleNotificationFailure_def handleNotificationAck_def Let_def split: option.split)
  show "all_tagged [tag ''hostname'' host] host (Start_listener rs flush es queue_out invalid_tokens i @ reportGoStats rs num m @ listener_reportGoStats rs num m)"
    using listener_tagged by (simp add: Start_listener_def metric_count_def reportGoStats_def listener_reportGoStats_def Let_def case_prod_beta)
qed (rule deletion_tagged [OF assms(4)])

theorem metrics_well_formed_witness:
  "all_tagged [tag ''game'' ''g''] ''host''
      (stat_calls (handleAPNSResponse sample_floats (\<lambda>n. Some JNull) apple_reason sample_env sample_handler sample_response))
    \<and> all_tagged [tag ''game'' ''g''] ''host'' (stat_calls (fst (fcm_HandleMessages sample_floats
        \<lparr>svc_Allow = Allow (memory_redis 0) \<lparr>rpmLimit = i64 10, statsReporters = [0]\<rparr> 0, svc_IsUnique = \<lambda>d m g p w. (True, w)\<rparr>
        \<lparr>f_UnixNano = i64 5000000000, f_time_Since = 0\<rparr>
        \<lparr>f_app = ''g'', f_feedbackReporters = [0], f_statsReporters = [0], f_hasWG = True\<rparr> null_message [])))"
proof -
  let ?h = "\<lparr>f_app = ''g'', f_feedbackReporters = [0], f_statsReporters = [0], f_hasWG = True\<rparr>"
  have "h_appName sample_handler = ''g''" "km_Game null_message = f_app ?h" by (simp_all add: sample_handler_def null_message_def)
  with metrics_well_formed [where a = sample_handler and h = ?h and msg = null_message and game = "''g''" and host = "''host''"
      and D = "\<lparr>svc_Allow = Allow (memory_redis 0) \<lparr>rpmLimit = i64 10, statsReporters = [0]\<rparr> 0, svc_IsUnique = \<lambda>d m g p w. (True, w)\<rparr>"
      and R = "memory_redis 0" and l = "\<lparr>rpmLimit = i64 10, statsReporters = [0]\<rparr>" and minute = 0]
  show ?thesis by simp
qed

end
