(* ===== verification/Startup.thy ===== *)
theory Startup
  imports Listener
begin

text \<open>
  How the programs are put together from their configuration: the servers' clients
  (\<^verbatim>\<open>extensions/rate_limiter.go\<close>, \<^verbatim>\<open>dedup_messages.go\<close>, \<^verbatim>\<open>datadog_statsd.go\<close>), the APNS handler
  with its push queue (\<^verbatim>\<open>extensions/apns/\<close>), the Firebase client, the two pushers
  (\<^verbatim>\<open>pusher/apns.go\<close>, \<^verbatim>\<open>pusher/gcm.go\<close>) and the commands (\<^verbatim>\<open>cmd/\<close>).  A default set by one part is
  one for all that are configured after it, so the defaults are passed on.  Parameters are what the
  libraries answer when a client is made.
\<close>

section \<open>Clients of Redis and StatsD\<close>

record redis_options =
  ro_Addr :: string
  ro_Password :: string
  ro_DB :: nat
  ro_TLS :: bool

definition rate_limiter_redis :: "viper \<Rightarrow> redis_options" where
  "rate_limiter_redis v =
     (let host = GetString v [] ''rateLimiter.redis.host''; port = GetInt v [] ''rateLimiter.redis.port'' in
      \<lparr>ro_Addr = host @ '':'' @ FormatInt port, ro_Password = GetString v [] ''rateLimiter.redis.password'', ro_DB = 0,
       ro_TLS = (\<not> GetBool v [] ''rateLimiter.tls.disabled'')\<rparr>)"

definition NewRateLimiter :: "int64 \<Rightarrow> viper \<Rightarrow> reporter list \<Rightarrow> redis_options \<times> rateLimiter" where
  "NewRateLimiter limit v rs = (rate_limiter_redis v, \<lparr>rpmLimit = limit, statsReporters = rs\<rparr>)"

definition dedupRedisDB :: nat where "dedupRedisDB = 1"

definition dedup_redis :: "viper \<Rightarrow> redis_options" where
  "dedup_redis v =
     (let host = GetString v [] ''dedup.redis.host''; port = GetInt v [] ''dedup.redis.port'' in
      \<lparr>ro_Addr = host @ '':'' @ FormatInt port, ro_Password = GetString v [] ''dedup.redis.password'', ro_DB = dedupRedisDB,
       ro_TLS = (\<not> GetBool v [] ''dedup.tls.disabled'')\<rparr>)"

definition new_dedup :: "int64 \<Rightarrow> viper \<Rightarrow> redis_options \<times> dedup" where
  "new_dedup expiry v = (dedup_redis v, NewDedup expiry (GetString v [] ''dedup.games''))"

record statsd_options =
  so_host :: string
  so_prefix :: string
  so_buflen :: int64

definition statsd_defaults :: defaults where
  "statsd_defaults = [(''stats.statsd.host'', CStr ''localhost:8125''), (''stats.statsd.prefix'', CStr ''test''),
     (''stats.statsd.buflen'', CInt (i64 1))]"

definition statsd_options_of :: "viper \<Rightarrow> statsd_options" where
  "statsd_options_of v = \<lparr>so_host = GetString v statsd_defaults ''stats.statsd.host'',
     so_prefix = GetString v statsd_defaults ''stats.statsd.prefix'', so_buflen = GetInt v statsd_defaults ''stats.statsd.buflen''\<rparr>"

text \<open>
  The library returns a client (or a nil pointer) and an error (or none).  The name space is set on the
  client before the error is looked at, so a nil pointer is a panic, \<open>None\<close>.
\<close>

definition NewStatsD :: "(string \<Rightarrow> int64 \<Rightarrow> 'r option \<times> string option) \<Rightarrow> viper \<Rightarrow> (string + 'r) option" where
  "NewStatsD NewBuffered v =
     (let opts = statsd_options_of v in
      case NewBuffered (so_host opts) (so_buflen opts) of
        (None, err) \<Rightarrow> None
      | (Some client, None) \<Rightarrow> Some (Inr client)
      | (Some client, Some err) \<Rightarrow> Some (Inl err))"

section \<open>The push queue and the handler of APNS\<close>

definition push_queue_defaults :: defaults where
  "push_queue_defaults =
     [(''apns.connectionPoolSize'', CInt (i64 1)),
      (''apns.pushQueueSize'', CInt (i64 100)),
      (''apns.responseChannelSize'', CInt (i64 100))]"

text \<open>The token the clients of APNS authenticate with, and a client, which talks to one of the two hosts of APNS.\<close>

record apns_token =
  tk_AuthKey :: string
  tk_KeyID :: string
  tk_TeamID :: string

datatype apns_host = Development | Production

record apns2_Client =
  ac_Token :: apns_token
  ac_Host :: apns_host

definition configureCertificate :: "(string \<Rightarrow> string + string) \<Rightarrow> string \<Rightarrow> string \<Rightarrow> string \<Rightarrow> string + apns_token" where
  "configureCertificate AuthKeyFromFile authKeyPath keyID teamID =
     (case AuthKeyFromFile authKeyPath of
        Inl err \<Rightarrow> Inl err
      | Inr authKey \<Rightarrow> Inr \<lparr>tk_AuthKey = authKey, tk_KeyID = keyID, tk_TeamID = teamID\<rparr>)"

record push_queue =
  pq_clients :: "apns2_Client list"
  pq_pushChannel_size :: nat
  pq_responseChannel_size :: nat
  pq_workers :: nat

text \<open>
  \<open>Configure\<close> of the push queue after the defaults \<open>d\<close>, given the token or the error of reading
  its key: the pool of clients, the sizes of the channels, and the number of workers it starts.
\<close>

definition configure_push_queue :: "defaults \<Rightarrow> string + apns_token \<Rightarrow> bool \<Rightarrow> viper \<Rightarrow> (string + push_queue) option" where
  "configure_push_queue d certificate isProduction v =
     (case certificate of
        Inl err \<Rightarrow> Some (Inl err)
      | Inr token \<Rightarrow>
         (let d = push_queue_defaults @ d in
          case (make_size (GetInt v d ''apns.connectionPoolSize''), make_size (GetInt v d ''apns.pushQueueSize''),
                make_size (GetInt v d ''apns.responseChannelSize'')) of
            (Some clients, Some pushes, Some responses) \<Rightarrow>
              Some (Inr \<lparr>pq_clients = replicate clients \<lparr>ac_Token = token, ac_Host = (if isProduction then Production else Development)\<rparr>, pq_pushChannel_size = pushes, pq_responseChannel_size = responses,
                pq_workers = nat (int_of (GetInt v d ''apns.concurrentWorkers''))\<rparr>)
          | _ \<Rightarrow> None))"

definition apns_handler_defaults :: defaults where
  "apns_handler_defaults =
     [(''apns.concurrentWorkers'', CInt (i64 10)),
      (''apns.logStatsInterval'', CInt (i64 5000)),
      (''feedback.cache.cleaningInterval'', CInt (i64 300000)),
      (''apns.retry.interval'', CStr ''1s''),
      (''apns.retry.maxRetryAttempts'', CInt (i64 3))]"

text \<open>
  A new handler: \<open>duration\<close> is how viper reads a duration, \<open>read_key\<close> the error or the key of reading the key file of
  a path.  The push queue is made if none is given.
\<close>

definition NewAPNSMessageHandler ::
    "(string \<Rightarrow> int64) \<Rightarrow> (string \<Rightarrow> string + string) \<Rightarrow> viper \<Rightarrow> defaults
      \<Rightarrow> string \<Rightarrow> string \<Rightarrow> string \<Rightarrow> string \<Rightarrow> string \<Rightarrow> bool \<Rightarrow> bool
      \<Rightarrow> reporter list \<Rightarrow> reporter list \<Rightarrow> push_queue option \<Rightarrow> (string + APNSMessageHandler \<times> push_queue) option" where
  "NewAPNSMessageHandler duration read_key v d authKeyPath keyID teamID topic appName production hasWG stats_rs feedback_rs queueOrNil =
     (let d = apns_handler_defaults @ d;
          a = \<lparr>h_feedbackReporters = feedback_rs, h_StatsReporters = stats_rs, h_appName = appName, h_ApnsTopic = topic,
               h_retryInterval = GetDuration duration v d ''apns.retry.interval'',
               h_maxRetryAttempts = GetUint v d ''apns.retry.maxRetryAttempts'', h_hasWG = hasWG\<rparr> in
      case queueOrNil of
        Some q \<Rightarrow> Some (Inr (a, q))
      | None \<Rightarrow> map_option (map_sum id (Pair a)) (configure_push_queue d (configureCertificate read_key authKeyPath keyID teamID) production v))"

section \<open>The pushers\<close>

text \<open>The configuration's file, by what the pushers use of it, and the libraries.\<close>

record pusher_config =
  cfg_GCM_Apps :: string
  cfg_GCM_ConcurrentWorkers :: int64
  cfg_Apns_Apps :: string

record libraries =
  lib_NewBuffered :: "string \<Rightarrow> int64 \<Rightarrow> reporter option \<times> string option"
  lib_NewProducer :: "ConfigMap \<Rightarrow> string + reporter"
  lib_NewConsumer :: "ConfigMap \<Rightarrow> string option"
  lib_AuthKeyFromFile :: "string \<Rightarrow> string + string"
  lib_ToDuration :: "string \<Rightarrow> int64"
  lib_NewApp :: "string \<Rightarrow> string \<Rightarrow> string option"
  lib_project_error :: "string \<Rightarrow> string"

record 'h pusher =
  ps_Queue :: consumer_config
  ps_MessageHandler :: "(string \<times> 'h) list"
  ps_feedbackReporters :: "reporter list"
  ps_StatsReporters :: "reporter list"
  ps_GracefulShutdownTimeout :: int64

definition pusher_defaults :: defaults where
  "pusher_defaults = [(''gracefulShutdownTimeout'', CInt (i64 10)), (''stats.reporters'', CList [])]"

record apns_app =
  aa_handler :: APNSMessageHandler
  aa_queue :: push_queue
  aa_rateLimiter :: "redis_options \<times> rateLimiter"
  aa_dedup :: "redis_options \<times> dedup"

text \<open>One turn of the loop that makes the handlers: the handler of the app \<open>k\<close>.\<close>

definition new_apns_app ::
    "libraries \<Rightarrow> bool \<Rightarrow> viper \<Rightarrow> bool \<Rightarrow> reporter list \<Rightarrow> reporter list \<Rightarrow> push_queue option \<Rightarrow> string \<Rightarrow> (string + apns_app) option" where
  "new_apns_app L production v hasWG stats_rs feedback_rs queueOrNil k =
     (let authKeyPath = GetString v [] (''apns.certs.'' @ k @ ''.authKeyPath'');
          keyID = GetString v [] (''apns.certs.'' @ k @ ''.keyID'');
          teamID = GetString v [] (''apns.certs.'' @ k @ ''.teamID'');
          topic = GetString v [] (''apns.certs.'' @ k @ ''.topic'');
          rateLimit = GetInt v [] ''apns.rateLimit.rpm'';
          dedupTtl = GetDuration (lib_ToDuration L) v [] ''apns.dedup.ttl'' in
      map_option (map_sum id (\<lambda>(a, q). \<lparr>aa_handler = a, aa_queue = q,
          aa_rateLimiter = NewRateLimiter rateLimit v stats_rs, aa_dedup = new_dedup dedupTtl v\<rparr>))
        (NewAPNSMessageHandler (lib_ToDuration L) (lib_AuthKeyFromFile L) v [] authKeyPath keyID teamID topic k production hasWG
          stats_rs feedback_rs queueOrNil))"

text \<open>What both pushers start with: reporters and consumer.  A channel of negative size is a panic.\<close>

definition pusher_parts :: "libraries \<Rightarrow> viper \<Rightarrow> (string \<times> string + reporter list \<times> reporter list \<times> consumer_config) option" where
  "pusher_parts L v =
     (case configureStatsReporters (NewStatsD (lib_NewBuffered L) v) v of
        None \<Rightarrow> None
      | Some (Inl err) \<Rightarrow> Some (Inl (''could not configure stats reporters: '', err))
      | Some (Inr stats_rs) \<Rightarrow>
       (case configureFeedbackReporters (Some (NewKafkaProducer (lib_NewProducer L) v)) v of
          None \<Rightarrow> None
        | Some (Inl err) \<Rightarrow> Some (Inl (''could not configure feedback reporters: '', err))
        | Some (Inr feedback_rs) \<Rightarrow>
         (case NewKafkaConsumer (lib_NewConsumer L) v of
            None \<Rightarrow> None
          | Some (Inl err) \<Rightarrow> Some (Inl (''could not create kafka consumer: '', err))
          | Some (Inr q) \<Rightarrow> Some (Inr (stats_rs, feedback_rs, q)))))"

text \<open>The APNS pusher returns the errors of its parts as they are, the GCM pusher says which part failed.\<close>

definition NewAPNSPusher ::
    "libraries \<Rightarrow> bool \<Rightarrow> pusher_config \<Rightarrow> viper \<Rightarrow> push_queue option \<Rightarrow> (stat_event list \<times> (string + apns_app pusher)) option" where
  "NewAPNSPusher L production cfg v queueOrNil =
     (case pusher_parts L v of
        None \<Rightarrow> None
      | Some (Inl (part, err)) \<Rightarrow> Some ([], Inl err)
      | Some (Inr (stats_rs, feedback_rs, q)) \<Rightarrow>
         (let apps = GetApnsAppsArray (cfg_Apns_Apps cfg);
              q = q\<lparr>c_Topics := apns_topics apps (c_Topics q)\<rparr> in
          map_option (map_prod id (map_sum id (\<lambda>handlers.
              \<lparr>ps_Queue = q, ps_MessageHandler = handlers, ps_feedbackReporters = feedback_rs, ps_StatsReporters = stats_rs,
               ps_GracefulShutdownTimeout = GetInt v pusher_defaults ''gracefulShutdownTimeout''\<rparr>)))
            (configure_apns_handlers (new_apns_app L production v (c_HandleAllMessagesBeforeExiting q) stats_rs feedback_rs queueOrNil)
               stats_rs apps [])))"

record fcm_app =
  fa_handler :: messageHandler
  fa_concurrentWorkers :: nat
  fa_rateLimiter :: "redis_options \<times> rateLimiter"
  fa_dedup :: "redis_options \<times> dedup"

text \<open>The Firebase client: an error or none; \<open>None\<close> is the panic on a project that is no string.\<close>

definition NewFirebaseClient :: "float_ops \<Rightarrow> libraries \<Rightarrow> string \<Rightarrow> string option option" where
  "NewFirebaseClient F L jsonCredentials =
     (case getProjectIDFromJson F jsonCredentials of
        Project_panic \<Rightarrow> None
      | Project_error \<Rightarrow> Some (Some (lib_project_error L jsonCredentials))
      | Project projectID \<Rightarrow> Some (lib_NewApp L projectID jsonCredentials))"

definition NewMessageHandler ::
    "string \<Rightarrow> reporter list \<Rightarrow> reporter list \<Rightarrow> redis_options \<times> rateLimiter \<Rightarrow> redis_options \<times> dedup \<Rightarrow> bool \<Rightarrow> int64
      \<Rightarrow> fcm_app option" where
  "NewMessageHandler app feedback_rs stats_rs limiter dd hasWG worker_count =
     map_option (\<lambda>n.
         \<lparr>fa_handler = \<lparr>f_app = app, f_feedbackReporters = feedback_rs, f_statsReporters = stats_rs, f_hasWG = hasWG\<rparr>,
          fa_concurrentWorkers = n, fa_rateLimiter = limiter, fa_dedup = dd\<rparr>)
       (make_size worker_count)"

definition new_fcm_app ::
    "float_ops \<Rightarrow> libraries \<Rightarrow> viper \<Rightarrow> int64 \<Rightarrow> bool \<Rightarrow> reporter list \<Rightarrow> reporter list \<Rightarrow> string \<Rightarrow> string \<Rightarrow> (string + fcm_app) option" where
  "new_fcm_app F L v worker_count hasWG stats_rs feedback_rs app credentials =
     (let rateLimit = GetInt v [] ''gcm.rateLimit.rpm'';
          dedupTtl = GetDuration (lib_ToDuration L) v [] ''gcm.dedup.ttl'' in
      case NewFirebaseClient F L credentials of
        None \<Rightarrow> None
      | Some (Some err) \<Rightarrow> Some (Inl err)
      | Some None \<Rightarrow> map_option Inr
          (NewMessageHandler app feedback_rs stats_rs (NewRateLimiter rateLimit v stats_rs) (new_dedup dedupTtl v) hasWG worker_count))"

definition NewGCMPusher :: "float_ops \<Rightarrow> libraries \<Rightarrow> pusher_config \<Rightarrow> viper \<Rightarrow> (string + fcm_app pusher) option" where
  "NewGCMPusher F L cfg v =
     (case pusher_parts L v of
        None \<Rightarrow> None
      | Some (Inl (part, err)) \<Rightarrow> Some (Inl (part @ err))
      | Some (Inr (stats_rs, feedback_rs, q)) \<Rightarrow>
         (let apps = GetGcmAppsArray (cfg_GCM_Apps cfg);
              q = q\<lparr>c_Topics := gcm_topics apps (c_Topics q)\<rparr> in
          map_option (map_sum (\<lambda>err. ''could not create message handlers: '' @ err) (\<lambda>handlers.
              \<lparr>ps_Queue = q, ps_MessageHandler = handlers, ps_feedbackReporters = feedback_rs, ps_StatsReporters = stats_rs,
               ps_GracefulShutdownTimeout = GetInt v pusher_defaults ''gracefulShutdownTimeout''\<rparr>))
            (createMessageHandlerForApps (\<lambda>app. GetString v [] (''gcm.firebaseCredentials.'' @ app))
               (new_fcm_app F L v (cfg_GCM_ConcurrentWorkers cfg) (c_HandleAllMessagesBeforeExiting q) stats_rs feedback_rs) apps [])))"

section \<open>A started pusher serves its topics\<close>

lemma map_sum_Inr [simp]: "map_sum f g z = Inr x \<longleftrightarrow> (\<exists>y. z = Inr y \<and> g y = x)"
  by (cases z) auto

text \<open>The client an app's own credentials make, if its key can be read.\<close>

definition own_client :: "libraries \<Rightarrow> bool \<Rightarrow> viper \<Rightarrow> string \<Rightarrow> apns2_Client option" where
  "own_client L production v k =
     (case lib_AuthKeyFromFile L (GetString v [] (''apns.certs.'' @ k @ ''.authKeyPath'')) of
        Inl err \<Rightarrow> None
      | Inr key \<Rightarrow> Some \<lparr>ac_Token = \<lparr>tk_AuthKey = key, tk_KeyID = GetString v [] (''apns.certs.'' @ k @ ''.keyID''),
            tk_TeamID = GetString v [] (''apns.certs.'' @ k @ ''.teamID'')\<rparr>,
          ac_Host = (if production then Production else Development)\<rparr>)"

lemma new_apns_app_clients:
  assumes "new_apns_app L production v hasWG stats_rs feedback_rs None k = Some (Inr x)" "cl \<in> set (pq_clients (aa_queue x))"
  shows "own_client L production v k = Some cl"
  using assms
  by (auto simp: new_apns_app_def NewAPNSMessageHandler_def configure_push_queue_def configureCertificate_def own_client_def Let_def
      split: option.splits sum.splits)

lemma new_apns_app_fields:
  assumes "new_apns_app L production v hasWG stats_rs feedback_rs queue k = Some (Inr x)"
  shows "h_appName (aa_handler x) = k \<and> h_hasWG (aa_handler x) = hasWG
    \<and> h_StatsReporters (aa_handler x) = stats_rs \<and> h_feedbackReporters (aa_handler x) = feedback_rs
    \<and> h_ApnsTopic (aa_handler x) = GetString v [] (''apns.certs.'' @ k @ ''.topic'')"
  using assms
  by (auto simp: new_apns_app_def NewAPNSMessageHandler_def Let_def split: option.splits)

lemma new_fcm_app_fields:
  assumes "new_fcm_app F L v n hasWG stats_rs feedback_rs k credentials = Some (Inr x)"
  shows "f_app (fa_handler x) = k \<and> f_hasWG (fa_handler x) = hasWG
    \<and> f_statsReporters (fa_handler x) = stats_rs \<and> f_feedbackReporters (fa_handler x) = feedback_rs
    \<and> 0 \<le> n \<and> fa_concurrentWorkers x = nat (int_of n)"
  using assms
  by (auto simp: new_fcm_app_def NewMessageHandler_def make_size_def Let_def not_less split: option.splits if_splits)

lemma NewAPNSPusher_started:
  assumes "NewAPNSPusher L production cfg v queue = Some (ev, Inr p)"
  obtains q where "ps_Queue p = q\<lparr>c_Topics := apns_topics (GetApnsAppsArray (cfg_Apns_Apps cfg)) (c_Topics q)\<rparr>"
    "q = configure_consumer v"
    "configure_apns_handlers (new_apns_app L production v (c_HandleAllMessagesBeforeExiting q) (ps_StatsReporters p) (ps_feedbackReporters p) queue)
       (ps_StatsReporters p) (GetApnsAppsArray (cfg_Apns_Apps cfg)) [] = Some (ev, Inr (ps_MessageHandler p))"
  using assms
  by (auto simp: NewAPNSPusher_def pusher_parts_def NewKafkaConsumer_def configureConsumer_def Let_def
      split: option.splits sum.splits prod.splits)

lemma NewGCMPusher_started:
  assumes "NewGCMPusher F L cfg v = Some (Inr p)"
  obtains q where "ps_Queue p = q\<lparr>c_Topics := gcm_topics (GetGcmAppsArray (cfg_GCM_Apps cfg)) (c_Topics q)\<rparr>"
    "q = configure_consumer v"
    "createMessageHandlerForApps (\<lambda>app. GetString v [] (''gcm.firebaseCredentials.'' @ app))
       (new_fcm_app F L v (cfg_GCM_ConcurrentWorkers cfg) (c_HandleAllMessagesBeforeExiting q) (ps_StatsReporters p) (ps_feedbackReporters p))
       (GetGcmAppsArray (cfg_GCM_Apps cfg)) [] = Some (Inr (ps_MessageHandler p))"
  using assms
  by (auto simp: NewGCMPusher_def pusher_parts_def NewKafkaConsumer_def configureConsumer_def Let_def
      split: option.splits sum.splits prod.splits)

lemma apns_pusher_made:
  assumes "NewAPNSPusher L production cfg v queue = Some (ev, Inr p)" "\<forall>a \<in> set (GetApnsAppsArray (cfg_Apns_Apps cfg)). game_ok a"
  shows "ev = []
    \<and> (\<forall>g. case map_of (ps_MessageHandler p) g of
         None \<Rightarrow> g \<notin> set (GetApnsAppsArray (cfg_Apns_Apps cfg))
       | Some x \<Rightarrow> g \<in> set (GetApnsAppsArray (cfg_Apns_Apps cfg)) \<and> h_appName (aa_handler x) = g
           \<and> h_ApnsTopic (aa_handler x) = GetString v [] (''apns.certs.'' @ g @ ''.topic'')
           \<and> h_StatsReporters (aa_handler x) = ps_StatsReporters p \<and> h_feedbackReporters (aa_handler x) = ps_feedbackReporters p
           \<and> h_hasWG (aa_handler x) = c_HandleAllMessagesBeforeExiting (ps_Queue p)
           \<and> (queue = None \<longrightarrow> (\<forall>cl \<in> set (pq_clients (aa_queue x)). own_client L production v g = Some cl)))
    \<and> (\<forall>t \<in> set (c_Topics (ps_Queue p)). t \<in> set (c_Topics (configure_consumer v))
        \<or> (\<exists>m. push_receiveMessage \<lparr>fm_Topic = t, fm_Value = b\<rparr> = Some m
            \<and> map_of (ps_MessageHandler p) (km_Game m) \<noteq> None \<and> km_Platform m = ''apns''))"
proof -
  let ?apps = "GetApnsAppsArray (cfg_Apns_Apps cfg)"
  from NewAPNSPusher_started [OF assms(1)] obtain q where q: "ps_Queue p = q\<lparr>c_Topics := apns_topics ?apps (c_Topics q)\<rparr>"
    "q = configure_consumer v" and handlers: "configure_apns_handlers (new_apns_app L production v (c_HandleAllMessagesBeforeExiting q)
       (ps_StatsReporters p) (ps_feedbackReporters p) queue) (ps_StatsReporters p) ?apps [] = Some (ev, Inr (ps_MessageHandler p))"
    (is "configure_apns_handlers ?new _ _ _ = _") by blast
  have "?apps \<noteq> []" by (simp add: GetApnsAppsArray_def trim_all_map split_comma_not_Nil)
  from configure_apns_handlers_cases [OF handlers] have all: "ev = []" "\<forall>k \<in> set ?apps. \<exists>h. ?new k = Some (Inr h)" by blast+
  from configure_apns_handlers_ok [OF all(2), of "[]" "ps_StatsReporters p"] handlers \<open>?apps \<noteq> []\<close>
  have m: "map_of (ps_MessageHandler p) k = (if k \<in> set ?apps then Some (projr (the (?new k))) else None)" for k
    by auto
  have each: "case map_of (ps_MessageHandler p) g of
         None \<Rightarrow> g \<notin> set ?apps
       | Some x \<Rightarrow> g \<in> set ?apps \<and> h_appName (aa_handler x) = g
           \<and> h_ApnsTopic (aa_handler x) = GetString v [] (''apns.certs.'' @ g @ ''.topic'')
           \<and> h_StatsReporters (aa_handler x) = ps_StatsReporters p \<and> h_feedbackReporters (aa_handler x) = ps_feedbackReporters p
           \<and> h_hasWG (aa_handler x) = c_HandleAllMessagesBeforeExiting (ps_Queue p)
           \<and> (queue = None \<longrightarrow> (\<forall>cl \<in> set (pq_clients (aa_queue x)). own_client L production v g = Some cl))" for g
  proof (cases "g \<in> set ?apps")
    case True
    then obtain x where "?new g = Some (Inr x)" using all(2) by blast
    moreover from this have "queue = None \<longrightarrow> (\<forall>cl \<in> set (pq_clients (aa_queue x)). own_client L production v g = Some cl)"
      using new_apns_app_clients by blast
    ultimately show ?thesis using True m [of g] new_apns_app_fields [of L production v _ _ _ queue g x] q(1) by fastforce
  qed (simp add: m)
  have "t \<in> set (c_Topics (configure_consumer v)) \<or> (\<exists>m. push_receiveMessage \<lparr>fm_Topic = t, fm_Value = b\<rparr> = Some m
            \<and> map_of (ps_MessageHandler p) (km_Game m) \<noteq> None \<and> km_Platform m = ''apns'')"
    if "t \<in> set (c_Topics (ps_Queue p))" for t
  proof -
    have "t \<in> set (apns_topics ?apps (c_Topics (configure_consumer v)))" using that q by simp
    from apns_topics_read [OF assms(2) this, of b] show ?thesis by (auto simp: m)
  qed
  with all(1) each show ?thesis by blast
qed

text \<open>
  \<^bold>\<open>C39\<close>  A started APNS pusher: it has a handler for exactly the apps of its configuration, each with
  its own name, topic and the reporters and wait group of the pusher, and with clients that have its own key,
  identifiers and host; and every topic it subscribes to is one
  of the configured ones, or its messages are read as a game it has a handler for, if the apps have proper
  names.
\<close>

theorem apns_pusher_started:
  assumes "NewAPNSPusher L production cfg v queue = Some (ev, Inr p)" "\<forall>a \<in> set (GetApnsAppsArray (cfg_Apns_Apps cfg)). game_ok a"
  shows "ev = []
    \<and> (\<forall>g. case map_of (ps_MessageHandler p) g of
         None \<Rightarrow> g \<notin> set (GetApnsAppsArray (cfg_Apns_Apps cfg))
       | Some x \<Rightarrow> g \<in> set (GetApnsAppsArray (cfg_Apns_Apps cfg)) \<and> h_appName (aa_handler x) = g
           \<and> h_ApnsTopic (aa_handler x) = GetString v [] (''apns.certs.'' @ g @ ''.topic'')
           \<and> h_StatsReporters (aa_handler x) = ps_StatsReporters p \<and> h_feedbackReporters (aa_handler x) = ps_feedbackReporters p
           \<and> h_hasWG (aa_handler x) = c_HandleAllMessagesBeforeExiting (ps_Queue p)
           \<and> (queue = None \<longrightarrow> (\<forall>cl \<in> set (pq_clients (aa_queue x)). own_client L production v g = Some cl)))
    \<and> (\<forall>t \<in> set (c_Topics (ps_Queue p)). t \<in> set (c_Topics (configure_consumer v))
        \<or> (\<exists>m. push_receiveMessage \<lparr>fm_Topic = t, fm_Value = b\<rparr> = Some m
            \<and> map_of (ps_MessageHandler p) (km_Game m) \<noteq> None \<and> km_Platform m = ''apns''))"
  by (rule apns_pusher_made [OF assms])

lemma gcm_pusher_made:
  assumes "NewGCMPusher F L cfg v = Some (Inr p)" "\<forall>a \<in> set (GetGcmAppsArray (cfg_GCM_Apps cfg)). game_ok a"
  shows "(\<forall>g. case map_of (ps_MessageHandler p) g of
         None \<Rightarrow> g \<notin> set (GetGcmAppsArray (cfg_GCM_Apps cfg))
       | Some x \<Rightarrow> g \<in> set (GetGcmAppsArray (cfg_GCM_Apps cfg)) \<and> f_app (fa_handler x) = g
           \<and> f_statsReporters (fa_handler x) = ps_StatsReporters p \<and> f_feedbackReporters (fa_handler x) = ps_feedbackReporters p
           \<and> f_hasWG (fa_handler x) = c_HandleAllMessagesBeforeExiting (ps_Queue p)
           \<and> int (fa_concurrentWorkers x) = int_of (cfg_GCM_ConcurrentWorkers cfg))
    \<and> (\<forall>t \<in> set (c_Topics (ps_Queue p)). t \<in> set (c_Topics (configure_consumer v))
        \<or> (\<exists>m. push_receiveMessage \<lparr>fm_Topic = t, fm_Value = b\<rparr> = Some m
            \<and> map_of (ps_MessageHandler p) (km_Game m) \<noteq> None \<and> km_Platform m \<in> {''gcm'', ''ios''}))"
proof -
  let ?apps = "GetGcmAppsArray (cfg_GCM_Apps cfg)"
  from NewGCMPusher_started [OF assms(1)] obtain q where q: "ps_Queue p = q\<lparr>c_Topics := gcm_topics ?apps (c_Topics q)\<rparr>"
    "q = configure_consumer v" and handlers: "createMessageHandlerForApps (\<lambda>app. GetString v [] (''gcm.firebaseCredentials.'' @ app))
       (new_fcm_app F L v (cfg_GCM_ConcurrentWorkers cfg) (c_HandleAllMessagesBeforeExiting q) (ps_StatsReporters p) (ps_feedbackReporters p))
       ?apps [] = Some (Inr (ps_MessageHandler p))"
    (is "createMessageHandlerForApps ?credentials ?new _ _ = _") by blast
  note all = createMessageHandlerForApps_ok [OF handlers]
  have m: "map_of (ps_MessageHandler p) k = (if k \<in> set ?apps then Some (projr (the (?new k (?credentials k)))) else None)" for k
    using all by simp
  have each: "case map_of (ps_MessageHandler p) g of
         None \<Rightarrow> g \<notin> set ?apps
       | Some x \<Rightarrow> g \<in> set ?apps \<and> f_app (fa_handler x) = g
           \<and> f_statsReporters (fa_handler x) = ps_StatsReporters p \<and> f_feedbackReporters (fa_handler x) = ps_feedbackReporters p
           \<and> f_hasWG (fa_handler x) = c_HandleAllMessagesBeforeExiting (ps_Queue p)
           \<and> int (fa_concurrentWorkers x) = int_of (cfg_GCM_ConcurrentWorkers cfg)" for g
  proof (cases "g \<in> set ?apps")
    case True
    then obtain x where x: "?new g (?credentials g) = Some (Inr x)" using all by blast
    from new_fcm_app_fields [OF this] show ?thesis
      using True m [of g] x q(1) by (simp add: less_eq_int64_def)
  qed (simp add: m)
  have "t \<in> set (c_Topics (configure_consumer v)) \<or> (\<exists>m. push_receiveMessage \<lparr>fm_Topic = t, fm_Value = b\<rparr> = Some m
            \<and> map_of (ps_MessageHandler p) (km_Game m) \<noteq> None \<and> km_Platform m \<in> {''gcm'', ''ios''})"
    if "t \<in> set (c_Topics (ps_Queue p))" for t
  proof -
    have "t \<in> set (gcm_topics ?apps (c_Topics (configure_consumer v)))" using that q by simp
    from gcm_topics_read [OF assms(2) this, of b] show ?thesis by (auto simp: m)
  qed
  with each show ?thesis by blast
qed

text \<open>
  \<^bold>\<open>C40\<close>  A started GCM pusher: the same, for its two platforms, with the number of workers of the
  configuration, which is not negative.
\<close>

theorem gcm_pusher_started:
  assumes "NewGCMPusher F L cfg v = Some (Inr p)" "\<forall>a \<in> set (GetGcmAppsArray (cfg_GCM_Apps cfg)). game_ok a"
  shows "(\<forall>g. case map_of (ps_MessageHandler p) g of
         None \<Rightarrow> g \<notin> set (GetGcmAppsArray (cfg_GCM_Apps cfg))
       | Some x \<Rightarrow> g \<in> set (GetGcmAppsArray (cfg_GCM_Apps cfg)) \<and> f_app (fa_handler x) = g
           \<and> f_statsReporters (fa_handler x) = ps_StatsReporters p \<and> f_feedbackReporters (fa_handler x) = ps_feedbackReporters p
           \<and> f_hasWG (fa_handler x) = c_HandleAllMessagesBeforeExiting (ps_Queue p)
           \<and> int (fa_concurrentWorkers x) = int_of (cfg_GCM_ConcurrentWorkers cfg))
    \<and> (\<forall>t \<in> set (c_Topics (ps_Queue p)). t \<in> set (c_Topics (configure_consumer v))
        \<or> (\<exists>m. push_receiveMessage \<lparr>fm_Topic = t, fm_Value = b\<rparr> = Some m
            \<and> map_of (ps_MessageHandler p) (km_Game m) \<noteq> None \<and> km_Platform m \<in> {''gcm'', ''ios''}))"
  by (rule gcm_pusher_made [OF assms])

section \<open>A configuration that starts\<close>

definition sample_libraries :: libraries where
  "sample_libraries = \<lparr>lib_NewBuffered = (\<lambda>host n. (Some 0, None)), lib_NewProducer = (\<lambda>c. Inr 0), lib_NewConsumer = (\<lambda>c. None),
     lib_AuthKeyFromFile = (\<lambda>path. Inr ''key''), lib_ToDuration = (\<lambda>s. i64 1000000000), lib_NewApp = (\<lambda>project creds. None),
     lib_project_error = (\<lambda>creds. ''project_id not found in credentials'')\<rparr>"

definition sample_pusher_config :: pusher_config where
  "sample_pusher_config = \<lparr>cfg_GCM_Apps = ''other'', cfg_GCM_ConcurrentWorkers = i64 3, cfg_Apns_Apps = ''game''\<rparr>"

definition sample_viper :: viper where
  "sample_viper = map_of [(''queue.topics'', CList []), (''gcm.firebaseCredentials.other'', CStr ''{\"project_id\":\"p\"}''), (''apns.certs.game.topic'', CStr ''com.game'')]"

definition sample_apns_pusher :: "apns_app pusher" where
  "sample_apns_pusher = projr (snd (the (NewAPNSPusher sample_libraries False sample_pusher_config sample_viper None)))"

definition sample_gcm_pusher :: "fcm_app pusher" where
  "sample_gcm_pusher = projr (the (NewGCMPusher sample_floats sample_libraries sample_pusher_config sample_viper))"

lemma sample_apns_started:
  "NewAPNSPusher sample_libraries False sample_pusher_config sample_viper None = Some ([], Inr sample_apns_pusher)"
  "\<forall>a \<in> set (GetApnsAppsArray (cfg_Apns_Apps sample_pusher_config)). game_ok a"
  "''push-game_apns-single'' \<in> set (c_Topics (ps_Queue sample_apns_pusher))"
  "c_HandleAllMessagesBeforeExiting (ps_Queue sample_apns_pusher)"
  by code_simp+

lemma sample_gcm_started:
  "NewGCMPusher sample_floats sample_libraries sample_pusher_config sample_viper = Some (Inr sample_gcm_pusher)"
  "\<forall>a \<in> set (GetGcmAppsArray (cfg_GCM_Apps sample_pusher_config)). game_ok a"
  "''push-other_ios-massive'' \<in> set (c_Topics (ps_Queue sample_gcm_pusher))"
  "c_HandleAllMessagesBeforeExiting (ps_Queue sample_gcm_pusher)"
  "0 < int_of (c_ChannelSize (ps_Queue sample_gcm_pusher))"
  by code_simp+

lemma no_own_topics: "c_Topics (configure_consumer sample_viper) = []"
  by code_simp

theorem apns_pusher_started_witness:
  "\<exists>m. push_receiveMessage \<lparr>fm_Topic = ''push-game_apns-single'', fm_Value = ''v''\<rparr> = Some m
    \<and> map_of (ps_MessageHandler sample_apns_pusher) (km_Game m) \<noteq> None"
proof -
  from apns_pusher_started [OF sample_apns_started(1,2), of "''v''"] sample_apns_started(3) no_own_topics show ?thesis by fastforce
qed

theorem gcm_pusher_started_witness:
  "\<exists>m. push_receiveMessage \<lparr>fm_Topic = ''push-other_ios-massive'', fm_Value = ''v''\<rparr> = Some m
    \<and> map_of (ps_MessageHandler sample_gcm_pusher) (km_Game m) \<noteq> None"
proof -
  from gcm_pusher_started [OF sample_gcm_started(1,2), of "''v''"] sample_gcm_started(3) no_own_topics show ?thesis by fastforce
qed

section \<open>The commands\<close>

text \<open>The log level the commands start with.\<close>

definition start_log_level :: "bool \<Rightarrow> viper \<Rightarrow> level" where
  "start_log_level debug v = (if debug then DebugLevel else ParseLogLevel (GetString v [] ''log.level''))"

end
