(* ===== verification/Pusher_Run.thy ===== *)
theory Pusher_Run
  imports Pusher
begin

text \<open>
  A pusher at work, with all its apps, and its shutdown: \<open>Start\<close> and \<open>routeMessages\<close> of
  \<^verbatim>\<open>pusher/pusher.go\<close>, \<open>GracefulShutdown\<close> of \<^verbatim>\<open>pusher/common.go\<close> and the loop of the consumer
  (\<^verbatim>\<open>extensions/kafka_consumer.go\<close>) as steps of one state machine.  The apps share the consumer, its
  channel, the one goroutine that routes, the wait group and the servers behind the handlers.  What an
  app does behind the router is given by its kind: APNS or FCM.
\<close>

section \<open>The kinds of apps\<close>

text \<open>
  The code that differs from kind to kind: how a message is handled, what the app's queue starts as, whether it
  has room for one more, taking one in, and a step of the app's own goroutines with the number of times it
  calls \<open>Done\<close>.
\<close>

record ('p, 'e, 'w, 'n, 'b) app_kind =
  ak_handle :: "'p \<Rightarrow> 'e \<Rightarrow> ('w, 'n) handler"
  ak_start :: "'p \<Rightarrow> 'b"
  ak_room :: "'p \<Rightarrow> 'b \<Rightarrow> bool"
  ak_put :: "'p \<Rightarrow> 'n \<Rightarrow> 'b \<Rightarrow> 'b"
  ak_step :: "'p \<Rightarrow> 'b \<Rightarrow> int \<Rightarrow> 'b \<Rightarrow> bool"

section \<open>The state and its steps\<close>

text \<open>
  How far \<open>Start\<close> has got: in its \<open>select\<close>, told to stop, in \<open>GracefulShutdown\<close> after it has closed the
  stop channel, or returned, with or without a time-out.  In the wait the goroutine of \<open>WaitTimeout\<close> calls \<open>Wait\<close> of the
  wait group: it has not looked at the counter yet (\<open>In_wait\<close>), sleeps because the counter was not zero, has been woken by the
  \<open>Done\<close> that brought it to zero, or has returned (\<open>Zero_seen\<close>).
\<close>

datatype phase = Up | Told | In_wait | Asleep | Woken | Zero_seen | Exited bool

record ('n, 'b, 'w) pusher_state =
  ps_wg :: int
  ps_consumer :: "KafkaMessage consumer_state"
  ps_msgChan :: "KafkaMessage list"
  ps_router :: "(string \<times> 'n) option"
  ps_apps :: "string \<Rightarrow> 'b"
  ps_world :: 'w
  ps_dropped :: nat
  ps_ctx_done :: bool
  ps_phase :: phase
  ps_panicked :: bool

record run_config =
  pc_msgChan_size :: nat
  pc_hasWG :: bool
  pc_subscribed :: "feedback_message \<Rightarrow> bool"

definition pusher_initial :: "('p, 'e, 'w, 'n, 'b) app_kind \<Rightarrow> (string \<times> 'p) list \<Rightarrow> 'w \<Rightarrow> ('n, 'b, 'w) pusher_state" where
  "pusher_initial K apps w =
     \<lparr>ps_wg = 0, ps_consumer = At_select, ps_msgChan = [], ps_router = None,
      ps_apps = (\<lambda>g. ak_start K (the (map_of apps g))), ps_world = w, ps_dropped = 0, ps_ctx_done = False,
      ps_phase = Up, ps_panicked = False\<rparr>"

text \<open>
  The \<open>sync.WaitGroup\<close>.  \<open>Done\<close> (here several at once) panics below zero, and wakes the sleeper when it gets to zero.
\<close>

definition wg_Done :: "int \<Rightarrow> ('n, 'b, 'w) pusher_state \<Rightarrow> ('n, 'b, 'w) pusher_state" where
  "wg_Done k s =
     s\<lparr>ps_wg := ps_wg s - k, ps_panicked := (ps_wg s < k),
       ps_phase := (if ps_phase s = Asleep \<and> 0 < k \<and> ps_wg s = k then Woken else ps_phase s)\<rparr>"

lemma wg_Done_simps [simp]:
  "ps_wg (wg_Done k s) = ps_wg s - k" "ps_panicked (wg_Done k s) \<longleftrightarrow> ps_wg s < k"
  "ps_phase (wg_Done k s) = (if ps_phase s = Asleep \<and> 0 < k \<and> ps_wg s = k then Woken else ps_phase s)"
  "ps_consumer (wg_Done k s) = ps_consumer s" "ps_msgChan (wg_Done k s) = ps_msgChan s" "ps_router (wg_Done k s) = ps_router s"
  "ps_apps (wg_Done k s) = ps_apps s" "ps_world (wg_Done k s) = ps_world s" "ps_dropped (wg_Done k s) = ps_dropped s"
  "ps_ctx_done (wg_Done k s) = ps_ctx_done s"
  by (simp_all add: wg_Done_def)

text \<open>
  \<open>GracefulShutdown\<close> with \<open>WaitTimeout\<close>: where it can get to next, given whether there is a wait group and
  what it counts.  The time may run out at any moment, and when \<open>Wait\<close> has returned, \<open>select\<close> may still take the time-out.
  A sleeper that has been woken and finds the counter above zero again panics (\<open>None\<close>).
\<close>

fun GracefulShutdown :: "bool \<Rightarrow> int \<Rightarrow> phase \<Rightarrow> phase option list" where
  "GracefulShutdown hasWG n In_wait =
     (if hasWG then [Some (Exited True), Some (if n = 0 then Zero_seen else Asleep)] else [Some (Exited False)])"
| "GracefulShutdown hasWG n Asleep = [Some (Exited True)]"
| "GracefulShutdown hasWG n Woken = [Some (Exited True), if n = 0 then Some Zero_seen else None]"
| "GracefulShutdown hasWG n Zero_seen = [Some (Exited False), Some (Exited True)]"
| "GracefulShutdown hasWG n _ = []"

lemma GracefulShutdown_iff [simp]:
  "Some ph \<in> set (GracefulShutdown hasWG n p) \<longleftrightarrow>
     (p = In_wait \<and> (if hasWG then ph = Exited True \<or> ph = (if n = 0 then Zero_seen else Asleep) else ph = Exited False))
     \<or> (p = Asleep \<and> ph = Exited True)
     \<or> (p = Woken \<and> (ph = Exited True \<or> (n = 0 \<and> ph = Zero_seen)))
     \<or> (p = Zero_seen \<and> (\<exists>late. ph = Exited late))"
  "None \<in> set (GracefulShutdown hasWG n p) \<longleftrightarrow> p = Woken \<and> n \<noteq> 0"
  by (cases p; auto)+

definition stop_requested :: "('n, 'b, 'w) pusher_state \<Rightarrow> bool" where
  "stop_requested s \<longleftrightarrow> ps_ctx_done s \<or> ps_phase s \<notin> {Up, Told}"

definition alive :: "('n, 'b, 'w) pusher_state \<Rightarrow> bool" where
  "alive s \<longleftrightarrow> \<not> ps_panicked s \<and> (\<forall>late. ps_phase s \<noteq> Exited late)"

text \<open>
  The process ends when \<open>Start\<close> returns or anything panics.  Between the two writes of the \<open>Done\<close> that wakes a sleeper, an
  \<open>Add\<close> from zero panics itself (\<open>add_panics\<close>); after them it is the sleeper that panics, unless the counter is back
  at zero by then (\<open>wait_panics\<close>).
\<close>

inductive pusher_step ::
    "('p, 'e, 'w, 'n, 'b) app_kind \<Rightarrow> (string \<times> 'p) list \<Rightarrow> run_config
      \<Rightarrow> ('n, 'b, 'w) pusher_state \<Rightarrow> ('n, 'b, 'w) pusher_state \<Rightarrow> bool" for K apps c where
  reads: "alive s \<Longrightarrow> ps_consumer s = At_select \<Longrightarrow> \<not> stop_requested s
    \<Longrightarrow> pusher_step K apps c s (s\<lparr>ps_consumer := Reading\<rparr>)"
| returns: "alive s \<Longrightarrow> ps_consumer s = At_select \<Longrightarrow> stop_requested s
    \<Longrightarrow> pusher_step K apps c s (s\<lparr>ps_consumer := Consumer_returned\<rparr>)"
| read_nothing: "alive s \<Longrightarrow> ps_consumer s = Reading
    \<Longrightarrow> pusher_step K apps c s (s\<lparr>ps_consumer := At_select\<rparr>)"
| read_message: "alive s \<Longrightarrow> ps_consumer s = Reading \<Longrightarrow> pc_subscribed c fm \<Longrightarrow> push_receiveMessage fm = Some m
    \<Longrightarrow> pusher_step K apps c s (s\<lparr>ps_consumer := Received m, ps_wg := ps_wg s + of_bool (pc_hasWG c)\<rparr>)"
| add_panics: "alive s \<Longrightarrow> ps_consumer s = Reading \<Longrightarrow> pc_subscribed c fm \<Longrightarrow> pc_hasWG c \<Longrightarrow> ps_phase s = Woken \<Longrightarrow> ps_wg s = 0
    \<Longrightarrow> pusher_step K apps c s (s\<lparr>ps_panicked := True, ps_wg := 1\<rparr>)"
| read_unreadable: "alive s \<Longrightarrow> ps_consumer s = Reading \<Longrightarrow> pc_subscribed c fm \<Longrightarrow> push_receiveMessage fm = None
    \<Longrightarrow> pusher_step K apps c s (s\<lparr>ps_panicked := True, ps_wg := ps_wg s + of_bool (pc_hasWG c)\<rparr>)"
| sends: "alive s \<Longrightarrow> ps_consumer s = Received m \<Longrightarrow> length (ps_msgChan s) < pc_msgChan_size c
    \<Longrightarrow> pusher_step K apps c s (s\<lparr>ps_consumer := At_select, ps_msgChan := ps_msgChan s @ [m]\<rparr>)"
| route_drops: "alive s \<Longrightarrow> ps_router s = None \<Longrightarrow> ps_msgChan s = m # ms \<Longrightarrow> map_of apps (km_Game m) = None
    \<Longrightarrow> pusher_step K apps c s (s\<lparr>ps_msgChan := ms, ps_dropped := Suc (ps_dropped s)\<rparr>)"
| route_handles: "alive s \<Longrightarrow> ps_router s = None \<Longrightarrow> ps_msgChan s = m # ms \<Longrightarrow> map_of apps (km_Game m) = Some p
    \<Longrightarrow> ak_handle K p e m (ps_world s) = (es, w)
    \<Longrightarrow> pusher_step K apps c s (wg_Done (int (dones es)) (s\<lparr>ps_msgChan := ms,
          ps_router := map_option (Pair (km_Game m)) (first_started es), ps_world := w\<rparr>))"
| hands_over: "alive s \<Longrightarrow> ps_router s = Some (g, n) \<Longrightarrow> map_of apps g = Some p \<Longrightarrow> ak_room K p (ps_apps s g)
    \<Longrightarrow> pusher_step K apps c s (s\<lparr>ps_router := None, ps_apps := (ps_apps s)(g := ak_put K p n (ps_apps s g))\<rparr>)"
| app_step: "alive s \<Longrightarrow> map_of apps g = Some p \<Longrightarrow> ak_step K p (ps_apps s g) k b
    \<Longrightarrow> pusher_step K apps c s (wg_Done k (s\<lparr>ps_apps := (ps_apps s)(g := b)\<rparr>))"
| cancelled: "alive s \<Longrightarrow> \<not> ps_ctx_done s \<Longrightarrow> pusher_step K apps c s (s\<lparr>ps_ctx_done := True\<rparr>)"
| told: "alive s \<Longrightarrow> ps_phase s = Up \<Longrightarrow> pusher_step K apps c s (s\<lparr>ps_phase := Told\<rparr>)"
| StopConsuming: "alive s \<Longrightarrow> ps_phase s = Told \<Longrightarrow> pusher_step K apps c s (s\<lparr>ps_phase := In_wait\<rparr>)"
| GracefulShutdown: "alive s \<Longrightarrow> Some ph \<in> set (GracefulShutdown (pc_hasWG c) (ps_wg s) (ps_phase s))
    \<Longrightarrow> pusher_step K apps c s (s\<lparr>ps_phase := ph\<rparr>)"
| wait_panics: "alive s \<Longrightarrow> None \<in> set (GracefulShutdown (pc_hasWG c) (ps_wg s) (ps_phase s))
    \<Longrightarrow> pusher_step K apps c s (s\<lparr>ps_panicked := True\<rparr>)"

lemma no_wait: "alive s \<Longrightarrow> ps_phase s = In_wait \<Longrightarrow> \<not> pc_hasWG c \<Longrightarrow> pusher_step K apps c s (s\<lparr>ps_phase := Exited False\<rparr>)"
  and wait_over: "alive s \<Longrightarrow> ps_phase s \<in> {In_wait, Woken} \<Longrightarrow> pc_hasWG c \<Longrightarrow> ps_wg s = 0
    \<Longrightarrow> pusher_step K apps c s (s\<lparr>ps_phase := Zero_seen\<rparr>)"
  and falls_asleep: "alive s \<Longrightarrow> ps_phase s = In_wait \<Longrightarrow> pc_hasWG c \<Longrightarrow> ps_wg s \<noteq> 0
    \<Longrightarrow> pusher_step K apps c s (s\<lparr>ps_phase := Asleep\<rparr>)"
  and exits: "alive s \<Longrightarrow> ps_phase s = Zero_seen \<Longrightarrow> pusher_step K apps c s (s\<lparr>ps_phase := Exited False\<rparr>)"
  and times_out: "alive s \<Longrightarrow> ps_phase s \<in> {In_wait, Asleep, Woken} \<Longrightarrow> pc_hasWG c
    \<Longrightarrow> pusher_step K apps c s (s\<lparr>ps_phase := Exited True\<rparr>)"
  by (rule GracefulShutdown; force)+

inductive pusher_reach ::
    "('p, 'e, 'w, 'n, 'b) app_kind \<Rightarrow> (string \<times> 'p) list \<Rightarrow> run_config \<Rightarrow> 'w
      \<Rightarrow> ('n, 'b, 'w) pusher_state \<Rightarrow> bool" for K apps c w where
  start: "pusher_reach K apps c w (pusher_initial K apps w)"
| step: "pusher_reach K apps c w s \<Longrightarrow> pusher_step K apps c s t \<Longrightarrow> pusher_reach K apps c w t"

lemma reach_run: "pusher_reach K apps c w s \<Longrightarrow> (pusher_step K apps c)\<^sup>*\<^sup>* s t \<Longrightarrow> pusher_reach K apps c w t"
  by (rotate_tac, induction rule: rtranclp.induct) (auto intro: pusher_reach.step)

section \<open>What is in the pusher\<close>

definition pusher_front :: "('n, 'b, 'w) pusher_state \<Rightarrow> nat" where
  "pusher_front s = consumer_load (ps_consumer s) + length (ps_msgChan s) + (case ps_router s of None \<Rightarrow> 0 | Some _ \<Rightarrow> 1)"

definition over_apps :: "('p \<Rightarrow> 'b \<Rightarrow> nat) \<Rightarrow> (string \<times> 'p) list \<Rightarrow> ('n, 'b, 'w) pusher_state \<Rightarrow> nat" where
  "over_apps f apps s = sum_list (map (\<lambda>gp. f (snd gp) (ps_apps s (fst gp))) apps)"

lemma sum_apps_other:
  "g \<notin> fst ` set apps \<Longrightarrow>
    sum_list (map (\<lambda>gp. f (snd gp) ((h(g := b)) (fst gp))) apps) = (sum_list (map (\<lambda>gp. f (snd gp) (h (fst gp))) apps) :: nat)"
  by (induction apps) auto

lemma sum_apps_update:
  assumes "distinct (map fst apps)" "map_of apps g = Some p"
  shows "sum_list (map (\<lambda>gp. f (snd gp) ((h(g := b)) (fst gp))) apps) + f p (h g)
      = (sum_list (map (\<lambda>gp. f (snd gp) (h (fst gp))) apps) + f p b :: nat)"
  using assms
proof (induction apps)
  case (Cons gp apps)
  show ?case
  proof (cases "fst gp = g")
    case True
    then show ?thesis
      using Cons.prems sum_apps_other [of g apps f h b] by (cases gp) simp
  next
    case False
    then show ?thesis using Cons by (cases gp) simp
  qed
qed simp

lemmas over_apps_update = sum_apps_update [of apps g p _ "ps_apps s" for apps g p s, folded over_apps_def]

definition pusher_potential ::
    "('p \<Rightarrow> nat) \<Rightarrow> ('p \<Rightarrow> 'b \<Rightarrow> nat) \<Rightarrow> (string \<times> 'p) list \<Rightarrow> ('n, 'b, 'w) pusher_state \<Rightarrow> nat" where
  "pusher_potential entry pot apps s =
     (let E = sum_list (map (\<lambda>gp. entry (snd gp)) apps) in
      (case ps_consumer s of At_select \<Rightarrow> 1 | Reading \<Rightarrow> E + 5 | Received _ \<Rightarrow> E + 4 | Consumer_returned \<Rightarrow> 0)
      + (E + 2) * length (ps_msgChan s) + (case ps_router s of None \<Rightarrow> 0 | Some _ \<Rightarrow> E + 1) + over_apps pot apps s
      + of_bool (\<not> ps_ctx_done s) + of_bool (\<not> ps_panicked s)
      + (case ps_phase s of Up \<Rightarrow> 6 | Told \<Rightarrow> 5 | In_wait \<Rightarrow> 4 | Asleep \<Rightarrow> 3 | Woken \<Rightarrow> 2 | Zero_seen \<Rightarrow> 1 | Exited _ \<Rightarrow> 0))"

text \<open>
  The invariant.  What the wait group counts is known, the waiter sleeps only while it is above zero; and once it has been
  zero, all that can still be in the process is one message that the consumer was reading when it was told to stop.
\<close>

definition zero_seen :: "('n, 'b, 'w) pusher_state \<Rightarrow> bool" where
  "zero_seen s \<longleftrightarrow> ps_phase s \<in> {Zero_seen, Exited False}"

definition pusher_inv ::
    "('p \<Rightarrow> 'b \<Rightarrow> bool) \<Rightarrow> ('n \<Rightarrow> bool) \<Rightarrow> ('p \<Rightarrow> 'b \<Rightarrow> nat) \<Rightarrow> (string \<times> 'p) list \<Rightarrow> ('n, 'b, 'w) pusher_state \<Rightarrow> bool" where
  "pusher_inv ok fresh held apps s \<longleftrightarrow>
     (\<forall>g p. map_of apps g = Some p \<longrightarrow> ok p (ps_apps s g))
     \<and> (\<forall>g n. ps_router s = Some (g, n) \<longrightarrow> fresh n \<and> map_of apps g \<noteq> None)
     \<and> (\<not> ps_panicked s \<longrightarrow> ps_wg s = int (pusher_front s + over_apps held apps s + ps_dropped s))
     \<and> (\<not> ps_panicked s \<longrightarrow> zero_seen s \<or> ps_phase s = Woken \<longrightarrow> ps_wg s + of_bool (ps_consumer s = Reading) \<le> 1)
     \<and> (\<not> ps_panicked s \<longrightarrow> ps_phase s = Asleep \<longrightarrow> 0 < ps_wg s)"

section \<open>The interface of a kind of apps\<close>

text \<open>
  What the pusher relies on: every message is settled once or handed over; an app keeps what it has taken in, but for
  what its steps settle; and no app works for ever on what it has.
\<close>

locale app_laws =
  fixes K :: "('p, 'e, 'w, 'n, 'b) app_kind"
    and valid :: "'p \<Rightarrow> bool"
    and ok :: "'p \<Rightarrow> 'b \<Rightarrow> bool"
    and fresh :: "'n \<Rightarrow> bool"
    and held :: "'p \<Rightarrow> 'b \<Rightarrow> nat"
    and pot :: "'p \<Rightarrow> 'b \<Rightarrow> nat"
    and entry :: "'p \<Rightarrow> nat"
  assumes handler: "valid p \<Longrightarrow> message_handler (ak_handle K p e)"
    and new: "valid p \<Longrightarrow> n \<in> set (started (fst (ak_handle K p e m w))) \<Longrightarrow> fresh n"
    and at_start: "valid p \<Longrightarrow> ok p (ak_start K p) \<and> held p (ak_start K p) = 0"
    and put: "valid p \<Longrightarrow> ok p b \<Longrightarrow> fresh n \<Longrightarrow> ak_room K p b
      \<Longrightarrow> ok p (ak_put K p n b) \<and> held p (ak_put K p n b) = Suc (held p b) \<and> pot p (ak_put K p n b) \<le> pot p b + entry p"
    and moves: "valid p \<Longrightarrow> ok p b \<Longrightarrow> ak_step K p b k b'
      \<Longrightarrow> ok p b' \<and> int (held p b') + k = int (held p b) \<and> 0 \<le> k \<and> pot p b' < pot p b"
begin

lemma entry_le: "map_of apps g = Some p \<Longrightarrow> entry p \<le> sum_list (map (\<lambda>gp. entry (snd gp)) apps)"
  by (induction apps) (auto split: if_splits)

lemma inv_start:
  assumes "\<forall>gp \<in> set apps. valid (snd gp)" "distinct (map fst apps)"
  shows "pusher_inv ok fresh held apps (pusher_initial K apps w)"
proof -
  have at: "map_of apps (fst gp) = Some (snd gp)" if "gp \<in> set apps" for gp
    using that assms(2) by (cases gp) auto
  have "ok p (ak_start K (the (map_of apps g)))" if "map_of apps g = Some p" for g p
    using that at_start [of p] assms(1) map_of_SomeD [OF that] by auto
  moreover have "over_apps held apps (pusher_initial K apps w) = 0"
    using at at_start assms(1) by (auto simp: over_apps_def pusher_initial_def sum_list_eq_0_nat)
  ultimately show ?thesis
    by (simp add: pusher_inv_def pusher_initial_def pusher_front_def consumer_load_def zero_seen_def over_apps_def)
qed

lemma held_le:
  assumes "map_of apps g = Some p"
  shows "held p (ps_apps s g) \<le> over_apps held apps s"
  unfolding over_apps_def using map_of_SomeD [OF assms] by (intro member_le_sum_list) force+

lemma not_below_zero: "pusher_inv ok fresh held apps s \<Longrightarrow> \<not> ps_panicked s \<Longrightarrow> 0 \<le> ps_wg s"
  by (simp add: pusher_inv_def)

text \<open>No \<open>Done\<close> is one too many.\<close>

lemma settles_held:
  assumes "valid p" "map_of apps g = Some p" "pusher_inv ok fresh held apps s" "ak_step K p (ps_apps s g) k b"
  shows "0 \<le> k" "k \<le> int (held p (ps_apps s g))"
    "\<not> ps_panicked s \<Longrightarrow> k + int (pusher_front s) \<le> ps_wg s"
proof -
  have "ok p (ps_apps s g)" using assms(2,3) by (simp add: pusher_inv_def)
  from moves [OF assms(1) this assms(4)] show k: "0 \<le> k" "k \<le> int (held p (ps_apps s g))" by linarith+
  show "k + int (pusher_front s) \<le> ps_wg s" if "\<not> ps_panicked s"
    using k(2) held_le [OF assms(2), of s] assms(3) that by (simp add: pusher_inv_def)
qed

lemma handled_one:
  assumes "valid p" "ak_handle K p e m w = (es, w')"
  shows "length (started es) + dones es = 1" "n \<in> set (started es) \<Longrightarrow> fresh n"
  using message_handler.settles [OF handler [OF assms(1)], of e m w] new [OF assms(1), of n e m w] by (simp_all add: assms(2))

lemma inv_step:
  assumes "\<forall>gp \<in> set apps. valid (snd gp)" "distinct (map fst apps)" "pc_hasWG c"
    and "pusher_step K apps c s t" "pusher_inv ok fresh held apps s"
  shows "pusher_inv ok fresh held apps t"
proof -
  have valid: "valid p" if "map_of apps g = Some p" for g p
    using assms(1) map_of_SomeD [OF that] by auto
  note inv = assms(5) [unfolded pusher_inv_def]
  note defs = pusher_inv_def pusher_front_def over_apps_def zero_seen_def alive_def
  from assms(4) show ?thesis
  proof (cases rule: pusher_step.cases)
    case (route_handles m ms p e es w)
    note one = handled_one [OF valid [OF route_handles(5)] route_handles(6)]
    show ?thesis
      using route_handles inv one
      by (cases "started es") (auto simp: defs)
  next
    case (hands_over g n p)
    then show ?thesis
      using inv put [OF valid [OF hands_over(4)], of "ps_apps s g" n]
        over_apps_update [OF assms(2) hands_over(4), of held s "ak_put K p n (ps_apps s g)"]
      by (auto simp: defs)
  next
    case (app_step g p k b)
    note k = settles_held [OF valid [OF app_step(3)] app_step(3) assms(5) app_step(4)]
    have "ok p b" "int (held p b) + k = int (held p (ps_apps s g))"
      using inv moves [OF valid [OF app_step(3)], of "ps_apps s g" k b] app_step by auto
    moreover have "\<not> ps_panicked s" using app_step(2) by (simp add: alive_def)
    ultimately show ?thesis
      using inv app_step k over_apps_update [OF assms(2) app_step(3), of held s b]
      by (auto simp: defs)
  next
    case (GracefulShutdown ph)
    then show ?thesis using inv assms(3) by (auto simp: defs split: if_splits)
  qed ((use inv assms(3) in \<open>(auto simp: defs consumer_load_def stop_requested_def)[1]\<close>)+)
qed

lemma inv_reach:
  assumes "\<forall>gp \<in> set apps. valid (snd gp)" "distinct (map fst apps)" "pc_hasWG c" "pusher_reach K apps c w s"
  shows "pusher_inv ok fresh held apps s"
  using assms(4)
proof (induction rule: pusher_reach.induct)
  case start
  show ?case using assms(1,2) by (rule inv_start)
next
  case (step s t)
  then show ?case using inv_step [OF assms(1-3)] by blast
qed

end

section \<open>The shutdown\<close>

text \<open>Once the consumer has returned before the counter is seen at zero, nothing is left at the exit.\<close>

definition late_zero :: "('n, 'b, 'w) pusher_state \<Rightarrow> bool" where
  "late_zero s \<longleftrightarrow> ps_consumer s = Consumer_returned \<and> (zero_seen s \<longrightarrow> ps_wg s = 0)"

context app_laws begin

lemma late_zero_step:
  assumes "\<forall>gp \<in> set apps. valid (snd gp)" "distinct (map fst apps)" "pc_hasWG c"
    and "pusher_step K apps c s t" "pusher_inv ok fresh held apps s" "late_zero s" "\<not> ps_panicked t"
  shows "late_zero t"
proof -
  note t = inv_step [OF assms(1-5), unfolded pusher_inv_def]
  have "ps_wg t \<le> ps_wg s"
    using assms(4)
  proof (cases rule: pusher_step.cases)
    case (app_step g p k b)
    then have "valid p" using assms(1) map_of_SomeD [OF app_step(3)] by auto
    from settles_held(1) [OF this app_step(3) assms(5) app_step(4)] show ?thesis using app_step by simp
  qed (use assms(6) in \<open>auto simp: late_zero_def\<close>)
  moreover have "ps_consumer t = Consumer_returned"
    using assms(4,6) by (cases rule: pusher_step.cases) (auto simp: late_zero_def)
  moreover have "zero_seen s \<or> ps_wg t = 0" if "zero_seen t"
    using assms(4)
  proof (cases rule: pusher_step.cases)
    case (GracefulShutdown ph)
    then show ?thesis using that assms(3) by (auto simp: zero_seen_def split: if_splits)
  qed (use that in \<open>auto simp: zero_seen_def split: if_splits\<close>)
  ultimately show ?thesis using t assms(6,7) by (auto simp: late_zero_def)
qed

lemma panicked_run: "(pusher_step K apps c)\<^sup>*\<^sup>* s t \<Longrightarrow> \<not> ps_panicked t \<Longrightarrow> \<not> ps_panicked s"
proof (induction rule: converse_rtranclp_induct)
  case (step s u)
  from step(1) have "alive s" by (cases rule: pusher_step.cases)
  then show ?case by (simp add: alive_def)
qed

lemma late_zero_run:
  assumes "\<forall>gp \<in> set apps. valid (snd gp)" "distinct (map fst apps)" "pc_hasWG c"
    and "(pusher_step K apps c)\<^sup>*\<^sup>* s t" "pusher_inv ok fresh held apps s" "late_zero s" "\<not> ps_panicked t"
  shows "late_zero t"
proof -
  have "pusher_inv ok fresh held apps t \<and> late_zero t"
    using assms(4,7)
  proof (induction rule: rtranclp_induct)
    case (step u t)
    from step(2) have "\<not> ps_panicked u" by (cases rule: pusher_step.cases) (simp_all add: alive_def)
    then show ?case
      using step inv_step [OF assms(1-3)] late_zero_step [OF assms(1-3)] by blast
  qed (use assms(5,6) in simp)
  then show ?thesis by simp
qed

lemma inv_run:
  assumes "\<forall>gp \<in> set apps. valid (snd gp)" "distinct (map fst apps)" "pc_hasWG c"
    and "(pusher_step K apps c)\<^sup>*\<^sup>* s t" "pusher_inv ok fresh held apps s"
  shows "pusher_inv ok fresh held apps t"
  using assms(4,5) by (induction rule: rtranclp_induct) (use inv_step [OF assms(1-3)] in blast)+

lemma stop_requested_step:
  assumes "pusher_step K apps c s t" "stop_requested s"
  shows "stop_requested t"
  using assms(1) by (cases rule: pusher_step.cases) (use assms(2) in \<open>auto simp: stop_requested_def split: if_splits\<close>)

lemma wg_Done_potential:
  "pusher_potential entry pot apps (wg_Done k s) \<le> pusher_potential entry pot apps (s\<lparr>ps_panicked := False\<rparr>)"
  by (simp add: pusher_potential_def over_apps_def Let_def)

lemma pusher_potential_decreases:
  assumes "\<forall>gp \<in> set apps. valid (snd gp)" "distinct (map fst apps)"
    and "pusher_step K apps c s t" "pusher_inv ok fresh held apps s" "stop_requested s"
  shows "pusher_potential entry pot apps t < pusher_potential entry pot apps s"
proof -
  have valid: "valid p" if "map_of apps g = Some p" for g p
    using assms(1) map_of_SomeD [OF that] by auto
  note inv = assms(4) [unfolded pusher_inv_def]
  from assms(3) show ?thesis
  proof (cases rule: pusher_step.cases)
    case (hands_over g n p)
    then show ?thesis
      using inv put [OF valid [OF hands_over(4)], of "ps_apps s g" n] entry_le [OF hands_over(4)]
        over_apps_update [OF assms(2) hands_over(4), of pot s "ak_put K p n (ps_apps s g)"]
      by (auto simp: pusher_potential_def over_apps_def Let_def)
  next
    case (app_step g p k b)
    let ?u = "s\<lparr>ps_apps := (ps_apps s)(g := b)\<rparr>"
    have "pusher_potential entry pot apps (?u\<lparr>ps_panicked := False\<rparr>) < pusher_potential entry pot apps s"
      using app_step inv moves [OF valid [OF app_step(3)], of "ps_apps s g" k b]
        over_apps_update [OF assms(2) app_step(3), of pot s b]
      by (auto simp: pusher_potential_def over_apps_def Let_def alive_def)
    with wg_Done_potential [of apps k ?u] show ?thesis unfolding app_step(1) by (rule le_less_trans)
  next
    case (route_handles m ms p e es w)
    let ?u = "s\<lparr>ps_msgChan := ms, ps_router := map_option (Pair (km_Game m)) (first_started es), ps_world := w\<rparr>"
    have "pusher_potential entry pot apps (?u\<lparr>ps_panicked := False\<rparr>) < pusher_potential entry pot apps s"
      using route_handles by (cases "started es") (auto simp: pusher_potential_def over_apps_def Let_def alive_def)
    with wg_Done_potential [of apps "int (dones es)" ?u] show ?thesis unfolding route_handles(1) by (rule le_less_trans)
  next
    case (GracefulShutdown ph)
    then show ?thesis by (auto simp: pusher_potential_def over_apps_def Let_def split: if_splits)
  qed (use assms(5) in \<open>auto simp: pusher_potential_def over_apps_def Let_def alive_def split: if_splits\<close>)
qed

lemma shutdown_bounded:
  assumes "\<forall>gp \<in> set apps. valid (snd gp)" "distinct (map fst apps)" "pc_hasWG c"
    and "pusher_inv ok fresh held apps s" "stop_requested s" "(pusher_step K apps c ^^ k) s t"
  shows "k + pusher_potential entry pot apps t \<le> pusher_potential entry pot apps s
    \<and> pusher_inv ok fresh held apps t \<and> stop_requested t"
  using assms(6)
proof (induction k arbitrary: t)
  case (Suc k)
  then obtain u where "(pusher_step K apps c ^^ k) s u" "pusher_step K apps c u t"
    by (auto elim: relcompp.cases)
  with Suc.IH [of u] have u: "k + pusher_potential entry pot apps u \<le> pusher_potential entry pot apps s"
      "pusher_inv ok fresh held apps u" "stop_requested u" "pusher_step K apps c u t" by blast+
  then show ?case
    using inv_step [OF assms(1-3) u(4,2)] stop_requested_step [OF u(4,3)]
      pusher_potential_decreases [OF assms(1,2) u(4,2,3)] by linarith
qed (use assms(4,5) in simp)

end

lemma alive_steps: "alive s \<Longrightarrow> \<exists>t. pusher_step K apps c s t"
proof (cases "ps_phase s")
  case Up
  assume "alive s"
  with Up show ?thesis using told by blast
next
  case Told
  assume "alive s"
  with Told show ?thesis using StopConsuming by blast
next
  case In_wait
  assume "alive s"
  with In_wait show ?thesis using no_wait [of s c] times_out [of s c] by blast
next
  case Asleep
  assume "alive s"
  with Asleep show ?thesis using GracefulShutdown [of s "Exited True" c] by fastforce
next
  case Woken
  assume "alive s"
  with Woken show ?thesis using GracefulShutdown [of s "Exited True" c] by fastforce
next
  case Zero_seen
  assume "alive s"
  with Zero_seen show ?thesis using exits by blast
qed (auto simp: alive_def)

section \<open>What a shutdown waits for\<close>

text \<open>
  A kind of apps of which it is known where an app that is left alone comes to rest: with nothing but what it has lost for
  good, or stuck.
\<close>

locale resting_app_laws = app_laws +
  fixes sized :: "'a \<Rightarrow> bool"
    and gone :: "'a \<Rightarrow> 'e \<Rightarrow> nat"
    and stuck :: "'a \<Rightarrow> 'e \<Rightarrow> bool"
  assumes rests: "valid p \<Longrightarrow> sized p \<Longrightarrow> ok p b \<Longrightarrow> (\<And>k b'. \<not> ak_step K p b k b')
      \<Longrightarrow> stuck p b \<or> (ak_room K p b \<and> held p b = gone p b)"
    and stays: "valid p \<Longrightarrow> ok p b \<Longrightarrow> stuck p b \<Longrightarrow> \<not> ak_room K p b \<and> \<not> ak_step K p b k b'"
begin

lemma waits_for:
  assumes "\<forall>gp \<in> set apps. valid (snd gp) \<and> sized (snd gp)" "distinct (map fst apps)" "pc_hasWG c" "0 < pc_msgChan_size c"
    and "pusher_inv ok fresh held apps s" "alive s" "ps_phase s \<in> {In_wait, Asleep}"
    and quiet: "\<And>t. pusher_step K apps c s t \<Longrightarrow> ps_phase t = Exited True \<or> ps_ctx_done t \<noteq> ps_ctx_done s"
  shows "0 < ps_wg s \<and> ((\<exists>gp \<in> set apps. stuck (snd gp) (ps_apps s (fst gp)))
      \<or> pusher_front s = 0 \<and> ps_wg s = int (over_apps gone apps s + ps_dropped s))"
proof -
  note inv = assms(5) [unfolded pusher_inv_def]
  have "ps_phase s \<noteq> In_wait"
    using quiet [OF wait_over [OF assms(6) _ assms(3)]] quiet [OF falls_asleep [OF assms(6) _ assms(3)]] by auto
  with assms(7) have asleep: "ps_phase s = Asleep" by simp
  with inv assms(6) have wg: "0 < ps_wg s" by (simp add: alive_def)
  show ?thesis
  proof (cases "\<exists>gp \<in> set apps. stuck (snd gp) (ps_apps s (fst gp))")
    case False
    have app: "ak_room K p (ps_apps s g) \<and> held p (ps_apps s g) = gone p (ps_apps s g)" if "map_of apps g = Some p" for g p
    proof -
      have "\<not> ak_step K p (ps_apps s g) k b" for k b
        using quiet [OF app_step [OF assms(6) that]] asleep by (fastforce split: if_splits)
      moreover have "(g, p) \<in> set apps" using map_of_SomeD [OF that] .
      ultimately show ?thesis
        using rests [of p "ps_apps s g"] False assms(1) inv that by fastforce
    qed
    have "map_of apps (fst gp) = Some (snd gp)" if "gp \<in> set apps" for gp
      using that assms(2) by (cases gp) auto
    with app have apps: "over_apps held apps s = over_apps gone apps s"
      by (auto simp: over_apps_def intro!: arg_cong [of _ _ sum_list] map_cong)
    have router: "ps_router s = None"
    proof (cases "ps_router s")
      case (Some gn)
      then obtain g n p where "ps_router s = Some (g, n)" "map_of apps g = Some p"
        using inv by (cases gn) auto
      with app quiet [OF hands_over [OF assms(6) this]] asleep show ?thesis by force
    qed
    have msgs: "ps_msgChan s = []"
    proof (cases "ps_msgChan s")
      case (Cons m ms)
      show ?thesis
      proof (cases "map_of apps (km_Game m)")
        case None
        then show ?thesis using quiet [OF route_drops [OF assms(6) router Cons]] asleep by force
      next
        case (Some p)
        obtain es w where "ak_handle K p undefined m (ps_world s) = (es, w)" by force
        from quiet [OF route_handles [OF assms(6) router Cons Some this]] asleep show ?thesis by (auto split: if_splits)
      qed
    qed
    have "consumer_load (ps_consumer s) = 0"
    proof (cases "ps_consumer s")
      case (Received m)
      then show ?thesis using quiet [OF sends [OF assms(6)]] msgs assms(4) asleep by force
    qed (simp_all add: consumer_load_def)
    then have "pusher_front s = 0" using router msgs by (simp add: pusher_front_def)
    then show ?thesis using wg apps inv assms(6) by (auto simp: alive_def)
  qed (use wg in blast)
qed

lemma blocked_step:
  assumes "\<forall>gp \<in> set apps. valid (snd gp)" "distinct (map fst apps)" "pc_hasWG c"
    and "pusher_step K apps c s t" "pusher_inv ok fresh held apps s" "ps_router s = Some (g, n)" "map_of apps g = Some p"
    and "stuck p (ps_apps s g)" "\<not> zero_seen s"
  shows "ps_router t = Some (g, n) \<and> ps_apps t g = ps_apps s g \<and> (\<exists>ms. ps_msgChan t = ps_msgChan s @ ms) \<and> \<not> zero_seen t"
proof -
  have ok: "ok p (ps_apps s g)" "valid p"
    using assms(1,5,7) map_of_SomeD [OF assms(7)] by (auto simp: pusher_inv_def)
  note stays = stays [OF ok(2,1) assms(8)]
  have "ps_wg s \<noteq> 0 \<or> ps_panicked s"
    using assms(5,6) by (auto simp: pusher_inv_def pusher_front_def)
  with assms(4) show ?thesis
  proof (cases rule: pusher_step.cases)
    case (app_step g' p' k b)
    then have "g' \<noteq> g" using stays assms(7) by auto
    then show ?thesis using app_step assms(6,9) by (simp add: zero_seen_def)
  qed (use stays assms(3,6,7,9) in \<open>auto simp: zero_seen_def alive_def\<close>)
qed

lemma blocked_run:
  assumes "\<forall>gp \<in> set apps. valid (snd gp)" "distinct (map fst apps)" "pc_hasWG c"
    and "(pusher_step K apps c)\<^sup>*\<^sup>* s t" "pusher_inv ok fresh held apps s" "ps_router s = Some (g, n)" "map_of apps g = Some p"
    and "stuck p (ps_apps s g)" "\<not> zero_seen s"
  shows "ps_router t = Some (g, n) \<and> ps_apps t g = ps_apps s g \<and> (\<exists>ms. ps_msgChan t = ps_msgChan s @ ms) \<and> \<not> zero_seen t"
  using assms(4)
proof (induction rule: rtranclp_induct)
  case (step u t)
  have "pusher_inv ok fresh held apps u" using inv_run [OF assms(1-3) step(1) assms(5)] .
  from blocked_step [OF assms(1-3) step(2) this, of g n p] step.IH assms(7,8) show ?case by auto
qed (use assms(6,9) in simp)

end

text \<open>Nothing is left to do but to time out, or to take notice of a cancellation.\<close>

definition only_times_out ::
    "('p, 'e, 'w, 'n, 'b) app_kind \<Rightarrow> (string \<times> 'p) list \<Rightarrow> run_config \<Rightarrow> ('n, 'b, 'w) pusher_state \<Rightarrow> bool" where
  "only_times_out K apps c s \<longleftrightarrow>
     (\<forall>t. pusher_step K apps c s t \<longrightarrow> ps_phase t = Exited True \<or> ps_ctx_done t \<noteq> ps_ctx_done s)"

lemma over_apps_sum: "over_apps (\<lambda>p b. f p b + f' p b) apps s = over_apps f apps s + over_apps f' apps s"
  by (simp add: over_apps_def sum_list_addf)

text \<open>
  If the topics are readable, the only panic is that of the wait group: the waiter has been woken, and before it has
  returned the consumer, which was still reading, has counted up once more.
\<close>

context app_laws begin

lemma panics_woken:
  assumes "\<forall>gp \<in> set apps. valid (snd gp)" "distinct (map fst apps)" "pc_hasWG c" "\<And>m. pc_subscribed c m \<Longrightarrow> readable m"
    and "pusher_reach K apps c w s" "ps_panicked s"
  shows "ps_phase s = Woken \<and> ps_wg s = 1"
  using assms(5,6)
proof (induction rule: pusher_reach.induct)
  case (step s t)
  have valid: "valid p" if "map_of apps g = Some p" for g p
    using assms(1) map_of_SomeD [OF that] by auto
  note inv = inv_reach [OF assms(1-3) step(1)]
  from step(2) show ?case
  proof (cases rule: pusher_step.cases)
    case (read_unreadable fm)
    then show ?thesis using assms(4) receive_readable(1) by blast
  next
    case (route_handles m ms p e es w)
    from handled_one(1) [OF valid [OF route_handles(5)] route_handles(6)] have "int (dones es) \<le> ps_wg s"
      using inv route_handles(2,4) by (simp add: pusher_inv_def pusher_front_def alive_def)
    then show ?thesis using step.prems route_handles by simp
  next
    case (app_step g p k b)
    have "\<not> ps_panicked s" using app_step(2) by (simp add: alive_def)
    from settles_held(3) [OF valid [OF app_step(3)] app_step(3) inv app_step(4) this]
    show ?thesis using step.prems app_step by simp
  next
    case wait_panics
    then have "ps_phase s = Woken" "ps_wg s \<noteq> 0" "ps_wg s + of_bool (ps_consumer s = Reading) \<le> 1" "0 \<le> ps_wg s"
      using inv by (auto simp: pusher_inv_def alive_def)
    then have "ps_phase s = Woken" "ps_wg s = 1" by (auto simp: of_bool_def split: if_splits)
    then show ?thesis using wait_panics(1) by simp
  qed (use step.prems in \<open>simp_all add: alive_def\<close>)
qed (simp add: pusher_initial_def)

lemma not_woken_alive:
  assumes "\<forall>gp \<in> set apps. valid (snd gp)" "distinct (map fst apps)" "pc_hasWG c" "\<And>m. pc_subscribed c m \<Longrightarrow> readable m"
    and "pusher_reach K apps c w s" "ps_phase s \<noteq> Woken \<or> ps_wg s \<noteq> 1"
  shows "\<not> ps_panicked s"
  using panics_woken [OF assms(1-5)] assms(6) by blast

end

text \<open>Nothing is dropped if whatever the topics bring has an app.\<close>

lemma nothing_dropped:
  assumes "\<And>fm m. pc_subscribed c fm \<Longrightarrow> push_receiveMessage fm = Some m \<Longrightarrow> map_of apps (km_Game m) \<noteq> None"
    and "pusher_reach K apps c w s"
  shows "ps_dropped s = 0"
proof -
  have "ps_dropped s = 0 \<and> (\<forall>m. ps_consumer s = Received m \<or> m \<in> set (ps_msgChan s) \<longrightarrow> map_of apps (km_Game m) \<noteq> None)"
    using assms(2)
  proof (induction rule: pusher_reach.induct)
    case (step s t)
    from step(2) show ?case
    proof (cases rule: pusher_step.cases)
      case (read_message fm m)
      then show ?thesis using step.IH assms(1) by auto
    qed (use step.IH in auto)
  qed (simp add: pusher_initial_def)
  then show ?thesis by simp
qed

end
