(* ===== verification/Shutdown.thy ===== *)
theory Shutdown
  imports Pusher_Run
begin

text \<open>
  The two pushers at work and their shutdown: the kinds of apps of \<open>Pusher_Run\<close> for APNS and for FCM, made
  of the steps of \<open>Apns_Pipeline\<close> and \<open>Fcm_Pipeline\<close> behind the router, what a shutdown waits for, when it
  ends, and what it can lose.
\<close>

section \<open>APNS apps\<close>

text \<open>
  An app is its handler with the sizes of its queue.  Behind the router it is a pipeline with an empty
  front, whose counter is the app's share of the wait group.
\<close>

type_synonym apns_part = "APNSMessageHandler \<times> capacities"

definition apns_kind ::
    "float_ops \<Rightarrow> 'w services \<Rightarrow> (ApnsNotification \<Rightarrow> json option) \<Rightarrow> (reason \<Rightarrow> string)
      \<Rightarrow> (apns_part, env, 'w, ApnsNotification, unit pipeline) app_kind" where
  "apns_kind F D MJ rc =
     \<lparr>ak_handle = (\<lambda>p env. HandleMessages F D env (fst p)),
      ak_start = (\<lambda>p. initial (snd p) ()),
      ak_room = (\<lambda>p b. length (pushChannel b) < pushQueueSize (snd p)),
      ak_put = (\<lambda>p n b. b\<lparr>pushChannel := pushChannel b @ [n], wg := wg b + 1\<rparr>),
      ak_step = (\<lambda>p b k b'. pipe_step F free_services MJ rc (fst p) (snd p) b b' \<and> k = wg b - wg b')\<rparr>"

definition apns_valid :: "apns_part \<Rightarrow> bool" where
  "apns_valid p \<longleftrightarrow> h_hasWG (fst p) \<and> int (h_maxRetryAttempts (fst p)) < 2 ^ 63"

definition apns_ok :: "apns_part \<Rightarrow> unit pipeline \<Rightarrow> bool" where
  "apns_ok p b \<longleftrightarrow> consumer b = None \<and> msgChan b = [] \<and> router b = None \<and> dropped b = 0
     \<and> wg b = int (in_flight b + lost b) \<and> everywhere (attempts_ok (fst p)) b \<and> length (workers b) = concurrentWorkers (snd p)
     \<and> length (pushChannel b) \<le> pushQueueSize (snd p) \<and> length (responseChannel b) \<le> responseChannelSize (snd p)"

definition apns_fresh :: "ApnsNotification \<Rightarrow> bool" where
  "apns_fresh n \<longleftrightarrow> n_SendAttempts n = i64 1"

definition apns_held :: "apns_part \<Rightarrow> unit pipeline \<Rightarrow> nat" where
  "apns_held p b = in_flight b + lost b"

definition apns_pot :: "apns_part \<Rightarrow> unit pipeline \<Rightarrow> nat" where
  "apns_pot p b = potential (fst p) b"

definition apns_entry :: "apns_part \<Rightarrow> nat" where
  "apns_entry p = 10 * h_maxRetryAttempts (fst p) + 6"

definition apns_sized :: "apns_part \<Rightarrow> bool" where
  "apns_sized p \<longleftrightarrow> 0 < pushQueueSize (snd p) \<and> 0 < responseChannelSize (snd p) \<and> 0 < concurrentWorkers (snd p)
     \<and> 0 < connectionPoolSize (snd p)"

lemma apns_step_front:
  assumes "pipe_step F D MJ rc a c b b'" "consumer b = None" "msgChan b = []" "router b = None"
  shows "consumer b' = None \<and> msgChan b' = [] \<and> router b' = None \<and> dropped b' = dropped b
    \<and> length (workers b') = length (workers b) \<and> wg b' \<le> wg b
    \<and> (length (pushChannel b) \<le> pushQueueSize c \<longrightarrow> length (pushChannel b') \<le> pushQueueSize c)
    \<and> (length (responseChannel b) \<le> responseChannelSize c \<longrightarrow> length (responseChannel b') \<le> responseChannelSize c)"
  using assms(1) by (cases rule: pipe_step.cases) (use assms(2-4) in simp_all)

lemma apns_moves:
  assumes "apns_valid p" "apns_ok p b" "pipe_step F D MJ rc (fst p) (snd p) b b'"
  shows "apns_ok p b' \<and> int (apns_held p b') + (wg b - wg b') = int (apns_held p b) \<and> wg b' \<le> wg b \<and> apns_pot p b' < apns_pot p b"
proof -
  have wf: "h_hasWG (fst p)" "int (h_maxRetryAttempts (fst p)) < 2 ^ 63" using assms(1) by (simp_all add: apns_valid_def)
  have at: "everywhere (attempts_ok (fst p)) b" using assms(2) by (simp add: apns_ok_def)
  note front = apns_step_front [OF assms(3)]
  have "wg b' = int (in_flight b' + lost b' + dropped b')"
    using pipe_step_accounts [OF wf(1) assms(3)] assms(2) by (simp add: apns_ok_def)
  moreover have "everywhere (attempts_ok (fst p)) b'"
    by (rule everywhere_step [OF attempts_ok_new attempts_ok_retry [OF wf(2)] assms(3) at])
  moreover have "apns_pot p b' < apns_pot p b"
    unfolding apns_pot_def by (rule potential_decreases [OF wf(2) at assms(3)])
  ultimately show ?thesis
    using front assms(2) by (auto simp: apns_ok_def apns_held_def)
qed

lemma apns_put_laws:
  assumes "apns_ok p b" "apns_fresh n" "length (pushChannel b) < pushQueueSize (snd p)"
  shows "apns_ok p (b\<lparr>pushChannel := pushChannel b @ [n], wg := wg b + 1\<rparr>)"
    "apns_held p (b\<lparr>pushChannel := pushChannel b @ [n], wg := wg b + 1\<rparr>) = Suc (apns_held p b)"
    "apns_pot p (b\<lparr>pushChannel := pushChannel b @ [n], wg := wg b + 1\<rparr>) \<le> apns_pot p b + apns_entry p"
  using assms
  by (simp_all add: apns_ok_def apns_fresh_def apns_held_def apns_pot_def apns_entry_def in_flight_def potential_def load_def
      weight_def attempts_left_def everywhere_def attempts_ok_def in_int64_def)

lemma apns_stuck:
  assumes "apns_ok p b" "retry_deadlock (snd p) b"
  shows "\<not> pipe_step F D MJ rc (fst p) (snd p) b b'"
proof
  have replying: "\<exists>r. workers b ! i = Replying r" if "i < length (workers b)" for i
    using assms(2) that by (cases "workers b ! i") (auto simp: retry_deadlock_def list_all_length)
  assume "pipe_step F D MJ rc (fst p) (snd p) b b'"
  then show False
    by (cases rule: pipe_step.cases)
      (use assms replying in \<open>auto simp: apns_ok_def retry_deadlock_def\<close>, (fastforce dest: replying)+)
qed

interpretation apns_apps: resting_app_laws "apns_kind F D MJ rc" apns_valid apns_ok apns_fresh apns_held apns_pot apns_entry
    apns_sized "\<lambda>p. lost" "\<lambda>p. retry_deadlock (snd p)" for F D MJ rc
proof unfold_locales
  fix p :: apns_part and b b' :: "unit pipeline" and n m w k and e :: env
  show "length (started (fst (ak_handle (apns_kind F D MJ rc) p e m w)))
      + dones (fst (ak_handle (apns_kind F D MJ rc) p e m w)) = 1" if "apns_valid p"
    using that HandleMessages_one [of "fst p" F D e m w] by (simp add: apns_kind_def apns_valid_def)
  show "apns_fresh n" if "n \<in> set (started (fst (ak_handle (apns_kind F D MJ rc) p e m w)))"
    using that attempts_new by (simp add: apns_kind_def apns_fresh_def)
  show "apns_ok p (ak_start (apns_kind F D MJ rc) p) \<and> apns_held p (ak_start (apns_kind F D MJ rc) p) = 0"
    by (simp add: apns_kind_def apns_ok_def apns_held_def initial_def in_flight_def load_def everywhere_def list_all_iff
        sum_list_replicate_zero)
  show "apns_ok p (ak_put (apns_kind F D MJ rc) p n b) \<and> apns_held p (ak_put (apns_kind F D MJ rc) p n b) = Suc (apns_held p b)
      \<and> apns_pot p (ak_put (apns_kind F D MJ rc) p n b) \<le> apns_pot p b + apns_entry p" if "apns_ok p b" "apns_fresh n" "ak_room (apns_kind F D MJ rc) p b"
    using apns_put_laws [OF that(1,2)] that(3) by (simp add: apns_kind_def)
  show "apns_ok p b' \<and> int (apns_held p b') + k = int (apns_held p b) \<and> 0 \<le> k \<and> apns_pot p b' < apns_pot p b"
    if "apns_valid p" "apns_ok p b" "ak_step (apns_kind F D MJ rc) p b k b'"
    using apns_moves [OF that(1,2)] that(3) by (auto simp: apns_kind_def)
  show "retry_deadlock (snd p) b \<or> ak_room (apns_kind F D MJ rc) p b \<and> apns_held p b = lost b"
    if "apns_sized p" "apns_ok p b" and "\<And>k b'. \<not> ak_step (apns_kind F D MJ rc) p b k b'"
  proof -
    have rest: "\<not> pipe_step F free_services MJ rc (fst p) (snd p) b t" for t
      using that(3) [of "wg b - wg t" t] by (simp add: apns_kind_def)
    have "in_flight b = 0 \<or> retry_deadlock (snd p) b"
      using that(1,2) by (intro rest_cases [OF rest]) (auto simp: apns_sized_def apns_ok_def)
    then show ?thesis
      using that(1) by (auto simp: apns_kind_def apns_held_def apns_sized_def in_flight_def load_def)
  qed
  show "\<not> ak_room (apns_kind F D MJ rc) p b \<and> \<not> ak_step (apns_kind F D MJ rc) p b k b'"
    if "apns_ok p b" "retry_deadlock (snd p) b"
    using apns_stuck [OF that] that(2) by (simp add: apns_kind_def retry_deadlock_def)
qed

section \<open>FCM apps\<close>

type_synonym fcm_part = "messageHandler \<times> fcm_capacities"

definition fcm_kind ::
    "float_ops \<Rightarrow> 'w services \<Rightarrow> (fcm_part, fcm_env, 'w, fcm_Message \<times> string, unit fcm_pipeline) app_kind" where
  "fcm_kind F D =
     \<lparr>ak_handle = (\<lambda>p env. fcm_HandleMessages F D env (fst p)),
      ak_start = (\<lambda>p. fcm_initial (snd p) ()),
      ak_room = (\<lambda>p b. 0 < sendPushConcurrencyControl b),
      ak_put = (\<lambda>p mt b. b\<lparr>sendPushConcurrencyControl := sendPushConcurrencyControl b - 1,
         f_senders := f_senders b @ [In_send mt], f_wg := f_wg b + 1\<rparr>),
      ak_step = (\<lambda>p b k b'. fcm_step F free_services (fst p) (snd p) b b' \<and> k = f_wg b - f_wg b')\<rparr>"

definition fcm_valid :: "fcm_part \<Rightarrow> bool" where
  "fcm_valid p \<longleftrightarrow> f_hasWG (fst p)"

definition fcm_ok :: "fcm_part \<Rightarrow> unit fcm_pipeline \<Rightarrow> bool" where
  "fcm_ok p b \<longleftrightarrow> f_consumer b = None \<and> f_msgChan b = [] \<and> f_router b = None \<and> f_dropped b = 0 \<and> fcm_inv (snd p) b"

definition fcm_sized :: "fcm_part \<Rightarrow> bool" where
  "fcm_sized p \<longleftrightarrow> 0 < f_concurrentWorkers (snd p)"

lemma fcm_step_front:
  assumes "fcm_step F D h c b b'" "f_consumer b = None" "f_msgChan b = []" "f_router b = None"
  shows "f_consumer b' = None \<and> f_msgChan b' = [] \<and> f_router b' = None \<and> f_dropped b' = f_dropped b \<and> f_wg b' \<le> f_wg b"
  using assms(1) by (cases rule: fcm_step.cases) (use assms(2-4) in simp_all)

interpretation fcm_apps: resting_app_laws "fcm_kind F D" fcm_valid fcm_ok "\<lambda>_. True" "\<lambda>p. fcm_in_flight" "\<lambda>p. fcm_potential"
    "\<lambda>p. 3" fcm_sized "\<lambda>p b. 0" "\<lambda>p b. False" for F D
proof unfold_locales
  fix p :: fcm_part and b b' :: "unit fcm_pipeline" and n m w k and e :: fcm_env
  show "length (started (fst (ak_handle (fcm_kind F D) p e m w))) + dones (fst (ak_handle (fcm_kind F D) p e m w)) = 1"
    if "fcm_valid p"
    using that fcm_one [of "fst p" F D e m w] by (simp add: fcm_kind_def fcm_valid_def)
  show "fcm_ok p (ak_start (fcm_kind F D) p) \<and> fcm_in_flight (ak_start (fcm_kind F D) p) = 0"
    by (simp add: fcm_kind_def fcm_ok_def fcm_inv_def fcm_initial_def fcm_in_flight_def fcm_load_def)
  show "fcm_ok p (ak_put (fcm_kind F D) p n b) \<and> fcm_in_flight (ak_put (fcm_kind F D) p n b) = Suc (fcm_in_flight b)
      \<and> fcm_potential (ak_put (fcm_kind F D) p n b) \<le> fcm_potential b + 3"
    if "fcm_ok p b" "ak_room (fcm_kind F D) p b"
    using that by (auto simp: fcm_kind_def fcm_ok_def fcm_inv_def fcm_in_flight_def fcm_potential_def fcm_load_def)
  show "fcm_ok p b' \<and> int (fcm_in_flight b') + k = int (fcm_in_flight b) \<and> 0 \<le> k \<and> fcm_potential b' < fcm_potential b"
    if "fcm_valid p" "fcm_ok p b" "ak_step (fcm_kind F D) p b k b'"
  proof -
    have step: "fcm_step F free_services (fst p) (snd p) b b'" "k = f_wg b - f_wg b'" using that(3) by (simp_all add: fcm_kind_def)
    have "fcm_inv (snd p) b'"
      using fcm_inv_step [OF _ step(1)] that(1,2) by (simp add: fcm_valid_def fcm_ok_def)
    then show ?thesis
      using fcm_step_front [OF step(1)] fcm_potential_decreases [OF step(1)] that(2) step(2)
      by (auto simp: fcm_ok_def fcm_inv_def)
  qed
  show "False \<or> ak_room (fcm_kind F D) p b \<and> fcm_in_flight b = 0"
    if "fcm_sized p" "fcm_ok p b" and "\<And>k b'. \<not> ak_step (fcm_kind F D) p b k b'"
  proof -
    have rest: "\<not> fcm_step F free_services (fst p) (snd p) b t" for t
      using that(3) [of "f_wg b - f_wg t" t] by (simp add: fcm_kind_def)
    have "fcm_in_flight b = 0"
      using that(1,2) by (intro fcm_rest [OF rest]) (auto simp: fcm_sized_def fcm_ok_def)
    moreover from this have "f_senders b = []"
    proof (cases "f_senders b")
      case (Cons x xs)
      with \<open>fcm_in_flight b = 0\<close> show ?thesis by (cases x) (simp_all add: fcm_in_flight_def fcm_load_def)
    qed
    ultimately show ?thesis
      using that(1,2) by (simp add: fcm_kind_def fcm_sized_def fcm_ok_def fcm_inv_def)
  qed
qed simp_all

section \<open>What a shutdown waits for and what it can lose\<close>

lemma apns_held_sum: "over_apps apns_held apps s = over_apps (\<lambda>p. in_flight) apps s + over_apps (\<lambda>p. lost) apps s"
  unfolding apns_held_def by (rule over_apps_sum)

text \<open>
  \<^bold>\<open>C9\<close>  The APNS pusher with any apps in every reachable state, if it subscribes to readable topics: the one wait
  group counts exactly what is in front of the apps, what each of them has in flight, what each has lost because a push got
  no response, and what was dropped because no app has its game.  Nothing panics but the wait group itself, and that in one
  moment only: the last \<open>Done\<close> has woken the wait of the shutdown, and before it has returned the consumer, which was still
  reading, has counted up one more message.  When the pusher has exited without a time-out, all that is left in it is at most
  one message.
\<close>

theorem apns_pusher_accounting:
  assumes "\<forall>gp \<in> set apps. apns_valid (snd gp)" "distinct (map fst apps)" "pc_hasWG c" "\<And>m. pc_subscribed c m \<Longrightarrow> readable m"
    and "pusher_reach (apns_kind F D MJ rc) apps c w s"
  shows "(if ps_panicked s then ps_phase s = Woken \<and> ps_wg s = 1
      else ps_wg s = int (pusher_front s + over_apps (\<lambda>p. in_flight) apps s + over_apps (\<lambda>p. lost) apps s + ps_dropped s))
    \<and> (ps_phase s = Exited False \<longrightarrow> ps_wg s \<le> 1)"
  using apns_apps.inv_reach [OF assms(1-3,5)] apns_apps.panics_woken [OF assms]
  by (auto simp: pusher_inv_def apns_held_sum zero_seen_def of_bool_def split: if_splits)

text \<open>
  \<^bold>\<open>C10\<close>  The same for the FCM pusher, whose apps lose nothing.
\<close>

theorem fcm_pusher_accounting:
  assumes "\<forall>gp \<in> set apps. fcm_valid (snd gp)" "distinct (map fst apps)" "pc_hasWG c" "\<And>m. pc_subscribed c m \<Longrightarrow> readable m"
    and "pusher_reach (fcm_kind F D) apps c w s"
  shows "(if ps_panicked s then ps_phase s = Woken \<and> ps_wg s = 1
      else ps_wg s = int (pusher_front s + over_apps (\<lambda>p. fcm_in_flight) apps s + ps_dropped s))
    \<and> (ps_phase s = Exited False \<longrightarrow> ps_wg s \<le> 1)"
  using fcm_apps.inv_reach [OF assms(1-3,5)] fcm_apps.panics_woken [OF assms]
  by (auto simp: pusher_inv_def zero_seen_def of_bool_def split: if_splits)

text \<open>
  \<^bold>\<open>C11\<close>  A shutdown of the APNS pusher whose consumer returns before its wait does
  keeps its promise: when it exits without a time-out, no message is left anywhere, and none has been
  lost or dropped since the start of the process.
\<close>

theorem apns_graceful_exit:
  assumes "\<forall>gp \<in> set apps. apns_valid (snd gp)" "distinct (map fst apps)" "pc_hasWG c" "\<And>m. pc_subscribed c m \<Longrightarrow> readable m"
    and "pusher_reach (apns_kind F D MJ rc) apps c w s" "ps_consumer s = Consumer_returned"
    and "ps_phase s \<in> {Up, Told, In_wait, Asleep, Woken}"
    and "(pusher_step (apns_kind F D MJ rc) apps c)\<^sup>*\<^sup>* s t" "ps_phase t = Exited False"
  shows "pusher_front t = 0 \<and> over_apps (\<lambda>p. in_flight) apps t = 0 \<and> over_apps (\<lambda>p. lost) apps t = 0 \<and> ps_dropped t = 0"
proof -
  have reach: "pusher_reach (apns_kind F D MJ rc) apps c w t" using reach_run [OF assms(5,8)] .
  have "\<not> ps_panicked t" using apns_apps.panics_woken [OF assms(1-4) reach] assms(9) by auto
  moreover have "late_zero s" using assms(6,7) by (auto simp: late_zero_def zero_seen_def)
  from apns_apps.late_zero_run [OF assms(1-3,8) apns_apps.inv_reach [OF assms(1-3,5)] this \<open>\<not> ps_panicked t\<close>]
  have "ps_wg t = 0" using assms(9) by (auto simp: late_zero_def zero_seen_def)
  ultimately show ?thesis
    using apns_apps.inv_reach [OF assms(1-3) reach] by (simp add: pusher_inv_def apns_held_sum)
qed

definition apns_potential :: "(string \<times> apns_part) list \<Rightarrow> (ApnsNotification, unit pipeline, 'w) pusher_state \<Rightarrow> nat" where
  "apns_potential = pusher_potential apns_entry apns_pot"

text \<open>
  \<^bold>\<open>C12\<close>  Every shutdown of the APNS pusher ends, in spite of retries: once the stop is requested, no run of all its
  goroutines is longer than a number read off the state, and where none can go on the process has ended.
\<close>

theorem apns_shutdown_ends:
  assumes "\<forall>gp \<in> set apps. apns_valid (snd gp)" "distinct (map fst apps)" "pc_hasWG c"
    and "pusher_reach (apns_kind F D MJ rc) apps c w s" "stop_requested s"
    and "(pusher_step (apns_kind F D MJ rc) apps c ^^ k) s t"
  shows "k \<le> apns_potential apps s \<and> ((\<exists>u. pusher_step (apns_kind F D MJ rc) apps c t u) \<or> \<not> alive t)"
  using apns_apps.shutdown_bounded [OF assms(1-3) apns_apps.inv_reach [OF assms(1-4)] assms(5,6)]
    alive_steps [of t "apns_kind F D MJ rc" apps c]
  by (auto simp: apns_potential_def)

text \<open>
  \<^bold>\<open>C13\<close>  What a shutdown of the APNS pusher can wait for in vain: if only the time-out can end it, then either an
  app is in the retry deadlock, or nothing is in flight and the wait group counts just what was lost
  and what was dropped.
\<close>

theorem apns_shutdown_waits:
  assumes "\<forall>gp \<in> set apps. apns_valid (snd gp) \<and> apns_sized (snd gp)" "distinct (map fst apps)" "pc_hasWG c" "0 < pc_msgChan_size c"
    and "pusher_reach (apns_kind F D MJ rc) apps c w s" "alive s" "ps_phase s \<in> {In_wait, Asleep}"
    and "only_times_out (apns_kind F D MJ rc) apps c s"
  shows "0 < ps_wg s \<and> ((\<exists>gp \<in> set apps. retry_deadlock (snd (snd gp)) (ps_apps s (fst gp)))
    \<or> pusher_front s = 0 \<and> ps_wg s = int (over_apps (\<lambda>p. lost) apps s + ps_dropped s))"
proof -
  have "\<forall>gp \<in> set apps. apns_valid (snd gp)" using assms(1) by simp
  note inv = apns_apps.inv_reach [OF this assms(2,3,5)]
  show ?thesis
    by (rule apns_apps.waits_for [OF assms(1-4) inv assms(6,7), where F = F and D = D and MJ = MJ and rc = rc])
      (use assms(8) in \<open>simp add: only_times_out_def\<close>)
qed

text \<open>
  \<^bold>\<open>C14\<close>  A shutdown of the FCM pusher ends, too, and waits in vain for nothing but the messages whose game no app
  has: where only the time-out can end it, the wait group counts just these.
\<close>

theorem fcm_shutdown_ends:
  assumes "\<forall>gp \<in> set apps. fcm_valid (snd gp) \<and> fcm_sized (snd gp)" "distinct (map fst apps)" "pc_hasWG c" "0 < pc_msgChan_size c"
    and "pusher_reach (fcm_kind F D) apps c w s" "stop_requested s" "(pusher_step (fcm_kind F D) apps c ^^ k) s t"
  shows "k \<le> pusher_potential (\<lambda>p. 3) (\<lambda>p. fcm_potential) apps s
    \<and> ((\<exists>u. pusher_step (fcm_kind F D) apps c t u) \<or> \<not> alive t)
    \<and> (alive t \<and> ps_phase t \<in> {In_wait, Asleep} \<and> only_times_out (fcm_kind F D) apps c t \<longrightarrow> 0 < ps_dropped t \<and> ps_wg t = int (ps_dropped t))"
proof -
  have valid: "\<forall>gp \<in> set apps. fcm_valid (snd gp)" using assms(1) by simp
  note run = fcm_apps.shutdown_bounded [OF valid assms(2,3) fcm_apps.inv_reach [OF valid assms(2,3,5)] assms(6,7)]
  then have inv: "pusher_inv fcm_ok (\<lambda>_. True) (\<lambda>p. fcm_in_flight) apps t" by blast
  have "0 < ps_dropped t \<and> ps_wg t = int (ps_dropped t)"
    if "alive t" "ps_phase t \<in> {In_wait, Asleep}" "only_times_out (fcm_kind F D) apps c t"
  proof -
    have "0 < ps_wg t \<and> ((\<exists>gp \<in> set apps. False) \<or> pusher_front t = 0 \<and> ps_wg t = int (over_apps (\<lambda>p b. 0) apps t + ps_dropped t))"
      by (rule fcm_apps.waits_for [OF assms(1-4) inv that(1,2), where F = F and D = D]) (use that(3) in \<open>simp add: only_times_out_def\<close>)
    then show ?thesis by (auto simp: over_apps_def sum_list_triv)
  qed
  then show ?thesis using run alive_steps [of t "fcm_kind F D" apps c] by auto
qed

text \<open>
  \<^bold>\<open>C15\<close>  One app can stop all: when the goroutine that routes waits for an app in the retry deadlock, it waits
  for ever; from then on no message of any app is taken from the channel, and the shutdown can end only
  by its time-out.
\<close>

theorem one_app_blocks_all:
  assumes "\<forall>gp \<in> set apps. apns_valid (snd gp)" "distinct (map fst apps)" "pc_hasWG c"
    and "pusher_reach (apns_kind F D MJ rc) apps c w s" "ps_router s = Some (g, n)" "map_of apps g = Some p"
    and "retry_deadlock (snd p) (ps_apps s g)" "ps_phase s \<in> {Up, Told, In_wait, Asleep, Woken}"
    and "(pusher_step (apns_kind F D MJ rc) apps c)\<^sup>*\<^sup>* s t"
  shows "ps_router t = Some (g, n) \<and> ps_apps t g = ps_apps s g \<and> (\<exists>ms. ps_msgChan t = ps_msgChan s @ ms) \<and> ps_phase t \<noteq> Exited False"
  using apns_apps.blocked_run [OF assms(1-3,9) apns_apps.inv_reach [OF assms(1-4)] assms(5-7)] assms(8)
  by (auto simp: zero_seen_def)


section \<open>Two APNS apps at work\<close>

abbreviation two_apps :: "(string \<times> apns_part) list" where
  "two_apps \<equiv> [(''g'', (sample_handler, small)), (''h'', (sample_handler\<lparr>h_appName := ''h''\<rparr>, small))]"

definition sample_record :: feedback_message where
  "sample_record = \<lparr>fm_Topic = ''push-g_apns-single'', fm_Value = ''null''\<rparr>"

definition sample_run_config :: run_config where
  "sample_run_config = \<lparr>pc_msgChan_size = 1, pc_hasWG = True, pc_subscribed = (\<lambda>m. m = sample_record)\<rparr>"

abbreviation sample_kind :: "(apns_part, env, unit, ApnsNotification, unit pipeline) app_kind" where
  "sample_kind \<equiv> apns_kind sample_floats free_services (\<lambda>n. Some JNull) apple_reason"

abbreviation two_step :: "(ApnsNotification, unit pipeline, unit) pusher_state \<Rightarrow> (ApnsNotification, unit pipeline, unit) pusher_state \<Rightarrow> bool" where
  "two_step \<equiv> pusher_step sample_kind two_apps sample_run_config"

abbreviation two_reach :: "(ApnsNotification, unit pipeline, unit) pusher_state \<Rightarrow> bool" where
  "two_reach \<equiv> pusher_reach sample_kind two_apps sample_run_config ()"

abbreviation two_at ::
    "KafkaMessage consumer_state \<Rightarrow> int \<Rightarrow> KafkaMessage list \<Rightarrow> (string \<times> ApnsNotification) option \<Rightarrow> unit pipeline \<Rightarrow> phase
      \<Rightarrow> (ApnsNotification, unit pipeline, unit) pusher_state" where
  "two_at x n ms r b ph \<equiv>
     \<lparr>ps_wg = n, ps_consumer = x, ps_msgChan = ms, ps_router = r,
      ps_apps = (ps_apps (pusher_initial sample_kind two_apps ()))(''g'' := b), ps_world = (), ps_dropped = 0, ps_ctx_done = False,
      ps_phase = ph, ps_panicked = False\<rparr>"

abbreviation idle :: "unit pipeline" where
  "idle \<equiv> initial small ()"

lemma received: "push_receiveMessage sample_record = Some null_message"
  by code_simp

lemma two_start: "two_reach (two_at At_select 0 [] None idle Up)"
proof -
  have "pusher_initial sample_kind two_apps () = two_at At_select 0 [] None idle Up"
    by (simp add: pusher_initial_def apns_kind_def fun_eq_iff)
  then show ?thesis using pusher_reach.start [of sample_kind two_apps sample_run_config "()"] by simp
qed

lemmas two_facts = alive_def stop_requested_def sample_run_config_def

lemma two_wf:
  "\<forall>gp \<in> set two_apps. apns_valid (snd gp) \<and> apns_sized (snd gp)" "\<forall>gp \<in> set two_apps. apns_valid (snd gp)"
  "distinct (map fst two_apps)" "pc_hasWG sample_run_config" "0 < pc_msgChan_size sample_run_config"
  by (simp_all add: apns_valid_def apns_sized_def sample_handler_def small_def sample_run_config_def)

lemma two_counts:
  assumes "two_reach (two_at x n ms r b ph)"
  shows "0 \<le> n"
  using apns_apps.not_below_zero [OF apns_apps.inv_reach [OF two_wf(2-4) assms]] by simp

lemma two_read: "two_step (two_at At_select n ms r b Up) (two_at Reading n ms r b Up)"
  using reads [of "two_at At_select n ms r b Up" sample_kind two_apps sample_run_config] by (simp add: two_facts)

lemma two_receive:
  "ph \<in> {Up, Told, In_wait, Asleep, Woken, Zero_seen} \<Longrightarrow> two_step (two_at Reading n ms r b ph) (two_at (Received null_message) (n + 1) ms r b ph)"
  using read_message [of "two_at Reading n ms r b ph" sample_run_config sample_record null_message sample_kind two_apps] received
  by (auto simp: two_facts)

lemma two_send: "two_step (two_at (Received null_message) n [] r b Up) (two_at At_select n [null_message] r b Up)"
  using sends [of "two_at (Received null_message) n [] r b Up" null_message sample_run_config sample_kind two_apps]
  by (simp add: two_facts)

lemma two_handle: "0 \<le> n \<Longrightarrow> two_step (two_at At_select n [null_message] None b Up) (two_at At_select n [] (Some (''g'', sample_notification)) b Up)"
proof -
  assume n: "0 \<le> n"
  obtain es where es: "HandleMessages sample_floats free_services sample_env sample_handler null_message () = (es, ())"
    by (metis old.unit.exhaust surj_pair)
  then have eff: "started es = [sample_notification]" "dones es = 0"
    using sample_effects(1,2) by simp_all
  have "ak_handle sample_kind (sample_handler, small) sample_env null_message () = (es, ())"
    using es by (simp add: apns_kind_def)
  then show ?thesis
    using route_handles [of "two_at At_select n [null_message] None b Up" null_message "[]" two_apps "(sample_handler, small)"
        sample_kind sample_env es "()" sample_run_config] eff n
    by (simp add: two_facts null_message_def wg_Done_def)
qed

lemma two_comes_in:
  assumes "two_reach (two_at At_select n [] None b Up)"
  shows "two_reach (two_at At_select (n + 1) [] (Some (''g'', sample_notification)) b Up)"
proof -
  have 1: "two_reach (two_at (Received null_message) (n + 1) [] None b Up)"
    by (rule pusher_reach.step [OF pusher_reach.step [OF assms two_read] two_receive]) simp
  note 2 = pusher_reach.step [OF 1 two_send]
  show ?thesis by (rule pusher_reach.step [OF 2 two_handle [OF two_counts [OF 2]]])
qed

lemma two_handed_over:
  assumes "two_reach (two_at At_select n [] (Some (''g'', sample_notification)) b Up)" "pushChannel b = []"
  shows "two_reach (two_at At_select n [] None (b\<lparr>pushChannel := [sample_notification], wg := wg b + 1\<rparr>) Up)"
proof -
  have "two_step (two_at At_select n [] (Some (''g'', sample_notification)) b Up)
      (two_at At_select n [] None (b\<lparr>pushChannel := [sample_notification], wg := wg b + 1\<rparr>) Up)"
    using hands_over [of "two_at At_select n [] (Some (''g'', sample_notification)) b Up" "''g''" sample_notification two_apps
        "(sample_handler, small)" sample_kind sample_run_config] assms(2)
    by (simp add: two_facts apns_kind_def small_def)
  with assms(1) show ?thesis by (rule pusher_reach.step)
qed

lemma two_app_step:
  assumes "two_reach (two_at At_select n [] None b Up)" "sample_step b b'" "wg b' = wg b"
  shows "two_reach (two_at At_select n [] None b' Up)"
proof -
  have "0 \<le> n" using assms(1) by (rule two_counts)
  then have "two_step (two_at At_select n [] None b Up) (two_at At_select n [] None b' Up)"
    using app_step [of "two_at At_select n [] None b Up" two_apps "''g''" "(sample_handler, small)" sample_kind 0 b'
        sample_run_config] assms(2,3)
    by (simp add: two_facts apns_kind_def wg_Done_def)
  with assms(1) show ?thesis by (rule pusher_reach.step)
qed

text \<open>A message comes in, gets to the worker, and is answered with too many requests.\<close>

lemma two_throttled:
  assumes "two_reach (two_at At_select n [] None b Up)" "pushChannel b = []" "workers b = [Waiting]"
  shows "two_reach (two_at At_select (n + 1) [] None (b\<lparr>workers := [Replying throttled], wg := wg b + 1\<rparr>) Up)"
proof -
  let ?b = "b\<lparr>pushChannel := [sample_notification], wg := wg b + 1\<rparr>"
  have "workers ?b = [Waiting]" "pushChannel ?b = [sample_notification]" using assms(3) by simp_all
  note steps = throttle_steps [OF this]
  have "two_reach (two_at At_select (n + 1) [] None (?b\<lparr>pushChannel := [], workers := [Replying throttled]\<rparr>) Up)"
    by (rule two_app_step [OF two_app_step [OF two_app_step [OF two_handed_over [OF two_comes_in [OF assms(1)] assms(2)] steps(1)] steps(2)] steps(3)]) simp_all
  moreover have "?b\<lparr>pushChannel := [], workers := [Replying throttled]\<rparr> = b\<lparr>workers := [Replying throttled], wg := wg b + 1\<rparr>"
    using assms(2) by simp
  ultimately show ?thesis by simp
qed

lemma two_replied:
  assumes "two_reach (two_at At_select n [] None b Up)" "pushChannel b = []" "workers b = [Waiting]" "responseChannel b = []"
  shows "two_reach (two_at At_select (n + 1) [] None (b\<lparr>responseChannel := [throttled], wg := wg b + 1\<rparr>) Up)"
proof -
  let ?b = "b\<lparr>workers := [Replying throttled], wg := wg b + 1\<rparr>"
  have "sample_step ?b (?b\<lparr>workers := [Waiting], responseChannel := [throttled]\<rparr>)"
    using assms(4) by (intro reply_step) simp_all
  from two_app_step [OF two_throttled [OF assms(1-3)] this]
  show ?thesis using assms(3) by (cases b) simp
qed

abbreviation dead_app :: "unit pipeline" where
  "dead_app \<equiv> idle\<lparr>pushChannel := [sample_notification], workers := [Replying throttled], responseChannel := [throttled],
     retrier := Some (sent_once sample_notification), wg := 4\<rparr>"

text \<open>The retry deadlock of one of the two apps, and a fifth message for it at the router.\<close>

lemma two_blocked: "two_reach (two_at At_select 5 [] (Some (''g'', sample_notification)) dead_app Up)"
proof -
  have idle: "pushChannel idle = []" "workers idle = [Waiting]" "responseChannel idle = []" "retrier idle = None" "wg idle = 0"
    by (simp_all add: initial_def small_def)
  have "two_reach (two_at At_select 1 [] None (idle\<lparr>responseChannel := [throttled], wg := 1\<rparr>) Up)"
    using two_replied [OF two_start idle(1-3)] idle(5) by simp
  moreover have "sample_step (idle\<lparr>responseChannel := [throttled], wg := 1\<rparr>)
      (idle\<lparr>responseChannel := [], retrier := Some (sent_once sample_notification), wg := 1\<rparr>)"
    using retry_step [of "idle\<lparr>responseChannel := [throttled], wg := 1\<rparr>"] by (simp add: initial_def)
  ultimately have "two_reach (two_at At_select 1 [] None
      (idle\<lparr>responseChannel := [], retrier := Some (sent_once sample_notification), wg := 1\<rparr>) Up)"
    by (rule two_app_step) simp
  from two_replied [OF this] idle(1-5)
  have "two_reach (two_at At_select 2 [] None
      (idle\<lparr>responseChannel := [throttled], retrier := Some (sent_once sample_notification), wg := 2\<rparr>) Up)" by (simp add: initial_def)
  from two_throttled [OF this] idle
  have "two_reach (two_at At_select 3 [] None (idle\<lparr>workers := [Replying throttled], responseChannel := [throttled],
      retrier := Some (sent_once sample_notification), wg := 3\<rparr>) Up)" by (simp add: initial_def)
  from two_handed_over [OF two_comes_in [OF this]] idle
  have "two_reach (two_at At_select 4 [] None dead_app Up)" by (simp add: initial_def)
  from two_comes_in [OF this] show ?thesis by simp
qed

lemma two_told: "two_step (two_at x n ms r b Up) (two_at x n ms r b Told)"
  and two_stop: "two_step (two_at x n ms r b Told) (two_at x n ms r b In_wait)"
  and two_return: "ph \<in> {In_wait, Asleep} \<Longrightarrow> two_step (two_at At_select n ms r b ph) (two_at Consumer_returned n ms r b ph)"
  and two_zero: "two_step (two_at x 0 ms r b In_wait) (two_at x 0 ms r b Zero_seen)"
  and two_sleep: "n \<noteq> 0 \<Longrightarrow> two_step (two_at x n ms r b In_wait) (two_at x n ms r b Asleep)"
  and two_exit: "two_step (two_at x n ms r b Zero_seen) (two_at x n ms r b (Exited False))"
  using told [of "two_at x n ms r b Up"] StopConsuming [of "two_at x n ms r b Told"] returns [of "two_at At_select n ms r b ph"]
    wait_over [of "two_at x 0 ms r b In_wait" sample_run_config] falls_asleep [of "two_at x n ms r b In_wait" sample_run_config]
    exits [of "two_at x n ms r b Zero_seen"]
  by (auto simp: two_facts)

text \<open>
  A message is pushed and answered well; while its response waits, the consumer goes on reading and the shutdown falls asleep
  over it; then the handling of the response wakes the shutdown.
\<close>

definition pushed_well :: ResponseWithMetadata where
  "pushed_well = worker_response sample_notification \<lparr>res_StatusCode = i64 200, res_Reason = '''', res_ApnsID = ''u1'', res_Sent = True\<rparr>"

lemma pushed_well_settles:
  "started (handleAPNSResponse sample_floats (\<lambda>n. Some JNull) apple_reason sample_env sample_handler pushed_well) = []"
  "dones (handleAPNSResponse sample_floats (\<lambda>n. Some JNull) apple_reason sample_env sample_handler pushed_well) = 1"
  by code_simp+

lemma two_answered: "two_reach (two_at At_select 1 [] None (idle\<lparr>responseChannel := [pushed_well], wg := 1\<rparr>) Up)"
proof -
  let ?b = "idle\<lparr>pushChannel := [sample_notification], wg := 1\<rparr>"
  have b: "workers ?b = [Waiting]" "pushChannel ?b = [sample_notification]" by (simp_all add: initial_def small_def)
  have "two_reach (two_at At_select 1 [] None ?b Up)"
    using two_handed_over [OF two_comes_in [OF two_start]] by (simp add: initial_def)
  from two_app_step [OF two_app_step [OF this throttle_steps(1) [OF b]] throttle_steps(2) [OF b]]
  have "two_reach (two_at At_select 1 [] None (?b\<lparr>pushChannel := [], workers := [Sending sample_notification]\<rparr>) Up)" by simp
  moreover have "sample_step (?b\<lparr>pushChannel := [], workers := [Sending sample_notification]\<rparr>)
      (?b\<lparr>pushChannel := [], workers := [Replying pushed_well]\<rparr>)"
    using worker_sent [of 0 "?b\<lparr>pushChannel := [], workers := [Sending sample_notification]\<rparr>" sample_notification _ _ _ _ _ _
        "Some \<lparr>res_StatusCode = i64 200, res_Reason = '''', res_ApnsID = ''u1'', res_Sent = True\<rparr>"]
    by (simp add: pushed_well_def)
  ultimately have "two_reach (two_at At_select 1 [] None (?b\<lparr>pushChannel := [], workers := [Replying pushed_well]\<rparr>) Up)"
    by (rule two_app_step) simp
  moreover have "sample_step (?b\<lparr>pushChannel := [], workers := [Replying pushed_well]\<rparr>) (idle\<lparr>responseChannel := [pushed_well], wg := 1\<rparr>)"
    using worker_replies [of 0 "?b\<lparr>pushChannel := [], workers := [Replying pushed_well]\<rparr>" pushed_well small]
    by (simp add: initial_def small_def)
  ultimately show ?thesis by (rule two_app_step) simp
qed

lemma two_woken: "two_reach (two_at Reading 0 [] None idle Woken)"
proof -
  let ?b = "idle\<lparr>responseChannel := [pushed_well], wg := 1\<rparr>"
  have 1: "two_reach (two_at Reading 1 [] None ?b Asleep)"
    by (rule pusher_reach.step [OF pusher_reach.step [OF pusher_reach.step [OF pusher_reach.step [OF two_answered two_read]
          two_told] two_stop] two_sleep]) simp
  have "sample_step ?b (?b\<lparr>responseChannel := [], wg := 0, retrier := None\<rparr>)"
    using pipe_step.response_handled [of ?b pushed_well "[]" sample_floats "\<lambda>n. Some JNull" apple_reason sample_env sample_handler _
        free_services small, OF _ _ refl] pushed_well_settles by (simp add: initial_def)
  moreover have "?b\<lparr>responseChannel := [], wg := 0, retrier := None\<rparr> = idle" by (simp add: initial_def)
  ultimately have "ak_step sample_kind (sample_handler, small) ?b 1 idle" by (simp add: apns_kind_def initial_def)
  then have "two_step (two_at Reading 1 [] None ?b Asleep) (two_at Reading 0 [] None idle Woken)"
    using app_step [of "two_at Reading 1 [] None ?b Asleep" two_apps "''g''" "(sample_handler, small)" sample_kind 1 idle sample_run_config]
    by (simp add: two_facts wg_Done_def)
  with 1 show ?thesis by (rule pusher_reach.step)
qed

text \<open>
  \<^bold>\<open>C16\<close>  A shutdown that calls itself graceful can lose a message, or crash: if the consumer is reading when it is told to
  stop, the wait group can be seen at zero before the message it then reads is counted, and the process exits
  without a time-out while the message, read from Kafka, has been handled by nobody; or the message is counted just
  when the last other one has woken the wait, and the wait group panics.
\<close>

theorem graceful_exit_loses_message:
  "(\<exists>s. two_reach s \<and> ps_phase s = Exited False \<and> ps_consumer s = Received null_message \<and> ps_wg s = 1)
   \<and> (\<exists>s. two_reach s \<and> ps_panicked s)"
proof -
  have "two_reach (two_at Reading 0 [] None idle Zero_seen)"
    by (rule pusher_reach.step [OF pusher_reach.step [OF pusher_reach.step [OF pusher_reach.step [OF two_start two_read]
          two_told] two_stop] two_zero])
  from pusher_reach.step [OF pusher_reach.step [OF this two_receive] two_exit]
  have 1: "two_reach (two_at (Received null_message) 1 [] None idle (Exited False))" by simp
  have "two_reach (two_at (Received null_message) 1 [] None idle Woken)"
    using pusher_reach.step [OF two_woken two_receive] by simp
  from pusher_reach.step [OF this wait_panics]
  have 2: "two_reach ((two_at (Received null_message) 1 [] None idle Woken)\<lparr>ps_panicked := True\<rparr>)"
    by (simp add: two_facts)
  show ?thesis by (rule conjI; rule exI, rule conjI; (rule 1 2)?) simp_all
qed

section \<open>The properties at work\<close>

lemma two_readable: "pc_subscribed sample_run_config m \<Longrightarrow> readable m"
  using receive_readable(1) [of m] received by (auto simp: sample_run_config_def)

lemma two_waiting:
  assumes "two_reach (two_at At_select n ms r b Up)"
  shows "two_reach (two_at At_select n ms r b In_wait)" "two_reach (two_at Consumer_returned n ms r b In_wait)"
  using assms two_told two_stop two_return [of In_wait] by (meson insertI1 pusher_reach.step)+

theorem apns_pusher_accounting_witness:
  "pusher_front (two_at At_select 5 [] (Some (''g'', sample_notification)) dead_app Up)
    + over_apps (\<lambda>p. in_flight) two_apps (two_at At_select 5 [] (Some (''g'', sample_notification)) dead_app Up)
    + over_apps (\<lambda>p. lost) two_apps (two_at At_select 5 [] (Some (''g'', sample_notification)) dead_app Up) = 5"
  using apns_pusher_accounting [OF two_wf(2-4) two_readable two_blocked] by simp

theorem apns_graceful_exit_witness:
  "over_apps (\<lambda>p. lost) two_apps (two_at Consumer_returned 0 [] None idle (Exited False)) = 0"
proof -
  have "two_step\<^sup>*\<^sup>* (two_at Consumer_returned 0 [] None idle In_wait) (two_at Consumer_returned 0 [] None idle (Exited False))"
    using two_zero two_exit by (meson rtranclp.rtrancl_refl rtranclp.rtrancl_into_rtrancl)
  from apns_graceful_exit [OF two_wf(2-4) two_readable two_waiting(2) [OF two_start] _ _ this] show ?thesis by simp
qed

theorem apns_shutdown_ends_witness:
  "1 \<le> apns_potential two_apps (two_at At_select 0 [] None idle In_wait)"
proof -
  have "(two_step ^^ 1) (two_at At_select 0 [] None idle In_wait) (two_at Consumer_returned 0 [] None idle In_wait)"
    using two_return [of In_wait] by (simp only: relpowp_1) simp
  from apns_shutdown_ends [OF two_wf(2-4) two_waiting(1) [OF two_start] _ this] show ?thesis
    by (simp add: stop_requested_def)
qed

lemma idle_rests: "\<not> pipe_step F D MJ rc a small idle b"
proof
  assume "pipe_step F D MJ rc a small idle b"
  then show False by (cases rule: pipe_step.cases) (simp_all add: initial_def small_def)
qed

lemma dead_rests: "\<not> sample_step dead_app b"
proof
  assume "sample_step dead_app b"
  then show False by (cases rule: pipe_step.cases) (simp_all add: initial_def small_def)
qed

abbreviation two_stuck :: "(ApnsNotification, unit pipeline, unit) pusher_state" where
  "two_stuck \<equiv> two_at Consumer_returned 5 [] (Some (''g'', sample_notification)) dead_app Asleep"

lemma two_stuck_reached: "two_step\<^sup>*\<^sup>* (two_at At_select 5 [] (Some (''g'', sample_notification)) dead_app Up) two_stuck"
proof -
  let ?s = "\<lambda>x. two_at x 5 [] (Some (''g'', sample_notification)) dead_app"
  have "two_step (?s At_select Up) (?s At_select Told)" by (rule two_told)
  moreover have "two_step (?s At_select Told) (?s At_select In_wait)" by (rule two_stop)
  moreover have "two_step (?s At_select In_wait) (?s At_select Asleep)" by (rule two_sleep) simp
  moreover have "two_step (?s At_select Asleep) two_stuck" by (rule two_return) simp
  ultimately show ?thesis by (meson rtranclp.rtrancl_refl rtranclp.rtrancl_into_rtrancl)
qed

lemma two_only_times_out: "only_times_out sample_kind two_apps sample_run_config two_stuck"
  unfolding only_times_out_def
proof (intro allI impI)
  fix t assume "two_step two_stuck t"
  then show "ps_phase t = Exited True \<or> ps_ctx_done t \<noteq> ps_ctx_done two_stuck"
  proof (cases rule: pusher_step.cases)
    case (app_step g p k b)
    then show ?thesis
      using idle_rests [of sample_floats free_services "\<lambda>n. Some JNull" apple_reason "sample_handler\<lparr>h_appName := ''h''\<rparr>"]
        dead_rests
      by (auto simp: apns_kind_def pusher_initial_def split: if_splits)
  next
    case (hands_over g n p)
    then have "p = (sample_handler, small)" by auto
    then show ?thesis using hands_over by (auto simp: apns_kind_def small_def)
  qed (simp_all add: two_wf(4))
qed

theorem apns_shutdown_waits_witness:
  "0 < ps_wg two_stuck \<and> (\<exists>gp \<in> set two_apps. retry_deadlock (snd (snd gp)) (ps_apps two_stuck (fst gp)))"
proof -
  have "alive two_stuck" "ps_phase two_stuck \<in> {In_wait, Asleep}" "pusher_front two_stuck \<noteq> 0"
    by (simp_all add: alive_def pusher_front_def)
  with apns_shutdown_waits [OF two_wf(1,3-5) reach_run [OF two_blocked two_stuck_reached] _ _ two_only_times_out]
  show ?thesis by blast
qed

theorem one_app_blocks_all_witness:
  "ps_router two_stuck = Some (''g'', sample_notification) \<and> ps_phase two_stuck \<noteq> Exited False"
proof -
  let ?s = "two_at At_select 5 [] (Some (''g'', sample_notification)) dead_app Up"
  have "ps_router ?s = Some (''g'', sample_notification)" "map_of two_apps ''g'' = Some (sample_handler, small)"
    "retry_deadlock (snd (sample_handler, small)) (ps_apps ?s ''g'')" "ps_phase ?s \<in> {Up, Told, In_wait, Asleep, Woken}"
    by (simp_all add: retry_deadlock_def small_def)
  from one_app_blocks_all [OF two_wf(2-4) two_blocked this two_stuck_reached] show ?thesis by blast
qed

abbreviation one_fcm_app :: "(string \<times> fcm_part) list" where
  "one_fcm_app \<equiv> [(''g'', (sample_fcm_handler, one_worker))]"

abbreviation sample_fcm_kind :: "(fcm_part, fcm_env, unit, fcm_Message \<times> string, unit fcm_pipeline) app_kind" where
  "sample_fcm_kind \<equiv> fcm_kind sample_floats free_services"

abbreviation fcm_up :: "(fcm_Message \<times> string, unit fcm_pipeline, unit) pusher_state" where
  "fcm_up \<equiv> pusher_initial sample_fcm_kind one_fcm_app ()"

lemma fcm_wf:
  "\<forall>gp \<in> set one_fcm_app. fcm_valid (snd gp) \<and> fcm_sized (snd gp)" "\<forall>gp \<in> set one_fcm_app. fcm_valid (snd gp)"
  "distinct (map fst one_fcm_app)"
  by (simp_all add: fcm_valid_def fcm_sized_def sample_fcm_handler_def one_worker_def)

theorem fcm_pusher_accounting_witness:
  "\<exists>s. pusher_reach sample_fcm_kind one_fcm_app sample_run_config () s \<and> ps_wg s = 1
    \<and> pusher_front s + over_apps (\<lambda>p. fcm_in_flight) one_fcm_app s = 1"
proof -
  let ?s1 = "fcm_up\<lparr>ps_consumer := Reading\<rparr>"
  let ?s2 = "?s1\<lparr>ps_consumer := Received null_message, ps_wg := ps_wg ?s1 + of_bool (pc_hasWG sample_run_config)\<rparr>"
  have "pusher_step sample_fcm_kind one_fcm_app sample_run_config fcm_up ?s1"
    by (rule reads) (simp_all add: pusher_initial_def two_facts)
  moreover have "pusher_step sample_fcm_kind one_fcm_app sample_run_config ?s1 ?s2"
    by (rule read_message [OF _ _ _ received]) (simp_all add: pusher_initial_def two_facts)
  ultimately have reach: "pusher_reach sample_fcm_kind one_fcm_app sample_run_config () ?s2"
    by (meson pusher_reach.intros)
  have s2: "ps_wg ?s2 = 1" "ps_dropped ?s2 = 0" "\<not> ps_panicked ?s2" by (simp_all add: pusher_initial_def sample_run_config_def)
  from fcm_pusher_accounting [OF fcm_wf(2,3) two_wf(4) two_readable reach] s2
  show ?thesis using reach by (intro exI [of _ ?s2]) simp
qed

theorem fcm_shutdown_ends_witness:
  "1 \<le> pusher_potential (\<lambda>p. 3) (\<lambda>p. fcm_potential) one_fcm_app (fcm_up\<lparr>ps_phase := In_wait\<rparr>)"
proof -
  let ?s1 = "fcm_up\<lparr>ps_phase := Told\<rparr>"
  let ?s2 = "?s1\<lparr>ps_phase := In_wait\<rparr>"
  let ?s3 = "?s2\<lparr>ps_consumer := Consumer_returned\<rparr>"
  have "pusher_step sample_fcm_kind one_fcm_app sample_run_config fcm_up ?s1"
    by (rule told) (simp_all add: pusher_initial_def two_facts)
  moreover have "pusher_step sample_fcm_kind one_fcm_app sample_run_config ?s1 ?s2"
    by (rule StopConsuming) (simp_all add: pusher_initial_def two_facts)
  ultimately have reach: "pusher_reach sample_fcm_kind one_fcm_app sample_run_config () ?s2"
    by (meson pusher_reach.intros)
  have "pusher_step sample_fcm_kind one_fcm_app sample_run_config ?s2 ?s3"
    by (rule returns) (simp_all add: pusher_initial_def two_facts)
  then have "(pusher_step sample_fcm_kind one_fcm_app sample_run_config ^^ 1) ?s2 ?s3" by (simp only: relpowp_1)
  from fcm_shutdown_ends [OF fcm_wf(1,3) two_wf(4,5) reach _ this] show ?thesis by (simp add: stop_requested_def)
qed

end
