(* ===== verification/Pusher_Exit.thy ===== *)
theory Pusher_Exit
  imports Pusher_Run
begin

text \<open>
  When a pusher can be shut down without its time-out (\<open>Start\<close> of \<^verbatim>\<open>pusher/pusher.go\<close> with \<open>GracefulShutdown\<close>
  of \<^verbatim>\<open>pusher/common.go\<close>), for any kind of apps of which it is known which of their states are good: from a good
  one an app can still settle all it has, from any other one it never will.
\<close>

section \<open>Good states\<close>

definition all_apps :: "('p \<Rightarrow> 'b \<Rightarrow> bool) \<Rightarrow> (string \<times> 'p) list \<Rightarrow> ('n, 'b, 'w) pusher_state \<Rightarrow> bool" where
  "all_apps P apps s \<longleftrightarrow> (\<forall>gp \<in> set apps. P (snd gp) (ps_apps s (fst gp)))"

lemma all_apps_other [simp]:
  "all_apps P apps (s\<lparr>ps_wg := n\<rparr>) = all_apps P apps s"
  "all_apps P apps (s\<lparr>ps_consumer := x\<rparr>) = all_apps P apps s"
  "all_apps P apps (s\<lparr>ps_msgChan := ms\<rparr>) = all_apps P apps s"
  "all_apps P apps (s\<lparr>ps_router := r\<rparr>) = all_apps P apps s"
  "all_apps P apps (s\<lparr>ps_world := w\<rparr>) = all_apps P apps s"
  "all_apps P apps (s\<lparr>ps_dropped := d\<rparr>) = all_apps P apps s"
  "all_apps P apps (s\<lparr>ps_ctx_done := b\<rparr>) = all_apps P apps s"
  "all_apps P apps (s\<lparr>ps_phase := ph\<rparr>) = all_apps P apps s"
  "all_apps P apps (s\<lparr>ps_panicked := b\<rparr>) = all_apps P apps s"
  "all_apps P apps (wg_Done k s) = all_apps P apps s"
  by (simp_all add: all_apps_def)

lemma all_apps_update:
  assumes "distinct (map fst apps)" "map_of apps g = Some p" "all_apps P apps s" "P p b"
  shows "all_apps P apps (s\<lparr>ps_apps := (ps_apps s)(g := b)\<rparr>)"
  unfolding all_apps_def
proof
  fix gp assume gp: "gp \<in> set apps"
  then have "map_of apps (fst gp) = Some (snd gp)" using assms(1) map_of_is_SomeI [of apps "fst gp" "snd gp"] by simp
  with assms(2) have "fst gp = g \<Longrightarrow> snd gp = p" by auto
  with gp assms(3,4) show "P (snd gp) (ps_apps (s\<lparr>ps_apps := (ps_apps s)(g := b)\<rparr>) (fst gp))" by (auto simp: all_apps_def)
qed

lemma all_appsD: "all_apps P apps s \<Longrightarrow> map_of apps g = Some p \<Longrightarrow> P p (ps_apps s g)"
  by (auto simp: all_apps_def dest!: map_of_SomeD)

section \<open>The interface\<close>

locale exit_laws = resting_app_laws +
  fixes good :: "'a \<Rightarrow> 'e \<Rightarrow> bool"
  assumes good_rests: "good p b \<Longrightarrow> \<not> stuck p b \<and> gone p b = 0"
    and good_moves: "valid p \<Longrightarrow> sized p \<Longrightarrow> ok p b \<Longrightarrow> good p b \<Longrightarrow> ak_step K p b k b'
      \<Longrightarrow> \<exists>k b'. ak_step K p b k b' \<and> good p b'"
    and good_put: "valid p \<Longrightarrow> ok p b \<Longrightarrow> good p b \<Longrightarrow> fresh n \<Longrightarrow> held p b = 0 \<Longrightarrow> good p (ak_put K p n b)"
    and bad_moves: "valid p \<Longrightarrow> ok p b \<Longrightarrow> \<not> good p b \<Longrightarrow> ak_step K p b k b' \<Longrightarrow> \<not> good p b'"
    and bad_put: "valid p \<Longrightarrow> ok p b \<Longrightarrow> \<not> good p b \<Longrightarrow> ak_room K p b \<Longrightarrow> \<not> good p (ak_put K p n b)"
    and bad_held: "valid p \<Longrightarrow> ok p b \<Longrightarrow> \<not> good p b \<Longrightarrow> 0 < held p b"
begin

text \<open>From a good state in the wait there is a step to a good one, and it is neither the time-out nor a panic.\<close>

lemma good_step:
  assumes "\<forall>gp \<in> set apps. valid (snd gp) \<and> sized (snd gp)" "distinct (map fst apps)" "pc_hasWG c" "0 < pc_msgChan_size c"
    and "pusher_inv ok fresh held apps s" "alive s" "ps_phase s \<in> {In_wait, Asleep, Woken}" "all_apps good apps s" "ps_dropped s = 0"
    and no_drop: "\<And>t. pusher_step K apps c s t \<Longrightarrow> ps_dropped t = 0"
  shows "\<exists>t. pusher_step K apps c s t \<and> all_apps good apps t \<and> ps_phase t \<in> {In_wait, Asleep, Woken, Zero_seen} \<and> \<not> ps_panicked t"
proof (cases "\<exists>g p k b. map_of apps g = Some p \<and> ak_step K p (ps_apps s g) k b")
  case True
  then obtain g p where p: "map_of apps g = Some p" "\<exists>k b. ak_step K p (ps_apps s g) k b" by blast
  have "valid p" "sized p" "ok p (ps_apps s g)" "good p (ps_apps s g)"
    using assms(1,5) all_appsD [OF assms(8) p(1)] p(1) map_of_SomeD [OF p(1)] by (auto simp: pusher_inv_def)
  with p(2) obtain k b where b: "ak_step K p (ps_apps s g) k b" "good p b" using good_moves by blast
  have "\<not> ps_wg s < k"
    using settles_held(3) [OF \<open>valid p\<close> p(1) assms(5) b(1)] assms(6) by (simp add: alive_def)
  then show ?thesis
    using app_step [OF assms(6) p(1) b(1), of c] all_apps_update [OF assms(2) p(1) assms(8), of b] b(2) assms(7)
    by (intro exI [of _ "wg_Done k (s\<lparr>ps_apps := (ps_apps s)(g := b)\<rparr>)"]) auto
next
  case False
  have rest: "ak_room K p (ps_apps s g) \<and> held p (ps_apps s g) = 0 \<and> valid p \<and> ok p (ps_apps s g)"
    if "map_of apps g = Some p" for g p
  proof -
    have "valid p" "sized p" "ok p (ps_apps s g)"
      using assms(1,5) that map_of_SomeD [OF that] by (auto simp: pusher_inv_def)
    then show ?thesis using rests [of p "ps_apps s g"] False that good_rests [OF all_appsD [OF assms(8) that]] by metis
  qed
  show ?thesis
  proof (cases "ps_router s")
    case (Some gn)
    obtain g n where gn: "gn = (g, n)" by (cases gn)
    with Some assms(5) obtain p where p: "map_of apps g = Some p" "fresh n" by (auto simp: pusher_inv_def)
    have "good p (ak_put K p n (ps_apps s g))"
      using good_put rest [OF p(1)] all_appsD [OF assms(8) p(1)] p(2) by blast
    then show ?thesis
      using hands_over [OF assms(6) _ p(1), of n K c] Some gn rest [OF p(1)] assms(7)
        all_apps_update [OF assms(2) p(1) assms(8), of "ak_put K p n (ps_apps s g)"]
      by (intro exI [of _ "s\<lparr>ps_router := None, ps_apps := (ps_apps s)(g := ak_put K p n (ps_apps s g))\<rparr>"])
        (use assms(6) in \<open>auto simp: all_apps_def alive_def\<close>)
  next
    case no_router: None
    show ?thesis
    proof (cases "ps_msgChan s")
      case (Cons m ms)
      show ?thesis
      proof (cases "map_of apps (km_Game m)")
        case None
        from no_drop [OF route_drops [OF assms(6) no_router Cons None]] show ?thesis by simp
      next
        case (Some p)
        fix e
        obtain es w where es: "ak_handle K p e m (ps_world s) = (es, w)" by fastforce
        note step = route_handles [OF assms(6) no_router Cons Some es, of c]
        have "valid p" using assms(1) map_of_SomeD [OF Some] by auto
        from handled_one(1) [OF this es] have "int (dones es) \<le> ps_wg s"
          using assms(5,6) Cons by (simp add: pusher_inv_def pusher_front_def alive_def)
        then show ?thesis using step assms(7,8) by (intro exI conjI) (assumption, auto)
      qed
    next
      case empty: Nil
      show ?thesis
      proof (cases "ps_consumer s")
        case At_select
        moreover have "stop_requested s" using assms(7) by (auto simp: stop_requested_def)
        ultimately show ?thesis
          using returns [OF assms(6), of K apps c] assms(6-8)
          by (intro exI [of _ "s\<lparr>ps_consumer := Consumer_returned\<rparr>"]) (auto simp: alive_def)
      next
        case Reading
        from read_nothing [OF assms(6) this, of K apps c] show ?thesis
          using assms(6-8) by (intro exI conjI) (assumption, auto simp: alive_def)
      next
        case (Received m)
        have "length (ps_msgChan s) < pc_msgChan_size c" using assms(4) empty by simp
        from sends [OF assms(6) Received this, of K apps] show ?thesis
          using assms(6-8) by (intro exI conjI) (assumption, auto simp: alive_def)
      next
        case Consumer_returned
        have "over_apps held apps s = 0"
          unfolding over_apps_def using rest assms(2) by (auto simp: map_of_eq_Some_iff)
        then have zero: "ps_wg s = 0"
          using assms(5,6,9) Consumer_returned empty no_router by (simp add: pusher_inv_def pusher_front_def alive_def consumer_load_def)
        then have "ps_phase s \<in> {In_wait, Woken}" using assms(5-7) by (auto simp: pusher_inv_def alive_def)
        from wait_over [OF assms(6) this assms(3) zero, of K apps] show ?thesis
          using assms(6,8) by (intro exI conjI) (assumption, simp_all add: alive_def)
      qed
    qed
  qed
qed

text \<open>So from a good state in the wait there is a run to an exit without a time-out.\<close>

lemma good_exits:
  assumes "\<forall>gp \<in> set apps. valid (snd gp) \<and> sized (snd gp)" "distinct (map fst apps)" "pc_hasWG c" "0 < pc_msgChan_size c"
    and lead: "\<And>m. pc_subscribed c m \<Longrightarrow> \<exists>x. push_receiveMessage m = Some x \<and> map_of apps (km_Game x) \<noteq> None"
    and "pusher_reach K apps c w s" "ps_phase s \<in> {In_wait, Asleep, Woken}" "\<not> ps_panicked s" "all_apps good apps s"
  shows "\<exists>t. (pusher_step K apps c)\<^sup>*\<^sup>* s t \<and> ps_phase t = Exited False"
  using assms(6-9)
proof (induction "pusher_potential entry pot apps s" arbitrary: s rule: less_induct)
  case less
  have valid: "\<forall>gp \<in> set apps. valid (snd gp)" using assms(1) by simp
  note inv = inv_reach [OF valid assms(2,3) less.prems(1)]
  have alive: "alive s" using less.prems(2,3) by (auto simp: alive_def)
  have dropped: "ps_dropped t = 0" if "pusher_reach K apps c w t" for t
    by (rule nothing_dropped [OF _ that]) (use lead in fastforce)
  have no_drop: "ps_dropped t = 0" if "pusher_step K apps c s t" for t
    by (rule dropped [OF pusher_reach.step [OF less.prems(1) that]])
  obtain t where t: "pusher_step K apps c s t" "all_apps good apps t" "ps_phase t \<in> {In_wait, Asleep, Woken, Zero_seen}" "\<not> ps_panicked t"
    using good_step [OF assms(1-4) inv alive less.prems(2,4) dropped [OF less.prems(1)] no_drop] by blast
  note reach = pusher_reach.step [OF less.prems(1) t(1)]
  show ?case
  proof (cases "ps_phase t = Zero_seen")
    case False
    then have on: "ps_phase t \<in> {In_wait, Asleep, Woken}" using t(3) by blast
    have "stop_requested s" using less.prems(2) by (auto simp: stop_requested_def)
    from pusher_potential_decreases [OF valid assms(2) t(1) inv this] less.hyps [OF _ reach on t(4,2)] t(1)
    show ?thesis by (meson converse_rtranclp_into_rtranclp)
  next
    case True
    then have "pusher_step K apps c t (t\<lparr>ps_phase := Exited False\<rparr>)" using exits [of t] t(4) by (simp add: alive_def)
    with t(1) have "(pusher_step K apps c)\<^sup>*\<^sup>* s (t\<lparr>ps_phase := Exited False\<rparr>)"
      by (meson converse_rtranclp_into_rtranclp r_into_rtranclp)
    then show ?thesis by (intro exI [of _ "t\<lparr>ps_phase := Exited False\<rparr>"]) simp
  qed
qed

text \<open>And where one app is not good, none ever is again, and the wait group is never seen at zero.\<close>

lemma bad_step:
  assumes "\<forall>gp \<in> set apps. valid (snd gp)" "distinct (map fst apps)" "pc_hasWG c"
    and "pusher_step K apps c s t" "pusher_inv ok fresh held apps s" "map_of apps g = Some p" "\<not> good p (ps_apps s g)"
    and "\<not> zero_seen s"
  shows "\<not> good p (ps_apps t g) \<and> \<not> zero_seen t"
proof -
  have p: "valid p" "ok p (ps_apps s g)" using assms(1,5,6) map_of_SomeD [OF assms(6)] by (auto simp: pusher_inv_def)
  have "0 < held p (ps_apps s g)" using bad_held [OF p assms(7)] .
  moreover have "held p (ps_apps s g) \<le> over_apps held apps s"
    unfolding over_apps_def using map_of_SomeD [OF assms(6)] by (intro member_le_sum_list) force+
  ultimately have "\<not> ps_panicked s \<Longrightarrow> 0 < ps_wg s" using assms(5) by (auto simp: pusher_inv_def)
  from assms(4) show ?thesis
  proof (cases rule: pusher_step.cases)
    case (hands_over g' n p')
    then show ?thesis
      using bad_put [OF p assms(7)] assms(6-8) by (cases "g' = g") (auto simp: zero_seen_def)
  next
    case (app_step g' p' k b)
    then show ?thesis
      using bad_moves [OF p assms(7)] assms(6-8) by (cases "g' = g") (auto simp: zero_seen_def)
  next
    case (GracefulShutdown ph)
    then show ?thesis
      using assms(3,7,8) \<open>\<not> ps_panicked s \<Longrightarrow> 0 < ps_wg s\<close> by (auto simp: zero_seen_def alive_def split: if_splits)
  qed (use assms(7,8) in \<open>auto simp: zero_seen_def\<close>)
qed

lemma bad_run:
  assumes "\<forall>gp \<in> set apps. valid (snd gp)" "distinct (map fst apps)" "pc_hasWG c"
    and "(pusher_step K apps c)\<^sup>*\<^sup>* s t" "pusher_inv ok fresh held apps s" "map_of apps g = Some p" "\<not> good p (ps_apps s g)"
    and "\<not> zero_seen s"
  shows "\<not> zero_seen t"
proof -
  have "pusher_inv ok fresh held apps t \<and> \<not> good p (ps_apps t g) \<and> \<not> zero_seen t"
    using assms(4)
  proof (induction rule: rtranclp_induct)
    case (step t u)
    then show ?case using inv_step [OF assms(1-3)] bad_step [OF assms(1-3) step(2) _ assms(6)] by blast
  qed (use assms(5,7,8) in simp)
  then show ?thesis by simp
qed

text \<open>Until the wait is over, an exit without a time-out can be reached exactly from the good states.\<close>

lemma exit_iff:
  assumes "\<forall>gp \<in> set apps. valid (snd gp) \<and> sized (snd gp)" "distinct (map fst apps)" "pc_hasWG c" "0 < pc_msgChan_size c"
    and lead: "\<And>m. pc_subscribed c m \<Longrightarrow> \<exists>x. push_receiveMessage m = Some x \<and> map_of apps (km_Game x) \<noteq> None"
    and "pusher_reach K apps c w s" "alive s" "ps_phase s \<noteq> Zero_seen"
  shows "(\<exists>t. (pusher_step K apps c)\<^sup>*\<^sup>* s t \<and> ps_phase t = Exited False) \<longleftrightarrow> all_apps good apps s"
proof
  assume good: "all_apps good apps s"
  note alive = assms(7)
  obtain u where u: "(pusher_step K apps c)\<^sup>*\<^sup>* s u" "ps_phase u \<in> {In_wait, Asleep, Woken}" "\<not> ps_panicked u" "all_apps good apps u"
  proof (cases "ps_phase s")
    case Up
    let ?t = "s\<lparr>ps_phase := Told\<rparr>"
    have "pusher_step K apps c s ?t" using alive Up by (rule told)
    moreover have "pusher_step K apps c ?t (?t\<lparr>ps_phase := In_wait\<rparr>)" using alive by (intro StopConsuming) (simp_all add: alive_def)
    ultimately have "(pusher_step K apps c)\<^sup>*\<^sup>* s (?t\<lparr>ps_phase := In_wait\<rparr>)"
      by (meson converse_rtranclp_into_rtranclp r_into_rtranclp)
    then show ?thesis by (rule that) (use good alive in \<open>simp_all add: alive_def\<close>)
  next
    case Told
    then show ?thesis
      using that [OF r_into_rtranclp [of "pusher_step K apps c", OF StopConsuming [OF alive Told]]] good alive by (simp add: alive_def)
  qed (use that [of s] good alive assms(8) in \<open>auto simp: alive_def\<close>)
  obtain t where "(pusher_step K apps c)\<^sup>*\<^sup>* u t" "ps_phase t = Exited False"
    using good_exits [OF assms(1-4) lead reach_run [OF assms(6) u(1)] u(2-4)] by blast
  with u(1) show "\<exists>t. (pusher_step K apps c)\<^sup>*\<^sup>* s t \<and> ps_phase t = Exited False" by (meson rtranclp_trans)
next
  assume "\<exists>t. (pusher_step K apps c)\<^sup>*\<^sup>* s t \<and> ps_phase t = Exited False"
  then obtain t where t: "(pusher_step K apps c)\<^sup>*\<^sup>* s t" "zero_seen t" by (auto simp: zero_seen_def)
  have valid: "\<forall>gp \<in> set apps. valid (snd gp)" using assms(1) by simp
  have "\<not> zero_seen s" using assms(7,8) by (auto simp: zero_seen_def alive_def)
  then have "good p (ps_apps s g)" if "map_of apps g = Some p" for g p
    using bad_run [OF valid assms(2,3) t(1) inv_reach [OF valid assms(2,3,6)] that] t(2) by blast
  moreover have "map_of apps (fst gp) = Some (snd gp)" if "gp \<in> set apps" for gp
    using assms(2) that map_of_is_SomeI [of apps "fst gp" "snd gp"] by simp
  ultimately show "all_apps good apps s" by (simp add: all_apps_def)
qed

end

end
