(* ===== verification/Graceful_Exit.thy ===== *)
theory Graceful_Exit
  imports Shutdown Pusher_Exit
begin

text \<open>
  The interface of \<open>Pusher_Exit\<close> for both kinds of apps.  An FCM app is always good.  An APNS app is good
  until a push of it has got no response (\<open>pushWorker\<close> of \<^verbatim>\<open>extensions/apns/apns_push_queue.go\<close>) or it is
  sealed, which is some steps before the retry deadlock: the handler of responses waits to push a retry
  into a full channel, no worker will take from it before it has sent a response, and there is no room for one.
\<close>

section \<open>Sealed pipelines\<close>

definition sealed :: "capacities \<Rightarrow> 'w pipeline \<Rightarrow> bool" where
  "sealed c s \<longleftrightarrow> retrier s \<noteq> None \<and> pushQueueSize c \<le> length (pushChannel s) \<and> Waiting \<notin> set (workers s)
     \<and> responseChannelSize c \<le> length (responseChannel s)"

lemma sealed_deadlock: "retry_deadlock c s \<Longrightarrow> sealed c s"
  by (auto simp: sealed_def retry_deadlock_def list_all_iff)

lemma lost_mono: "pipe_step F D MJ rc a c s t \<Longrightarrow> lost s \<le> lost t"
  by (cases rule: pipe_step.cases) auto

lemma sealed_stays:
  assumes "pipe_step F D MJ rc a c s t" "sealed c s"
  shows "sealed c t \<or> lost s < lost t"
  using assms(1)
proof (cases rule: pipe_step.cases)
  case (worker_takes i n ns)
  then have "Waiting \<in> set (workers s)" using nth_mem [of i "workers s"] by simp
  with assms(2) show ?thesis by (simp add: sealed_def)
next
  case (worker_gets_client i n)
  have "Waiting \<notin> set ((workers s)[i := Sending n])"
    using set_update_subset_insert [of "workers s" i "Sending n"] assms(2) by (auto simp: sealed_def)
  with worker_gets_client assms(2) show ?thesis by (simp add: sealed_def)
next
  case (worker_sent i n res)
  show ?thesis
  proof (cases res)
    case (Some r)
    have "Waiting \<notin> set ((workers s)[i := Replying (worker_response n r)])"
      using set_update_subset_insert [of "workers s" i "Replying (worker_response n r)"] assms(2) by (auto simp: sealed_def)
    with worker_sent assms(2) Some show ?thesis by (simp add: sealed_def)
  qed (use worker_sent in simp)
qed (use assms(2) in \<open>auto simp: sealed_def\<close>)

text \<open>
  A pipeline that is not sealed can always go on, and stay like that, without the loss of a push, as long as APNS answers,
  whatever it answers.
\<close>

lemma worker_goes_on:
  assumes "i < length (workers s)" "workers s ! i \<noteq> Waiting" "0 < connectionPoolSize c"
    and "length (responseChannel s) < responseChannelSize c \<or> retrier s = None \<and> (\<forall>r. workers s ! i \<noteq> Replying r)"
  shows "\<exists>t. pipe_step F D MJ rc a c s t \<and> \<not> sealed c t \<and> lost t = lost s"
proof (cases "workers s ! i")
  case (Taking_client n)
  show ?thesis
    by (rule exI, rule conjI, rule worker_gets_client [OF assms(1) Taking_client assms(3)])
      (use assms(4) in \<open>auto simp: sealed_def\<close>)
next
  case (Sending n)
  show ?thesis
    by (rule exI, rule conjI, rule worker_sent [OF assms(1) Sending, where res = "Some undefined"])
      (use assms(4) in \<open>auto simp: sealed_def\<close>)
next
  case (Replying r)
  with assms(4) have "length (responseChannel s) < responseChannelSize c" by simp
  from worker_replies [OF assms(1) Replying this] show ?thesis
    using set_update_memI [OF assms(1), of Waiting] by (intro exI conjI) (assumption, simp_all add: sealed_def)
qed (use assms(2) in simp)

lemma unsealed_goes_on:
  assumes "apns_ok p s" "apns_sized p" "\<not> sealed (snd p) s" "0 < in_flight s"
  shows "\<exists>t. pipe_step F D MJ rc (fst p) (snd p) s t \<and> \<not> sealed (snd p) t \<and> lost t = lost s"
proof -
  have size: "0 < pushQueueSize (snd p)" "0 < responseChannelSize (snd p)" "0 < connectionPoolSize (snd p)" "workers s \<noteq> []"
    using assms(1,2) by (auto simp: apns_sized_def apns_ok_def)
  have room: "length (pushChannel s) \<le> pushQueueSize (snd p)" "length (responseChannel s) \<le> responseChannelSize (snd p)"
    using assms(1) by (simp_all add: apns_ok_def)
  have takes: ?thesis if w: "Waiting \<in> set (workers s)" "pushChannel s \<noteq> []"
  proof -
    obtain i where i: "i < length (workers s)" "workers s ! i = Waiting" using w(1) unfolding in_set_conv_nth by blast
    obtain n ns where ns: "pushChannel s = n # ns" using w(2) by (cases "pushChannel s") auto
    show ?thesis
      by (rule exI, rule conjI, rule worker_takes [OF i ns]) (use room(1) ns in \<open>simp add: sealed_def\<close>)
  qed
  show ?thesis
  proof (cases "retrier s")
    case (Some n)
    consider "length (pushChannel s) < pushQueueSize (snd p)" | "pushQueueSize (snd p) \<le> length (pushChannel s)" "Waiting \<in> set (workers s)"
      | "Waiting \<notin> set (workers s)" "length (responseChannel s) < responseChannelSize (snd p)"
      using assms(3) Some by (fastforce simp: sealed_def)
    then show ?thesis
    proof cases
      case 1
      show ?thesis by (rule exI, rule conjI, rule retrier_pushes [OF Some 1]) (simp add: sealed_def)
    next
      case 2
      then have "pushChannel s \<noteq> []" using size(1) by auto
      with 2(2) show ?thesis by (rule takes)
    next
      case 3
      have "workers s ! 0 \<noteq> Waiting" using 3(1) nth_mem [of 0 "workers s"] size(4) by (auto simp del: nth_mem)
      then show ?thesis using worker_goes_on [of 0 s "snd p"] size(3,4) 3(2) by blast
    qed
  next
    case None
    show ?thesis
    proof (cases "responseChannel s")
      case (Cons r rs)
      from pipe_step.response_handled [OF None this refl, of F D MJ rc "fst p" "snd p"] show ?thesis
        using room(2) Cons by (intro exI conjI) (assumption, simp_all add: sealed_def)
    next
      case Nil
      show ?thesis
      proof (cases "set (workers s) \<subseteq> {Waiting}")
        case True
        then have "\<forall>x \<in> set (map (worker_load (\<lambda>_ _. 1)) (workers s)). x = 0" by auto
        then have "sum_list (map (worker_load (\<lambda>_ _. 1)) (workers s)) = 0" by (simp only: sum_list_eq_0_iff)
        then have "pushChannel s \<noteq> []"
          using assms(1,4) None Nil by (auto simp: in_flight_def load_def apns_ok_def simp del: sum_list_eq_0_iff)
        moreover have "Waiting \<in> set (workers s)" using True size(4) by (cases "workers s") auto
        ultimately show ?thesis by (rule takes [rotated])
      next
        case False
        then obtain x where x: "x \<in> set (workers s)" "x \<noteq> Waiting" by blast
        then obtain i where "i < length (workers s)" "workers s ! i \<noteq> Waiting" unfolding in_set_conv_nth by blast
        then show ?thesis using worker_goes_on [of i s "snd p"] size(2,3) Nil by auto
      qed
    qed
  qed
qed

section \<open>Good apps\<close>

definition apns_good :: "apns_part \<Rightarrow> unit pipeline \<Rightarrow> bool" where
  "apns_good p b \<longleftrightarrow> lost b = 0 \<and> \<not> sealed (snd p) b"

lemma in_flight_retrier: "retrier b \<noteq> None \<Longrightarrow> 0 < in_flight b"
  by (auto simp: in_flight_def load_def)

interpretation apns_exit: exit_laws "apns_kind F D MJ rc" apns_valid apns_ok apns_fresh apns_held apns_pot apns_entry
    apns_sized "\<lambda>p. lost" "\<lambda>p. retry_deadlock (snd p)" apns_good for F D MJ rc
proof unfold_locales
  fix p :: apns_part and b b' :: "unit pipeline" and n k
  show "\<not> retry_deadlock (snd p) b \<and> lost b = 0" if "apns_good p b"
    using that sealed_deadlock by (auto simp: apns_good_def)
  show "\<exists>k b'. ak_step (apns_kind F D MJ rc) p b k b' \<and> apns_good p b'"
    if "apns_ok p b" "apns_sized p" "apns_good p b" "ak_step (apns_kind F D MJ rc) p b k b'"
  proof -
    have "0 < in_flight b"
      using nothing_moves [of b] that(4) by (cases "in_flight b") (auto simp: apns_kind_def)
    from unsealed_goes_on [OF that(1,2) _ this] that(3) show ?thesis
      by (fastforce simp: apns_kind_def apns_good_def)
  qed
  show "apns_good p (ak_put (apns_kind F D MJ rc) p n b)" if "apns_good p b" "apns_held p b = 0"
    using that in_flight_retrier [of b] by (auto simp: apns_good_def apns_kind_def apns_held_def sealed_def)
  show "\<not> apns_good p b'" if "\<not> apns_good p b" "ak_step (apns_kind F D MJ rc) p b k b'"
    using that sealed_stays [of F free_services MJ rc "fst p" "snd p" b b'] lost_mono [of F free_services MJ rc "fst p" "snd p" b b']
    by (auto simp: apns_good_def apns_kind_def)
  show "\<not> apns_good p (ak_put (apns_kind F D MJ rc) p n b)" if "\<not> apns_good p b" "ak_room (apns_kind F D MJ rc) p b"
    using that by (auto simp: apns_good_def apns_kind_def sealed_def)
  show "0 < apns_held p b" if "\<not> apns_good p b"
    using that in_flight_retrier [of b] by (auto simp: apns_good_def apns_held_def sealed_def)
qed

interpretation fcm_exit: exit_laws "fcm_kind F D" fcm_valid fcm_ok "\<lambda>_. True" "\<lambda>p. fcm_in_flight" "\<lambda>p. fcm_potential"
    "\<lambda>p. 3" fcm_sized "\<lambda>p b. 0" "\<lambda>p b. False" "\<lambda>p b. True" for F D
  by unfold_locales auto

end
