(* ===== verification/Service.thy ===== *)
theory Service
  imports Startup Graceful_Exit
begin

text \<open>
  A pusher from its configuration to its exit: what \<open>Startup\<close> makes is what \<open>Shutdown\<close> runs.  A pusher
  that subscribes to the topics of its apps only reads and routes every message, so it drops none;
  for FCM every shutdown can finish without its time-out, and for APNS it is said exactly when one can.
\<close>

section \<open>From the started pusher to the running one\<close>

definition run_config_of :: "'h pusher \<Rightarrow> run_config" where
  "run_config_of p =
     \<lparr>pc_msgChan_size = nat (int_of (c_ChannelSize (ps_Queue p))),
      pc_hasWG = c_HandleAllMessagesBeforeExiting (ps_Queue p),
      pc_subscribed = (\<lambda>m. fm_Topic m \<in> set (c_Topics (ps_Queue p)))\<rparr>"

definition apns_parts :: "apns_app pusher \<Rightarrow> (string \<times> apns_part) list" where
  "apns_parts p = map (\<lambda>(g, x). (g, aa_handler x,
     \<lparr>msgChan_size = nat (int_of (c_ChannelSize (ps_Queue p))), pushQueueSize = pq_pushChannel_size (aa_queue x),
      responseChannelSize = pq_responseChannel_size (aa_queue x), concurrentWorkers = pq_workers (aa_queue x),
      connectionPoolSize = length (pq_clients (aa_queue x))\<rparr>)) (ps_MessageHandler p)"

definition fcm_parts :: "fcm_app pusher \<Rightarrow> (string \<times> fcm_part) list" where
  "fcm_parts p = map (\<lambda>(g, x). (g, fa_handler x,
     \<lparr>f_msgChan_size = nat (int_of (c_ChannelSize (ps_Queue p))), f_concurrentWorkers = fa_concurrentWorkers x\<rparr>)) (ps_MessageHandler p)"

lemma map_of_parts:
  "map_of (apns_parts p) g \<noteq> None \<longleftrightarrow> map_of (ps_MessageHandler p) g \<noteq> None"
  "map_of (fcm_parts q) g \<noteq> None \<longleftrightarrow> map_of (ps_MessageHandler q) g \<noteq> None"
  by (force simp: apns_parts_def fcm_parts_def map_of_eq_None_iff)+

lemma parts_keys:
  "map fst (apns_parts p) = map fst (ps_MessageHandler p)" "map fst (fcm_parts q) = map fst (ps_MessageHandler q)"
  by (auto simp: apns_parts_def fcm_parts_def)

lemma configure_apns_handlers_distinct:
  "configure_apns_handlers new rs ks m = Some (ev, Inr m') \<Longrightarrow> distinct (map fst m) \<Longrightarrow> distinct (map fst m')"
  by (induction ks arbitrary: m) (auto simp: distinct_update split: if_splits option.splits sum.splits)

lemma createMessageHandlerForApps_distinct:
  "createMessageHandlerForApps credentials new apps m = Some (Inr m') \<Longrightarrow> distinct (map fst m) \<Longrightarrow> distinct (map fst m')"
  by (induction apps arbitrary: m) (auto simp: distinct_update split: if_splits option.splits sum.splits)

lemma GetUint_bound: "int (GetUint v d k) < 2 ^ 63"
proof -
  have "int_of i < 2 ^ 63" for i using int_of_range [of i] by (simp add: in_int64_def)
  then have "nat (int_of i) < 2 ^ 63" for i by (cases "0 \<le> int_of i") (simp_all add: nat_less_iff)
  then show ?thesis by (auto simp: GetUint_def split: option.splits cval.splits)
qed

lemma apns_app_made:
  assumes "NewAPNSPusher L production cfg v queue = Some (ev, Inr p)" "map_of (ps_MessageHandler p) g = Some x"
  shows "\<exists>hasWG. new_apns_app L production v hasWG (ps_StatsReporters p) (ps_feedbackReporters p) queue g = Some (Inr x)"
proof -
  let ?apps = "GetApnsAppsArray (cfg_Apns_Apps cfg)"
  have "\<exists>q :: consumer_config. configure_apns_handlers (new_apns_app L production v (c_HandleAllMessagesBeforeExiting q)
       (ps_StatsReporters p) (ps_feedbackReporters p) queue) (ps_StatsReporters p) ?apps [] = Some (ev, Inr (ps_MessageHandler p))"
    by (rule NewAPNSPusher_started [OF assms(1)]) (rule exI, assumption)
  then obtain q :: consumer_config where handlers: "configure_apns_handlers (new_apns_app L production v (c_HandleAllMessagesBeforeExiting q)
       (ps_StatsReporters p) (ps_feedbackReporters p) queue) (ps_StatsReporters p) ?apps [] = Some (ev, Inr (ps_MessageHandler p))"
    (is "configure_apns_handlers ?new _ _ _ = _") by blast
  have "?apps \<noteq> []" by (simp add: GetApnsAppsArray_def trim_all_map split_comma_not_Nil)
  from configure_apns_handlers_cases [OF handlers] have all: "\<forall>k \<in> set ?apps. \<exists>h. ?new k = Some (Inr h)" by blast
  obtain m' where "configure_apns_handlers ?new (ps_StatsReporters p) ?apps [] = Some ([], Inr m')"
    "\<forall>k. map_of m' k = (if k \<in> set ?apps then Some (projr (the (?new k))) else map_of [] k)"
    using configure_apns_handlers_ok [OF all, of "[]" "ps_StatsReporters p"] \<open>?apps \<noteq> []\<close> by blast
  with handlers assms(2) have g: "g \<in> set ?apps" "x = projr (the (?new g))"
    by (auto split: if_split_asm)
  from g(1) all obtain h where "?new g = Some (Inr h)" by blast
  with g(2) have "?new g = Some (Inr x)" by simp
  then show ?thesis by blast
qed

lemma apns_retries:
  assumes "NewAPNSPusher L production cfg v queue = Some (ev, Inr p)" "map_of (ps_MessageHandler p) g = Some x"
  shows "int (h_maxRetryAttempts (aa_handler x)) < 2 ^ 63"
proof -
  obtain hasWG where "new_apns_app L production v hasWG (ps_StatsReporters p) (ps_feedbackReporters p) queue g = Some (Inr x)"
    using apns_app_made [OF assms] by blast
  then have "h_maxRetryAttempts (aa_handler x) = GetUint v apns_handler_defaults ''apns.retry.maxRetryAttempts''"
    by (auto simp: new_apns_app_def NewAPNSMessageHandler_def Let_def split: option.splits)
  then show ?thesis by (simp only: GetUint_bound)
qed

text \<open>Room for one everywhere in the queues of the apps, and a worker: what the configuration has to say for that.\<close>

definition apns_room :: "viper \<Rightarrow> bool" where
  "apns_room v \<longleftrightarrow> list_all (\<lambda>k. 0 < int_of (GetInt v (push_queue_defaults @ apns_handler_defaults) k))
     [''apns.connectionPoolSize'', ''apns.pushQueueSize'', ''apns.responseChannelSize'', ''apns.concurrentWorkers'']"

lemma apns_distinct: "NewAPNSPusher L production cfg v queue = Some (ev, Inr p) \<Longrightarrow> distinct (map fst (apns_parts p))"
  and gcm_distinct: "NewGCMPusher F L cfg v = Some (Inr q) \<Longrightarrow> distinct (map fst (fcm_parts q))"
proof -
  show "distinct (map fst (apns_parts p))" if "NewAPNSPusher L production cfg v queue = Some (ev, Inr p)"
    unfolding parts_keys by (rule NewAPNSPusher_started [OF that], erule configure_apns_handlers_distinct) simp
  show "distinct (map fst (fcm_parts q))" if "NewGCMPusher F L cfg v = Some (Inr q)"
    unfolding parts_keys by (rule NewGCMPusher_started [OF that], erule createMessageHandlerForApps_distinct) simp
qed

lemma apns_started_valid:
  assumes "NewAPNSPusher L production cfg v queue = Some (ev, Inr p)" "\<forall>a \<in> set (GetApnsAppsArray (cfg_Apns_Apps cfg)). game_ok a"
    and "c_HandleAllMessagesBeforeExiting (ps_Queue p)"
  shows "\<forall>gp \<in> set (apns_parts p). apns_valid (snd gp)"
proof
  fix gp assume "gp \<in> set (apns_parts p)"
  then obtain g x where x: "(g, x) \<in> set (ps_MessageHandler p)" "fst (snd gp) = aa_handler x" by (auto simp: apns_parts_def)
  have "distinct (map fst (ps_MessageHandler p))" using apns_distinct [OF assms(1)] unfolding parts_keys .
  with x(1) have m: "map_of (ps_MessageHandler p) g = Some x" by simp
  have "case map_of (ps_MessageHandler p) g of None \<Rightarrow> True | Some x \<Rightarrow> h_hasWG (aa_handler x)"
    using apns_pusher_made [OF assms(1,2), THEN conjunct2, THEN conjunct1, THEN spec, of g] assms(3) m by simp
  with m x(2) apns_retries [OF assms(1) m] show "apns_valid (snd gp)" by (simp add: apns_valid_def)
qed

lemma message_eta: "\<lparr>fm_Topic = fm_Topic fm, fm_Value = fm_Value fm\<rparr> = fm"
  by (cases fm) simp

lemma apns_started_sized:
  assumes "NewAPNSPusher L production cfg v None = Some (ev, Inr p)" "apns_room v"
  shows "\<forall>gp \<in> set (apns_parts p). apns_sized (snd gp)"
proof
  fix gp assume "gp \<in> set (apns_parts p)"
  then obtain g x where x: "(g, x) \<in> set (ps_MessageHandler p)" "pushQueueSize (snd (snd gp)) = pq_pushChannel_size (aa_queue x)"
    "responseChannelSize (snd (snd gp)) = pq_responseChannel_size (aa_queue x)" "concurrentWorkers (snd (snd gp)) = pq_workers (aa_queue x)"
    "connectionPoolSize (snd (snd gp)) = length (pq_clients (aa_queue x))"
    by (auto simp: apns_parts_def)
  have "distinct (map fst (ps_MessageHandler p))" using apns_distinct [OF assms(1)] unfolding parts_keys .
  with x(1) have "map_of (ps_MessageHandler p) g = Some x" by simp
  from apns_app_made [OF assms(1) this] obtain hasWG
    where "new_apns_app L production v hasWG (ps_StatsReporters p) (ps_feedbackReporters p) None g = Some (Inr x)" by blast
  then have "0 < pq_pushChannel_size (aa_queue x) \<and> 0 < pq_responseChannel_size (aa_queue x)
      \<and> 0 < pq_workers (aa_queue x) \<and> 0 < length (pq_clients (aa_queue x))"
    using assms(2)
    by (auto simp: new_apns_app_def NewAPNSMessageHandler_def Let_def configure_push_queue_def apns_room_def make_size_def
        split: sum.splits option.splits if_splits)
  with x(2-5) show "apns_sized (snd gp)" by (simp add: apns_sized_def)
qed

lemma apns_topics_lead:
  assumes "NewAPNSPusher L production cfg v queue = Some (ev, Inr p)" "\<forall>a \<in> set (GetApnsAppsArray (cfg_Apns_Apps cfg)). game_ok a"
    and "c_Topics (configure_consumer v) = []" "pc_subscribed (run_config_of p) fm"
  shows "\<exists>m. push_receiveMessage fm = Some m \<and> map_of (apns_parts p) (km_Game m) \<noteq> None"
proof -
  have "fm_Topic fm \<in> set (c_Topics (ps_Queue p))" using assms(4) by (simp add: run_config_of_def)
  from apns_pusher_made [OF assms(1,2), of "fm_Value fm", THEN conjunct2, THEN conjunct2, THEN bspec, OF this] assms(3)
  show ?thesis unfolding map_of_parts message_eta by auto
qed

lemma gcm_topics_lead:
  assumes "NewGCMPusher F L cfg v = Some (Inr p)" "\<forall>a \<in> set (GetGcmAppsArray (cfg_GCM_Apps cfg)). game_ok a"
    and "c_Topics (configure_consumer v) = []" "pc_subscribed (run_config_of p) fm"
  shows "\<exists>m. push_receiveMessage fm = Some m \<and> map_of (fcm_parts p) (km_Game m) \<noteq> None"
proof -
  have "fm_Topic fm \<in> set (c_Topics (ps_Queue p))" using assms(4) by (simp add: run_config_of_def)
  from gcm_pusher_made [OF assms(1,2), of "fm_Value fm", THEN conjunct2, THEN bspec, OF this] assms(3)
  show ?thesis unfolding map_of_parts message_eta by auto
qed

lemma gcm_started_valid:
  assumes "NewGCMPusher F L cfg v = Some (Inr p)" "\<forall>a \<in> set (GetGcmAppsArray (cfg_GCM_Apps cfg)). game_ok a"
    and "c_HandleAllMessagesBeforeExiting (ps_Queue p)" "0 < int_of (cfg_GCM_ConcurrentWorkers cfg)"
  shows "\<forall>gp \<in> set (fcm_parts p). fcm_valid (snd gp) \<and> fcm_sized (snd gp)"
proof
  fix gp assume "gp \<in> set (fcm_parts p)"
  then obtain g x where x: "(g, x) \<in> set (ps_MessageHandler p)" "fst (snd gp) = fa_handler x"
    "f_concurrentWorkers (snd (snd gp)) = fa_concurrentWorkers x" by (auto simp: fcm_parts_def)
  have "distinct (map fst (ps_MessageHandler p))" using gcm_distinct [OF assms(1)] unfolding parts_keys .
  with x(1) have m: "map_of (ps_MessageHandler p) g = Some x" by simp
  have "case map_of (ps_MessageHandler p) g of None \<Rightarrow> True
      | Some x \<Rightarrow> f_hasWG (fa_handler x) \<and> int (fa_concurrentWorkers x) = int_of (cfg_GCM_ConcurrentWorkers cfg)"
    using gcm_pusher_made [OF assms(1,2), THEN conjunct1, THEN spec, of g] assms(3) m by simp
  with m x(2,3) assms(4) show "fcm_valid (snd gp) \<and> fcm_sized (snd gp)" by (simp add: fcm_valid_def fcm_sized_def)
qed

section \<open>What a started pusher promises\<close>

text \<open>
  \<^bold>\<open>C5\<close>  An APNS pusher started from any configuration that names its apps properly and adds no topics of its
  own, whatever Kafka, APNS and its servers answer and however its goroutines interleave: it drops no message, and its wait
  group counts exactly the messages on their way and those whose push got no response.  It panics in one case only: its
  shutdown waits and has just been woken by the last \<open>Done\<close>, when the consumer, which was still reading as it was told
  to stop, counts up one more message.
\<close>

theorem apns_service_accounts:
  assumes "NewAPNSPusher L production cfg v queue = Some (ev, Inr p)" "\<forall>a \<in> set (GetApnsAppsArray (cfg_Apns_Apps cfg)). game_ok a"
    and "c_Topics (configure_consumer v) = []" "c_HandleAllMessagesBeforeExiting (ps_Queue p)"
    and "pusher_reach (apns_kind F D MJ rc) (apns_parts p) (run_config_of p) w s"
  shows "ps_dropped s = 0
    \<and> (if ps_panicked s then ps_phase s = Woken \<and> ps_wg s = 1
       else ps_wg s = int (pusher_front s + over_apps (\<lambda>q. in_flight) (apns_parts p) s + over_apps (\<lambda>q. lost) (apns_parts p) s))"
proof -
  note lead = apns_topics_lead [OF assms(1-3)]
  have wg: "pc_hasWG (run_config_of p)" using assms(4) by (simp add: run_config_of_def)
  note app = apns_started_valid [OF assms(1,2,4)] apns_distinct [OF assms(1)] wg
  have "ps_dropped s = 0"
    by (rule nothing_dropped [OF _ assms(5)]) (use lead in fastforce)
  moreover have "readable m" if "pc_subscribed (run_config_of p) m" for m
    using lead [OF that] receive_readable(1) by fastforce
  ultimately show ?thesis
    using apns_apps.inv_reach [OF app assms(5)] apns_apps.panics_woken [OF app _ assms(5)]
    by (auto simp: pusher_inv_def apns_held_sum)
qed

text \<open>
  \<^bold>\<open>C3\<close>  A GCM pusher started from any configuration that names its apps properly, adds no topics of its own, and has
  workers and room in its channel: from every state it can get into while it runs, it can be shut down without the
  time-out, so no message, app or response can hold it up for ever.
\<close>

theorem gcm_service_shuts_down:
  assumes "NewGCMPusher F' L cfg v = Some (Inr p)" "\<forall>a \<in> set (GetGcmAppsArray (cfg_GCM_Apps cfg)). game_ok a"
    and "c_Topics (configure_consumer v) = []" "c_HandleAllMessagesBeforeExiting (ps_Queue p)"
    and "0 < int_of (cfg_GCM_ConcurrentWorkers cfg)" "0 < int_of (c_ChannelSize (ps_Queue p))"
    and "pusher_reach (fcm_kind F D) (fcm_parts p) (run_config_of p) w s" "alive s"
  shows "\<exists>t. (pusher_step (fcm_kind F D) (fcm_parts p) (run_config_of p))\<^sup>*\<^sup>* s t \<and> ps_phase t = Exited False"
proof -
  let ?step = "pusher_step (fcm_kind F D) (fcm_parts p) (run_config_of p)"
  note lead = gcm_topics_lead [OF assms(1-3)]
  have c: "pc_hasWG (run_config_of p)" "0 < pc_msgChan_size (run_config_of p)"
    using assms(4,6) by (simp_all add: run_config_of_def)
  show ?thesis
  proof (cases "ps_phase s = Zero_seen")
    case True
    have "?step s (s\<lparr>ps_phase := Exited False\<rparr>)" using assms(8) True by (rule exits)
    then have "?step\<^sup>*\<^sup>* s (s\<lparr>ps_phase := Exited False\<rparr>)" by (rule r_into_rtranclp)
    then show ?thesis by (intro exI [of _ "s\<lparr>ps_phase := Exited False\<rparr>"]) simp
  next
    case False
    from fcm_exit.exit_iff [OF gcm_started_valid [OF assms(1,2,4,5)] gcm_distinct [OF assms(1)] c lead assms(7,8) False]
    show ?thesis by (simp add: all_apps_def)
  qed
qed

text \<open>
  \<^bold>\<open>C4\<close>  When an APNS pusher can be shut down: started from any configuration that names its apps properly, adds no
  topics of its own, and has room and a worker in the queues of its apps, it can, while it runs and its wait has not returned,
  get to an exit without the time-out, whatever its apps are doing, exactly as long as no push of any app has got no
  response and no app is sealed, which means that its retries, its workers and its responses have all run full.
\<close>

theorem apns_service_can_exit:
  assumes "NewAPNSPusher L production cfg v None = Some (ev, Inr p)" "\<forall>a \<in> set (GetApnsAppsArray (cfg_Apns_Apps cfg)). game_ok a"
    and "c_Topics (configure_consumer v) = []" "c_HandleAllMessagesBeforeExiting (ps_Queue p)"
    and "apns_room v" "0 < int_of (c_ChannelSize (ps_Queue p))"
    and "pusher_reach (apns_kind F D MJ rc) (apns_parts p) (run_config_of p) w s" "alive s" "ps_phase s \<noteq> Zero_seen"
  shows "(\<exists>t. (pusher_step (apns_kind F D MJ rc) (apns_parts p) (run_config_of p))\<^sup>*\<^sup>* s t \<and> ps_phase t = Exited False)
    \<longleftrightarrow> (\<forall>gp \<in> set (apns_parts p). lost (ps_apps s (fst gp)) = 0 \<and> \<not> sealed (snd (snd gp)) (ps_apps s (fst gp)))"
proof -
  have c: "pc_hasWG (run_config_of p)" "0 < pc_msgChan_size (run_config_of p)"
    using assms(4,6) by (simp_all add: run_config_of_def)
  have valid: "\<forall>gp \<in> set (apns_parts p). apns_valid (snd gp) \<and> apns_sized (snd gp)"
    using apns_started_valid [OF assms(1,2,4)] apns_started_sized [OF assms(1,5)] by blast
  note lead = apns_topics_lead [OF assms(1-3)]
  from apns_exit.exit_iff [OF valid apns_distinct [OF assms(1)] c lead assms(7-9)]
  show ?thesis by (simp only: all_apps_def apns_good_def)
qed

section \<open>The promises at work\<close>

abbreviation sample_apns_run :: "(ApnsNotification, unit pipeline, unit) pusher_state \<Rightarrow> bool" where
  "sample_apns_run \<equiv> pusher_reach sample_kind (apns_parts sample_apns_pusher) (run_config_of sample_apns_pusher) ()"

definition game_record :: feedback_message where
  "game_record = \<lparr>fm_Topic = ''push-game_apns-single'', fm_Value = ''null''\<rparr>"

theorem apns_service_accounts_witness:
  "\<exists>s. sample_apns_run s \<and> ps_wg s = 1 \<and> ps_dropped s = 0
    \<and> pusher_front s + over_apps (\<lambda>q. in_flight) (apns_parts sample_apns_pusher) s
        + over_apps (\<lambda>q. lost) (apns_parts sample_apns_pusher) s = 1"
proof -
  let ?c = "run_config_of sample_apns_pusher"
  let ?step = "pusher_step sample_kind (apns_parts sample_apns_pusher) ?c"
  let ?s0 = "pusher_initial sample_kind (apns_parts sample_apns_pusher) ()"
  let ?s1 = "?s0\<lparr>ps_consumer := Reading\<rparr>"
  have sub: "pc_subscribed ?c game_record" "pc_hasWG ?c"
    using sample_apns_started(3,4) by (simp_all add: run_config_of_def game_record_def)
  from apns_topics_lead [OF sample_apns_started(1,2) no_own_topics sub(1)]
  obtain m where m: "push_receiveMessage game_record = Some m" by blast
  let ?s2 = "?s1\<lparr>ps_consumer := Received m, ps_wg := ps_wg ?s1 + of_bool (pc_hasWG ?c)\<rparr>"
  have "?step ?s0 ?s1"
    by (rule reads) (simp_all add: pusher_initial_def alive_def stop_requested_def)
  moreover have "?step ?s1 ?s2"
    by (rule read_message [OF _ _ sub(1) m]) (simp_all add: pusher_initial_def alive_def)
  ultimately have reach: "sample_apns_run ?s2" by (meson pusher_reach.intros)
  have "ps_wg ?s2 = 1" "\<not> ps_panicked ?s2" using sub(2) by (simp_all add: pusher_initial_def)
  with apns_service_accounts [OF sample_apns_started(1,2) no_own_topics sample_apns_started(4) reach] reach
  show ?thesis by (intro exI [of _ ?s2]) simp
qed

lemma sample_apns_room: "apns_room sample_viper" "0 < int_of (c_ChannelSize (ps_Queue sample_apns_pusher))"
  by code_simp+

theorem apns_service_can_exit_witness:
  "\<exists>t. (pusher_step sample_kind (apns_parts sample_apns_pusher) (run_config_of sample_apns_pusher))\<^sup>*\<^sup>*
      (pusher_initial sample_kind (apns_parts sample_apns_pusher) ()) t \<and> ps_phase t = Exited False"
proof -
  have "alive (pusher_initial sample_kind (apns_parts sample_apns_pusher) ())"
    "ps_phase (pusher_initial sample_kind (apns_parts sample_apns_pusher) ()) \<noteq> Zero_seen"
    by (simp_all add: pusher_initial_def alive_def)
  from apns_service_can_exit [OF sample_apns_started(1,2) no_own_topics sample_apns_started(4) sample_apns_room pusher_reach.start this]
  show ?thesis by (simp add: pusher_initial_def apns_kind_def initial_def sealed_def)
qed

theorem gcm_service_shuts_down_witness:
  "\<exists>t. (pusher_step sample_fcm_kind (fcm_parts sample_gcm_pusher) (run_config_of sample_gcm_pusher))\<^sup>*\<^sup>*
      (pusher_initial sample_fcm_kind (fcm_parts sample_gcm_pusher) ()) t \<and> ps_phase t = Exited False"
proof -
  have "0 < int_of (cfg_GCM_ConcurrentWorkers sample_pusher_config)" by code_simp
  from gcm_service_shuts_down [OF sample_gcm_started(1,2) no_own_topics sample_gcm_started(4) this sample_gcm_started(5)
      pusher_reach.start]
  show ?thesis by (simp add: pusher_initial_def alive_def)
qed

end
