(* ===== verification/Command.thy ===== *)
theory Command
  imports Startup
begin

text \<open>
  The commands (\<^verbatim>\<open>cmd/apns.go\<close>, \<^verbatim>\<open>cmd/gcm.go\<close>, \<^verbatim>\<open>cmd/feedback_listener.go\<close>) and the reading of the
  configuration they begin with (\<^verbatim>\<open>config/config.go\<close>, \<^verbatim>\<open>util/config.go\<close>), with the hook that lets a map be
  given as a JSON text, as an environment variable has to give it.
\<close>

section \<open>A map given as a text\<close>

text \<open>The kinds of types the hook tells apart, the type it is asked for, and what it gives back.\<close>

datatype kind = String_kind | Map_kind kind kind | Other_kind

text \<open>The data as it was, or a map, nil or not, with or without an error.\<close>

datatype hook_result = Unchanged | Decoded "(string \<times> string) list option" bool

text \<open>\<open>json.Unmarshal\<close> into a map of strings: what is no string leaves an empty one, and an error unless it is null.\<close>

fun dec_strings :: "(string \<times> json) list \<Rightarrow> (string \<times> string) list \<Rightarrow> (string \<times> string) list \<times> bool" where
  "dec_strings [] m = (m, False)"
| "dec_strings ((k, j) # kvs) m =
    (let (s, bad) = (case j of JStr s \<Rightarrow> (s, False) | JNull \<Rightarrow> ('''', False) | _ \<Rightarrow> ('''', True));
         (m', bad') = dec_strings kvs (map_set k s m)
     in (m', bad \<or> bad'))"

definition unmarshal_strings :: "string \<Rightarrow> hook_result" where
  "unmarshal_strings raw =
     (case parse_json raw of
        None \<Rightarrow> Decoded (Some []) True
      | Some JNull \<Rightarrow> Decoded None False
      | Some (JObj kvs) \<Rightarrow> (let (m, bad) = dec_strings kvs [] in Decoded (Some m) bad)
      | Some _ \<Rightarrow> Decoded (Some []) True)"

text \<open>The text is that of the data when the data is a string.\<close>

definition StringToMapStringHookFunc :: "kind \<Rightarrow> kind \<Rightarrow> string \<Rightarrow> hook_result" where
  "StringToMapStringHookFunc f t raw =
     (case (f, t) of
        (String_kind, Map_kind key elem) \<Rightarrow>
          if key \<noteq> String_kind \<or> elem \<noteq> String_kind then Unchanged
          else if raw = '''' then Decoded (Some []) False
          else unmarshal_strings raw
      | _ \<Rightarrow> Unchanged)"

lemma update_fresh: "k \<notin> fst ` set m \<Longrightarrow> map_set k v m = m @ [(k, v)]"
  by (induction m) auto

lemma dec_strings_map:
  "distinct (map fst (m @ kvs)) \<Longrightarrow> dec_strings (map (\<lambda>kv. (fst kv, JStr (snd kv))) kvs) m = (m @ kvs, False)"
proof (induction kvs arbitrary: m)
  case (Cons kv kvs)
  then show ?case by (cases kv) (simp add: update_fresh)
qed simp

text \<open>A map of strings written as JSON is read back as it was.\<close>

lemma map_hook_round_trip:
  assumes "distinct (map fst m)" "\<forall>kv \<in> set m. utf8 (fst kv) \<and> utf8 (snd kv)"
  shows "StringToMapStringHookFunc String_kind (Map_kind String_kind String_kind)
      (render (JObj (map (\<lambda>kv. (fst kv, JStr (snd kv))) m))) = Decoded (Some m) False"
proof -
  let ?j = "JObj (map (\<lambda>kv. (fst kv, JStr (snd kv))) m)"
  have "parse_json (render ?j) = Some ?j" using assms(2) by (intro parse_json_render) auto
  moreover have "parse_json '''' = None" by code_simp
  then have "render ?j \<noteq> ''''" using calculation by auto
  ultimately show ?thesis
    using dec_strings_map [of "[]" m] assms(1) by (simp add: StringToMapStringHookFunc_def unmarshal_strings_def)
qed

section \<open>The configuration\<close>

text \<open>
  The file is read by viper, twice, and decoded into the structure: the parameters.  An error is its text.
\<close>

definition NewConfigAndViper ::
    "(string \<Rightarrow> string + 'v) \<Rightarrow> ('v \<Rightarrow> string option) \<Rightarrow> ('v \<Rightarrow> string + 'c) \<Rightarrow> string \<Rightarrow> string + 'c \<times> 'v" where
  "NewConfigAndViper NewViper ReadInConfig Unmarshal configFile =
     (case NewViper configFile of
        Inl err \<Rightarrow> Inl err
      | Inr v \<Rightarrow>
         (case ReadInConfig v of
            Some err \<Rightarrow> Inl (''error reading config file from '' @ configFile @ '': '' @ err)
          | None \<Rightarrow>
             (case Unmarshal v of
                Inl err \<Rightarrow> Inl (''error unmarshalling config: '' @ err)
              | Inr config \<Rightarrow> Inr (config, v))))"

section \<open>The commands\<close>

text \<open>A command panics, or runs what it has made at a log level.\<close>

datatype 'p command = Command_panics | Runs level 'p

definition startApns ::
    "libraries \<Rightarrow> bool \<Rightarrow> bool \<Rightarrow> pusher_config \<Rightarrow> viper \<Rightarrow> push_queue option \<Rightarrow> level \<times> (stat_event list \<times> (string + apns_app pusher)) option" where
  "startApns L debug production cfg v queueOrNil = (start_log_level debug v, NewAPNSPusher L production cfg v queueOrNil)"

definition apnsCmd :: "(string \<Rightarrow> string + pusher_config \<times> viper) \<Rightarrow> libraries \<Rightarrow> bool \<Rightarrow> bool \<Rightarrow> string \<Rightarrow> apns_app pusher command" where
  "apnsCmd read_config L debug production cfgFile =
     (case read_config cfgFile of
        Inl err \<Rightarrow> Command_panics
      | Inr (cfg, v) \<Rightarrow>
         (case startApns L debug production cfg v None of
            (level, Some (_, Inr p)) \<Rightarrow> Runs level p
          | _ \<Rightarrow> Command_panics))"

definition startGcm :: "float_ops \<Rightarrow> libraries \<Rightarrow> bool \<Rightarrow> pusher_config \<Rightarrow> viper \<Rightarrow> level \<times> (string + fcm_app pusher) option" where
  "startGcm F L debug cfg v = (start_log_level debug v, NewGCMPusher F L cfg v)"

definition gcmCmd ::
    "(string \<Rightarrow> string + pusher_config \<times> viper) \<Rightarrow> float_ops \<Rightarrow> libraries \<Rightarrow> bool \<Rightarrow> string \<Rightarrow> fcm_app pusher command" where
  "gcmCmd read_config F L debug cfgFile =
     (case read_config cfgFile of
        Inl err \<Rightarrow> Command_panics
      | Inr (cfg, v) \<Rightarrow>
         (case startGcm F L debug cfg v of
            (level, Some (Inr p)) \<Rightarrow> Runs level p
          | _ \<Rightarrow> Command_panics))"

definition newFeedbackListener ::
    "(string + reporter) option \<Rightarrow> (ConfigMap \<Rightarrow> string option) \<Rightarrow> (string \<Rightarrow> string option) \<Rightarrow> bool \<Rightarrow> viper
      \<Rightarrow> level \<times> (string + listener) option" where
  "newFeedbackListener new_statsd new_kafka new_pg debug v =
     (start_log_level debug v, configure_listener new_statsd new_kafka new_pg v)"

definition startFeedbackListenerCmd ::
    "(string \<Rightarrow> string + viper) \<Rightarrow> (string + reporter) option \<Rightarrow> (ConfigMap \<Rightarrow> string option) \<Rightarrow> (string \<Rightarrow> string option)
      \<Rightarrow> bool \<Rightarrow> string \<Rightarrow> listener command" where
  "startFeedbackListenerCmd NewViper new_statsd new_kafka new_pg debug cfgFile =
     (case NewViper cfgFile of
        Inl err \<Rightarrow> Command_panics
      | Inr v \<Rightarrow>
         (case newFeedbackListener new_statsd new_kafka new_pg debug v of
            (level, Some (Inr l)) \<Rightarrow> Runs level l
          | _ \<Rightarrow> Command_panics))"

text \<open>A command that runs has read its configuration, and runs the pusher that belongs to it.\<close>

lemma apnsCmd_runs:
  assumes "apnsCmd read_config L debug production cfgFile = Runs level p"
  obtains cfg v ev where "read_config cfgFile = Inr (cfg, v)" "NewAPNSPusher L production cfg v None = Some (ev, Inr p)"
    "level = start_log_level debug v"
  using assms
  by (auto simp: apnsCmd_def startApns_def split: sum.splits option.splits prod.splits)

lemma gcmCmd_runs:
  assumes "gcmCmd read_config F L debug cfgFile = Runs level p"
  obtains cfg v where "read_config cfgFile = Inr (cfg, v)" "NewGCMPusher F L cfg v = Some (Inr p)" "level = start_log_level debug v"
  using assms
  by (auto simp: gcmCmd_def startGcm_def split: sum.splits option.splits prod.splits)

end
