(* ===== verification/Spec2Isabelle.thy ===== *)
theory Spec2Isabelle
  imports Timeout_Heap Apns_Close Feedback_Service Metrics Service Command
begin

text \<open>
  A verification library for the push notification service in \<^verbatim>\<open>src/\<close> (Go).

  The program.  A \<^emph>\<open>pusher\<close> (\<^verbatim>\<open>pusher/\<close>, one process for APNS and one for FCM) consumes messages
  from Kafka (\<^verbatim>\<open>extensions/kafka_consumer.go\<close>), routes each by the game of its topic to the handler
  of that app, and the handler parses it, drops what has expired, asks the rate limiter and the
  deduplication (both on Redis), and pushes it; the response of the push service settles the message
  in the wait group a shutdown waits for, is retried, or becomes a feedback, which a Kafka producer
  sends to a topic of the app.  The \<^emph>\<open>feedback listener\<close> (\<^verbatim>\<open>feedback/\<close>) consumes these topics; its
  broker picks out the tokens that are dead, and the handler of invalid tokens deletes them from the
  database in batches.

  The theories, from the bottom, with the code they model.

  \<^item> \<open>Prelude\<close>: Go's \<open>int\<close> and \<open>int64\<close> as a type of 64 bits with wrap-around (\<open>int64\<close>, \<open>i64\<close>,
    \<open>int_of\<close>), and the generic lemmas.
  \<^item> \<open>Go_Regexp\<close>, \<open>Topic\<close>: a backtracking matcher with the leftmost-first meaning of Go's \<^verbatim>\<open>regexp\<close>, and
    \<open>GetGameAndPlatformFromTopic\<close> (\<^verbatim>\<open>extensions/common.go\<close>), with what its pattern computes, the round
    trip of topics, and where it panics.
  \<^item> \<open>Strconv\<close>, \<open>Json\<close>, \<open>Json_Text\<close>: what the code uses of \<^verbatim>\<open>strconv\<close> and \<^verbatim>\<open>encoding/json\<close>: decimal
    numbers, JSON values and Go's \<open>interface{}\<close> values, decoding into a struct, writing and parsing a
    text, and that parsing reads back what was written.
  \<^item> \<open>Viper\<close>, \<open>Config\<close>: typed configuration values with their defaults; the lists of apps
    (\<^verbatim>\<open>config/config.go\<close>) and the log levels (\<^verbatim>\<open>util/config.go\<close>).
  \<^item> \<open>Stats\<close>: \<^verbatim>\<open>errors/push.go\<close>, the metric calls and their broadcasts (\<^verbatim>\<open>extensions/common.go\<close>), and
    the StatsD reporter (\<^verbatim>\<open>extensions/datadog_statsd.go\<close>).
  \<^item> \<open>Timeout_Heap\<close>: \<^verbatim>\<open>extensions/timeout_heap.go\<close> over Go's \<^verbatim>\<open>container/heap\<close>, with the heap
    invariant and the refinement to a multiset of requests; the locale \<open>request_queue\<close> is its interface.
  \<^item> \<open>Dedup\<close>, \<open>Rate_Limiter\<close>: \<^verbatim>\<open>extensions/dedup_messages.go\<close> and \<^verbatim>\<open>extensions/rate_limiter.go\<close> over a
    server of Redis that is a parameter, for one caller and, for the limiter, for interleaved callers.
  \<^item> \<open>Effects\<close>: what a handler does, in order, as a list of effects, and the locales
    \<open>message_handler\<close> (every message is either started or settled, and once) and \<open>rate_limiter\<close>.
  \<^item> \<open>Apns_Handler\<close>, \<open>Apns_Pipeline\<close>: \<^verbatim>\<open>extensions/apns/apns_message_handler.go\<close>, and with
    \<^verbatim>\<open>apns_push_queue.go\<close> the goroutines from the consumer to the response as a step relation, with the
    accounting of the wait group, the bound of retries, termination, and the deadlock of retries;
    \<open>Apns_Close\<close>: the clean-up of a handler, which closes the queue: when it can panic, and that it ends otherwise
    with every goroutine returned.  No code calls it yet.
  \<^item> \<open>Fcm_Client\<close>, \<open>Fcm_Handler\<close>, \<open>Fcm_Pipeline\<close>: \<^verbatim>\<open>extensions/firebase/\<close> in the same way.
  \<^item> \<open>Broker\<close>, \<open>Invalid_Token\<close>: \<^verbatim>\<open>feedback/broker.go\<close> and \<^verbatim>\<open>feedback/invalid_token.go\<close>, with the way of a
    feedback from a handler's response to the broker.
  \<^item> \<open>Token_Store\<close>: the handler of invalid tokens with the database as a state that its queries change;
    the buffered deletions refine the deletion of every token at once, but for what the database refuses: the tokens of the queries it
    answers with an error, which the code does not repeat.
  \<^item> \<open>Feedback_Pipeline\<close>: the goroutines of the listener (consumer, broker, handler) with their two
    channels, the calls of the clean-up and the wait at its end as a step relation: the accounting of the wait
    group, what can panic (the closed channel, the wait group used again, a ticker without a time), what the tables lose, and what the
    order of the clean-up's calls can do.
  \<^item> \<open>Feedback_Shutdown\<close>, \<open>Feedback_Service\<close>: the end of the listener, which is bounded and can go well, and the
    listener from its configuration, with the subscription \<^verbatim>\<open>config/default.yaml\<close> ships.
  \<^item> \<open>Metrics\<close>: the metrics of all components meet the StatsD reporter.
  \<^item> \<open>Kafka_Consumer\<close>: the two consumers; \<open>Pusher\<close>: topics, handlers, reporters and routing
    (\<^verbatim>\<open>pusher/\<close>), with the locale \<open>message_router\<close>; \<open>Pg\<close>: \<^verbatim>\<open>extensions/pg.go\<close>; \<open>Listener\<close>:
    \<^verbatim>\<open>feedback/listener.go\<close> and the configurations; \<open>Startup\<close>: how both pushers are put together from
    their configuration, down to the clients of the servers.
  \<^item> \<open>Pusher_Run\<close>, \<open>Shutdown\<close>: a pusher at work with all its apps, which share consumer, router and
    wait group, and its shutdown as steps.  The locales \<open>app_laws\<close> and \<open>resting_app_laws\<close> say what the
    pusher relies on in an app; they are interpreted on the APNS and FCM pipelines, and give what the
    wait group counts, that a shutdown ends, what it can wait for in vain, and what it can lose.
  \<^item> \<open>Pusher_Exit\<close>, \<open>Graceful_Exit\<close>: from which states a shutdown can still succeed.  The locale \<open>exit_laws\<close> asks for the
    good states of an app, from which it can settle all it has and which are never reached again once left; for FCM all
    are, for APNS those in which no push was lost and the queue is not sealed, which is what comes before the
    retry deadlock.
  \<^item> \<open>Service\<close>: from configuration to exit: what \<open>Startup\<close> makes is run by \<open>Pusher_Run\<close>; a pusher that subscribes
    to the topics of its apps drops no message, for FCM it can always be shut down without the time-out, and for APNS
    exactly from the good states.
  \<^item> \<open>Command\<close>: the three commands of \<^verbatim>\<open>cmd/\<close>, and what they begin with: loading the configuration, with the hook
    that reads a map from a JSON text.
  \<^item> this theory: the properties across components, from the answer of APNS or Firebase to the row of the database.

  How the code is read.  A struct is a record (its field names kept, with a prefix where two structs
  would clash), a method that changes a struct returns it changed; the calls a method makes on things
  outside (metrics, pushes, feedbacks, \<open>Done\<close>) are the list of \<open>effect\<close>s it returns, in order; a panic
  is \<open>None\<close>.  Strings are lists of bytes.  A map of Go that is written in no particular order is an
  association list without duplicates.  Parameters stand for what is not in \<^verbatim>\<open>src/\<close>: the servers
  (Redis, Kafka, PostgreSQL, APNS, Firebase), the nanoseconds of the clock and the UUIDs (in \<open>env\<close>), the reasons of
  \<^verbatim>\<open>apns2\<close>, the reading of a message by \<^verbatim>\<open>go-gcm\<close> and where the reading of an \<^verbatim>\<open>apns2\<close> notification stops with an error (both in
  \<open>feedback_readers\<close>), the JSON of an \<^verbatim>\<open>apns2\<close> notification, and floating point (\<open>float_ops\<close>).  Hypotheses on them are named definitions with \<open>documented\<close> in their name
  and have an instance (\<open>memory_redis\<close>, \<open>expiring_redis\<close>, \<open>counting_redis\<close>, \<open>memory_db\<close>, \<open>flaky_db\<close>, \<open>kafka_subscribes\<close>, \<open>sample_readers\<close>, \<open>apple_reason\<close>).  Redis is a
  function of the time in milliseconds, at which its keys are over; one clock gives the time of the server and of the process.

  The wait group of \<^verbatim>\<open>sync\<close> is a counter with the one goroutine that waits for it (\<open>WaitTimeout\<close>): it finds zero, or sleeps until the
  \<open>Done\<close> that brings the counter to zero wakes it; a \<open>Done\<close> below zero panics, and so does an \<open>Add\<close> from zero while the waiter is
  waking up, in the caller or in the waiter, as \<^verbatim>\<open>sync\<close> has it.  \<open>time.NewTicker\<close> panics on a time that is not above zero.  A closed
  channel gives what is left in it and then nothing, as often as it is asked; a send on it panics.  A query of the database may be
  answered with any error at any time, and with more rows than tokens; nobody else writes the tables of tokens.

  Bounds.  The JSON parser has fuel, twice the length of the text and two, and the round trip shows that
  this is enough for every text the program writes.  The waiting for the database is a partial
  function, which is shown to end.  The pipelines, the pushers and the shutdown of the listener have explicit potentials
  that bound every run, for the listener not counting the turns in which its handler of invalid tokens gets no token.  A channel is a list up to its size, so that a size of zero, with which Go hands over directly,
  is one that lets nothing through: what is said of progress asks for sizes above zero.

  What is not modelled: logging and Sentry, the clients themselves, the server of \<^verbatim>\<open>pprof\<close>, the parsing of the
  command line, the reading of the configuration file and viper's conversions between types.
\<close>

section \<open>From a dead token to its deletion\<close>

text \<open>
  \<^bold>\<open>C1\<close>  A token that APNS calls dead is deleted, across both programs: if a response settles its message as such a
  failure, every feedback reporter gets one feedback; once a properly started listener has read what this becomes in
  Kafka, the token is in every later state gone from the table of its app, or on its way to the database, or the
  database has since answered an error when it was to delete it, which the listener does not try again; and as long as the broker is
  at work, the listener can end without its time-out and with the token gone, but for such an error.
\<close>

theorem dead_token_deleted:
  assumes "\<not> is_retried rc a r" "r_Reason r \<noteq> ''''" "r_Reason r \<in> rc ` set bad_token_reasons"
    and "game_ok (h_appName a)" "response_json F MJ (failed_response rc r) = Some j" "json_ok j"
    and "properly_started new_statsd new_kafka new_pg v subscribes cluster l" "InvalidTokenEnabled (l_Broker l)"
    and "delete_documented db rows names" "table = names (h_appName a @ ''_apns'')"
    and "listener_reach rc lib subscribes cluster db l d s"
    and "receiveMessage (SendFeedback_message (h_appName a) ''apns'' (render j)) = Some q" "q \<in> set (queued s)"
  shows "feedbacks (handleAPNSResponse F MJ rc env a r) = map (\<lambda>s. (s, h_appName a, ''apns'', render j)) (h_feedbackReporters a)
    \<and> (\<forall>t. (listener_step rc lib subscribes cluster db l)\<^sup>*\<^sup>* s t \<longrightarrow> r_DeviceToken r \<in> rows (fb_db t) table \<longrightarrow>
         r_DeviceToken r \<in> tokens_of names table
           (on_the_way rc lib (listener_config_of subscribes cluster l) t @ refused_since s t))
    \<and> (listener_alive s \<and> \<not> out_closed (fb_cleanup s) \<and> fb_broker s \<noteq> Broker_returned
       \<longrightarrow> (\<exists>t. (listener_step rc lib subscribes cluster db l)\<^sup>*\<^sup>* s t \<and> fb_cleanup t = Listener_exited False
             \<and> (r_DeviceToken r \<in> rows (fb_db t) table \<longrightarrow> r_DeviceToken r \<in> tokens_of names table (refused_since s t))))"
proof -
  let ?t = "\<lparr>Token = r_DeviceToken r, it_Game = h_appName a, it_Platform = ''apns''\<rparr>"
  note read = apns_feedback_read [OF assms(1,2,4,5,6), where env = env and lib = lib and hasWG = True]
  have table: "table_of names ?t = table" by (simp add: table_of_def table_name_def assms(10))
  have "started (processMessage rc lib (InvalidTokenEnabled (l_Broker l)) True q) = [?t]"
    using read assms(3,8,12) by auto
  from dead_token_fate [OF assms(7,9,11,13) this] read show ?thesis unfolding table by simp
qed

text \<open>
  The feedback of a dead token, in the batches of the handler: if a response settles its message as such a failure,
  then the feedback it makes, once through Kafka, makes the broker of a configured listener send on one
  token, and whatever else the handler of invalid tokens is given before and after it, as soon as its flush
  timer ticks, one of its batches makes a query that deletes the token from the table of the app.
\<close>

lemma dead_token_query:
  assumes "\<not> is_retried rc a r" "r_Reason r \<noteq> ''''" "r_Reason r \<in> rc ` set bad_token_reasons"
    and "game_ok (h_appName a)" "response_json F MJ (failed_response rc r) = Some j" "json_ok j"
    and "configure_listener new_statsd new_kafka new_pg v = Some (Inr l)" "InvalidTokenEnabled (l_Broker l)"
    and "\<forall>t \<in> set (tokens_in (es @ es')). it_Platform t \<in> {''apns'', ''gcm''}" "Flush_tick \<in> set es'"
  shows "feedbacks (handleAPNSResponse F MJ rc env a r) = map (\<lambda>s. (s, h_appName a, ''apns'', render j)) (h_feedbackReporters a)
    \<and> (\<exists>msg t batch ds ts query.
        receiveMessage (SendFeedback_message (h_appName a) ''apns'' (render j)) = Some msg
        \<and> started (processMessage rc lib (InvalidTokenEnabled (l_Broker l)) hasWG msg) = [t]
        \<and> batch \<in> set (fst (processMessages (es @ Token_in t # es') (l_InvalidTokenHandler l)))
        \<and> deleteTokens batch = Some ds \<and> (''apns'', h_appName a, ts) \<in> set ds
        \<and> fst (deleteTokensFromGame exec (StatsReporters l) ts (h_appName a) ''apns'')
            = (''DELETE FROM '' @ h_appName a @ ''_apns WHERE token IN ('' @ query, ts)
        \<and> r_DeviceToken r \<in> set ts)"
proof -
  let ?t = "\<lparr>Token = r_DeviceToken r, it_Game = h_appName a, it_Platform = ''apns''\<rparr>"
  let ?h = "l_InvalidTokenHandler l"
  note read = apns_feedback_read [OF assms(1,2,4,5,6), where env = env and lib = lib and hasWG = hasWG]
  then obtain msg where msg: "receiveMessage (SendFeedback_message (h_appName a) ''apns'' (render j)) = Some msg"
      "started (processMessage rc lib (InvalidTokenEnabled (l_Broker l)) hasWG msg) = [?t]"
    using assms(3,8) by auto
  obtain batch where batch: "batch \<in> set (fst (processMessages (es @ Token_in ?t # es') ?h))" "?t \<in> set batch"
    using token_flushed [OF assms(10)] by blast
  have "Buffer ?h = []" using configured_handler(1) [OF assms(7)] .
  then have platforms: "\<forall>u \<in> set batch. it_Platform u \<in> {''apns'', ''gcm''}"
    using batched_tokens [OF batch(1)] assms(9) by fastforce
  define ts where "ts = map Token (filter (\<lambda>u. it_Platform u = ''apns'' \<and> it_Game u = h_appName a) batch)"
  have token: "r_DeviceToken r \<in> set ts" unfolding ts_def using batch(2) by force
  then have "ts \<noteq> []" by auto
  obtain ds where ds: "deleteTokens batch = Some ds"
    and groups: "\<And>p g ts. (p, g, ts) \<in> set ds \<longleftrightarrow>
         ts = map Token (filter (\<lambda>t. it_Platform t = p \<and> it_Game t = g) batch) \<and> ts \<noteq> []"
    using deleteTokens_grouped [OF platforms] by blast
  have group: "(''apns'', h_appName a, ts) \<in> set ds"
    unfolding groups using \<open>ts \<noteq> []\<close> by (simp add: ts_def)
  have query: "fst (deleteTokensFromGame exec (StatsReporters l) ts (h_appName a) ''apns'')
      = (''DELETE FROM '' @ h_appName a @ ''_apns WHERE token IN ('' @ write_placeholders 0 (length ts) ts @ '';'', ts)"
    by (simp add: deleteTokensFromGame_def delete_query_def Let_def)
  show ?thesis using read [THEN conjunct1] msg batch(1) ds group query token by blast
qed

definition sample_listener :: listener where
  "sample_listener = projr (the (configure_listener (Some (Inr 0)) (\<lambda>c. None) (\<lambda>p. None) (\<lambda>k. None)))"

lemma dead_token_query_example:
  "\<exists>msg t batch ds ts. receiveMessage (SendFeedback_message ''g'' ''apns'' (render bad_token_json)) = Some msg
    \<and> started (processMessage apple_reason sample_readers True True msg) = [t]
    \<and> batch \<in> set (fst (processMessages ([] @ Token_in t # [Flush_tick]) (l_InvalidTokenHandler sample_listener)))
    \<and> deleteTokens batch = Some ds \<and> (''apns'', ''g'', ts) \<in> set ds \<and> ''tok'' \<in> set ts"
proof -
  have 1: "configure_listener (Some (Inr 0)) (\<lambda>c. None) (\<lambda>p. None) (\<lambda>k. None) = Some (Inr sample_listener)"
    "InvalidTokenEnabled (l_Broker sample_listener)"
    by code_simp+
  have 2: "\<forall>t \<in> set (tokens_in ([] @ [Flush_tick])). it_Platform t \<in> {''apns'', ''gcm''}" "Flush_tick \<in> set [Flush_tick]"
    by simp_all
  show ?thesis
    using dead_token_query [OF bad_token_facts(1,2) bad_token_fields(1) bad_token_facts(3-5) 1 2, where hasWG = True
        and lib = sample_readers and env = sample_env and exec = "\<lambda>q p. Rows 1"] 1(2) bad_token_fields(2,3)
    by (simp del: processMessages.simps) blast
qed

theorem dead_token_deleted_witness:
  "\<exists>t. (listener_step apple_reason sample_readers kafka_subscribes [fm_Topic sample_feedback] memory_db shipped_listener)\<^sup>*\<^sup>*
      (first_read shipped_listener [(''g_apns'', ''tok'')] sample_queued) t
    \<and> fb_cleanup t = Listener_exited False \<and> ''tok'' \<notin> memory_rows (fb_db t) ''g_apns''"
proof -
  have 1: "InvalidTokenEnabled (l_Broker shipped_listener)" by code_simp
  have 2: "receiveMessage (SendFeedback_message (h_appName sample_handler) ''apns'' (render bad_token_json)) = Some sample_queued"
    using sample_feedback_facts(1) by (simp only: sample_feedback_def bad_token_fields)
  have 3: "listener_reach apple_reason sample_readers kafka_subscribes [fm_Topic sample_feedback] memory_db shipped_listener
      [(''g_apns'', ''tok'')] (first_read shipped_listener [(''g_apns'', ''tok'')] sample_queued)"
    by (rule first_read_reach [OF sample_started sample_feedback_facts(1)])
  show ?thesis
    using dead_token_deleted [OF bad_token_facts(1,2) bad_token_fields(1) bad_token_facts(3-5) sample_started(1) 1
        memory_db_documented refl 3 2]
      none_refused_since [OF memory_never_refuses 3]
    by (simp add: first_read_facts bad_token_fields(2,3)) (metis tokens_of_Nil empty_iff)
qed

section \<open>The same for Firebase\<close>

text \<open>
  \<^bold>\<open>C2\<close>  A token that Firebase calls unregistered is deleted, across both programs: if the client's send of a message to a
  gcm device fails so, then whatever feedback of this a reporter is given, once a properly started listener has read it from
  Kafka, the token of the message is in every later state gone from the table of its app, or on its way to the database, or
  the database has since answered an error when it was to delete it; and as long as the broker is at work, the listener can end without
  its time-out and with the token gone, but for such an error.
\<close>

theorem unregistered_token_deleted:
  assumes "send (toFirebaseMessage now m) = Some err" "IsUnregistered E err" "\<not> IsInvalidArgument E err"
    and "m_Platform m = ''gcm''" "ccs_documented lib" "game_ok (f_app h)" "utf8 (m_To m)" "utf8 (Error E err)"
    and "(r, g, p, v) \<in> set (feedbacks (handle_response h (m, map_option Pusher_error (SendPush E send now m))))"
    and "properly_started new_statsd new_kafka new_pg vp subscribes cluster l" "InvalidTokenEnabled (l_Broker l)"
    and "delete_documented db rows names" "table = names (f_app h @ ''_gcm'')"
    and "listener_reach rc lib subscribes cluster db l d s"
    and "receiveMessage (SendFeedback_message g p v) = Some q" "q \<in> set (queued s)"
  shows "(\<forall>t. (listener_step rc lib subscribes cluster db l)\<^sup>*\<^sup>* s t \<longrightarrow> m_To m \<in> rows (fb_db t) table \<longrightarrow>
        m_To m \<in> tokens_of names table (on_the_way rc lib (listener_config_of subscribes cluster l) t @ refused_since s t))
    \<and> (listener_alive s \<and> \<not> out_closed (fb_cleanup s) \<and> fb_broker s \<noteq> Broker_returned
       \<longrightarrow> (\<exists>t. (listener_step rc lib subscribes cluster db l)\<^sup>*\<^sup>* s t \<and> fb_cleanup t = Listener_exited False
             \<and> (m_To m \<in> rows (fb_db t) table \<longrightarrow> m_To m \<in> tokens_of names table (refused_since s t))))"
proof -
  let ?t = "\<lparr>Token = m_To m, it_Game = f_app h, it_Platform = ''gcm''\<rparr>"
  let ?e = "Pusher_error (NewPushError ''DEVICE_UNREGISTERED'' (Error E err))"
  have e: "SendPush E send now m = Some (NewPushError ''DEVICE_UNREGISTERED'' (Error E err))"
    using assms(1-3) by (simp add: SendPush_def translateError_def)
  have key: "Key (translateToPushError ?e) = ''DEVICE_UNREGISTERED''" "Description (translateToPushError ?e) = Error E err"
    by (simp_all add: NewPushError_def)
  moreover have "utf8 ''DEVICE_UNREGISTERED''" by code_simp
  ultimately have "utf8 (Key (translateToPushError ?e))" "utf8 (Description (translateToPushError ?e))"
    using assms(8) by (simp_all only:)
  from fcm_feedback_read [OF assms(5,6) disjI1 [OF assms(4)] assms(7) this, of rc True]
  obtain v' msg where v': "feedbacks (handle_response h (m, Some ?e)) = map (\<lambda>s. (s, f_app h, m_Platform m, v')) (f_feedbackReporters h)"
    "receiveMessage (SendFeedback_message (f_app h) (m_Platform m) v') = Some msg"
    "started (processMessage rc lib True True msg) = [?t]"
    using assms(4) key(1) by auto
  have "g = f_app h" "p = m_Platform m" "v = v'" using assms(9) v'(1) e by auto
  then have "started (processMessage rc lib (InvalidTokenEnabled (l_Broker l)) True q) = [?t]"
    using v'(2,3) assms(11,15) by simp
  moreover have "table_of names ?t = table" by (simp add: table_of_def table_name_def assms(13))
  ultimately show ?thesis using dead_token_fate [OF assms(10,12,14,16), of ?t] by simp
qed

definition sample_errors :: "unit messaging_errors" where
  "sample_errors = \<lparr>IsInvalidArgument = (\<lambda>_. False), IsUnregistered = (\<lambda>_. True), IsSenderIDMismatch = (\<lambda>_. False),
     IsQuotaExceeded = (\<lambda>_. False), IsUnavailable = (\<lambda>_. False), IsInternal = (\<lambda>_. False), IsThirdPartyAuthError = (\<lambda>_. False),
     Error = (\<lambda>_. ''gone'')\<rparr>"

definition unregistered_json :: json where
  "unregistered_json = FeedbackResponse_json
     \<lparr>fr_From = ''tok'', fr_Error = ''DEVICE_UNREGISTERED'', fr_ErrorDescription = ''gone''\<rparr>"

abbreviation unregistered_feedback :: feedback_message where
  "unregistered_feedback \<equiv> SendFeedback_message ''g'' ''gcm'' (render unregistered_json)"

theorem unregistered_token_deleted_witness:
  "\<exists>q t. receiveMessage unregistered_feedback = Some q
    \<and> (listener_step apple_reason sample_readers kafka_subscribes [fm_Topic unregistered_feedback] memory_db shipped_listener)\<^sup>*\<^sup>*
        (first_read shipped_listener [(''g_gcm'', ''tok'')] q) t
    \<and> fb_cleanup t = Listener_exited False \<and> ''tok'' \<notin> memory_rows (fb_db t) ''g_gcm''"
proof -
  let ?send = "\<lambda>m :: messaging_Message. Some ()"
  have 1: "InvalidTokenEnabled (l_Broker shipped_listener)" by code_simp
  have 2: "ccs_documented sample_readers" by (simp add: ccs_documented_def sample_readers_def)
  have 3: "IsUnregistered sample_errors ()" "\<not> IsInvalidArgument sample_errors ()" "Error sample_errors () = ''gone''"
    by (simp_all add: sample_errors_def)
  have 4: "utf8 ''tok''" "utf8 (Error sample_errors ())" unfolding 3 by code_simp+
  have 5: "m_Platform sample_message = ''gcm''" "m_To sample_message = ''tok''" "f_app sample_fcm_handler = ''g''"
    "f_feedbackReporters sample_fcm_handler = [0]"
    by (simp_all add: sample_message_def sample_fcm_handler_def)
  have 6: "game_ok (f_app sample_fcm_handler)" "utf8 (m_To sample_message)" using short_game(1) 4(1) 5 by simp_all
  have 7: "(0, ''g'', ''gcm'', render unregistered_json)
      \<in> set (feedbacks (handle_response sample_fcm_handler (sample_message, map_option Pusher_error (SendPush sample_errors ?send 0 sample_message))))"
    using 3 5 by (simp add: SendPush_def translateError_def handle_response_def handleNotificationFailure_def Let_def
        NewPushError_def unregistered_json_def)
  have "receiveMessage unregistered_feedback = Some \<lparr>q_Game = ''g'', q_Platform = ''gcm'', q_Value = render unregistered_json\<rparr>"
    by (rule feedback_topic [OF short_game(1)]) code_simp
  then obtain q where q: "receiveMessage unregistered_feedback = Some q" by blast
  have started: "properly_started (Some (Inr 0)) (\<lambda>c. None) (\<lambda>p. None) shipped_config kafka_subscribes
      [fm_Topic unregistered_feedback] shipped_listener"
    "fc_subscribed (listener_config_of kafka_subscribes [fm_Topic unregistered_feedback] shipped_listener) unregistered_feedback"
    by (rule shipped_proper [OF short_game(1,2) _ short_game(3)], simp)+
  have 8: "listener_reach apple_reason sample_readers kafka_subscribes [fm_Topic unregistered_feedback] memory_db shipped_listener
      [(''g_gcm'', ''tok'')] (first_read shipped_listener [(''g_gcm'', ''tok'')] q)"
    by (rule first_read_reach [OF started q])
  have "\<exists>t. (listener_step apple_reason sample_readers kafka_subscribes [fm_Topic unregistered_feedback] memory_db shipped_listener)\<^sup>*\<^sup>*
        (first_read shipped_listener [(''g_gcm'', ''tok'')] q) t
    \<and> fb_cleanup t = Listener_exited False \<and> ''tok'' \<notin> memory_rows (fb_db t) ''g_gcm''"
    using unregistered_token_deleted [OF refl 3(1,2) 5(1) 2 6 4(2) 7 started(1) 1 memory_db_documented refl 8 q]
      none_refused_since [OF memory_never_refuses 8]
    by (simp add: first_read_facts 5) (metis tokens_of_Nil empty_iff)
  with q show ?thesis by blast
qed

end
